(* ===== verification/Prelude.thy ===== *)
theory Prelude
  imports Main "HOL-Library.Word" "HOL-Library.Finite_Map" "HOL-Library.Char_ord"
    "HOL-Library.List_Lexorder"
begin

text \<open>
  Shared vocabulary of the development: the Rust types and standard-library operations the
  sources use (machine integers, \<open>Result\<close> with the \<open>?\<close> operator, byte strings and
  \<open>str::split\<close>, hash maps with their length, monotonic instants and durations), with the
  generic lemmas and the fact collections the component theories carry their proofs by.

  Strings are byte strings: a Rust \<open>String\<close> is its UTF-8 encoding, every \<^typ>\<open>char\<close> is one
  byte, and \<open>length\<close> is \<open>str::len\<close>.
\<close>

named_theorems result_simps \<open>unfolding of the Result combinators\<close>
named_theorems inv_intros \<open>operations that keep a component's invariant\<close>

type_synonym u8 = "8 word"
type_synonym u32 = "32 word"
type_synonym u64 = "64 word"
type_synonym u128 = "128 word"
type_synonym usize = "64 word"
type_synonym i32 = int
type_synonym i64 = int

section \<open>Results\<close>

text \<open>
  \<open>Result<T, E>\<close> is \<open>'e + 'a\<close>: \<open>Inl\<close> is \<open>Err\<close>, \<open>Inr\<close> is \<open>Ok\<close>. \<open>and_then\<close> is the
  \<open>?\<close> operator, \<open>ok_or\<close> and \<open>map_err\<close> are the methods of the same name.
\<close>

abbreviation Err :: "'e \<Rightarrow> 'e + 'a" where
  "Err \<equiv> Inl"

abbreviation Ok :: "'a \<Rightarrow> 'e + 'a" where
  "Ok \<equiv> Inr"

definition and_then :: "'e + 'a \<Rightarrow> ('a \<Rightarrow> 'e + 'b) \<Rightarrow> 'e + 'b" where
  "and_then r f = (case r of Inl e \<Rightarrow> Inl e | Inr x \<Rightarrow> f x)"

definition ok_or :: "'e \<Rightarrow> 'a option \<Rightarrow> 'e + 'a" where
  "ok_or e x = (case x of None \<Rightarrow> Inl e | Some v \<Rightarrow> Inr v)"

definition map_err :: "('e \<Rightarrow> 'f) \<Rightarrow> 'e + 'a \<Rightarrow> 'f + 'a" where
  "map_err f r = (case r of Inl e \<Rightarrow> Inl (f e) | Inr x \<Rightarrow> Inr x)"

definition is_ok :: "'e + 'a \<Rightarrow> bool" where
  "is_ok r = (case r of Inl _ \<Rightarrow> False | Inr _ \<Rightarrow> True)"

lemma and_then_simps [simp, result_simps]:
  "and_then (Inl e) f = Inl e" "and_then (Inr x) f = f x"
  by (simp_all add: and_then_def)

lemma and_then_eq_Inr [result_simps]:
  "and_then r f = Inr y \<longleftrightarrow> (\<exists>x. r = Inr x \<and> f x = Inr y)"
  by (cases r) auto

lemma and_then_eq_Inl [result_simps]:
  "and_then r f = Inl e \<longleftrightarrow> r = Inl e \<or> (\<exists>x. r = Inr x \<and> f x = Inl e)"
  by (cases r) auto

lemma ok_or_simps [simp, result_simps]:
  "ok_or e None = Inl e" "ok_or e (Some v) = Inr v"
  by (simp_all add: ok_or_def)

lemma ok_or_eq_Inr [result_simps]: "ok_or e x = Inr v \<longleftrightarrow> x = Some v"
  by (cases x) auto

lemma ok_or_eq_Inl [result_simps]: "ok_or e x = Inl e' \<longleftrightarrow> x = None \<and> e' = e"
  by (cases x) auto

lemma map_err_simps [simp, result_simps]:
  "map_err f (Inl e) = Inl (f e)" "map_err f (Inr x) = Inr x"
  by (simp_all add: map_err_def)

lemma map_err_eq_Inr [result_simps]: "map_err f r = Inr x \<longleftrightarrow> r = Inr x"
  by (cases r) auto

lemma map_err_eq_Inl [result_simps]: "map_err f r = Inl e \<longleftrightarrow> (\<exists>e'. r = Inl e' \<and> e = f e')"
  by (cases r) auto

lemma is_ok_simps [simp, result_simps]: "\<not> is_ok (Inl e)" "is_ok (Inr x)"
  by (simp_all add: is_ok_def)

lemma is_ok_iff: "is_ok r \<longleftrightarrow> (\<exists>x. r = Inr x)"
  by (cases r) auto

section \<open>Machine integers\<close>

text \<open>\<open>checked_add\<close> and \<open>saturating_sub\<close> of the unsigned integer types.\<close>

definition checked_add :: "'a::len word \<Rightarrow> 'a word \<Rightarrow> 'a word option" where
  "checked_add a b = (if unat a + unat b < 2 ^ LENGTH('a) then Some (a + b) else None)"

definition saturating_sub :: "'a::len word \<Rightarrow> 'a word \<Rightarrow> 'a word" where
  "saturating_sub a b = (if b \<le> a then a - b else 0)"

lemma checked_add_Some:
  "checked_add a b = Some c \<Longrightarrow> unat c = unat a + unat b"
  by (auto simp: checked_add_def unat_word_ariths split: if_splits)

lemma checked_add_None:
  "checked_add (a :: 'a::len word) b = None \<longleftrightarrow> 2 ^ LENGTH('a) \<le> unat a + unat b"
  by (auto simp: checked_add_def)

lemma unat_saturating_sub: "unat (saturating_sub a b) = unat a - unat b"
  by (auto simp: saturating_sub_def unat_sub word_le_nat_alt)

lemma saturating_sub_pos: "0 < saturating_sub a b \<longleftrightarrow> b < a"
  by (simp add: word_less_nat_alt unat_saturating_sub)

text \<open>A \<open>u64\<close> product computed in \<open>u128\<close> cannot wrap.\<close>

lemma unat_ucast_u64_u128: "unat (ucast (x :: u64) :: u128) = unat x"
  proof -
  have "unat x < 2 ^ 128"
    using unsigned_less [of x, where ?'a = nat] by simp
  then show ?thesis
    by (simp add: unsigned_ucast_eq take_bit_nat_eq_self)
qed

lemma unat_u64_bound: "unat (x :: u64) < 2 ^ 64"
  using unsigned_less [of x, where ?'a = nat] by simp

lemma unat_u128_product:
  "unat ((ucast (x :: u64) :: u128) * ucast (y :: u64)) = unat x * unat y"
proof -
  have "unat x * unat y < 2 ^ 64 * 2 ^ 64"
    by (rule mult_strict_mono) (use unat_u64_bound in auto)
  then have "unat x * unat y < 2 ^ LENGTH(128)"
    by simp
  then show ?thesis
    by (simp add: unat_word_ariths unat_ucast_u64_u128)
qed

section \<open>Bytes and strings\<close>

definition byte :: "char \<Rightarrow> nat" where
  "byte c = of_char c"

definition is_ascii_control :: "char \<Rightarrow> bool" where
  "is_ascii_control c = (byte c < 32 \<or> byte c = 127)"

definition is_ascii_digit :: "char \<Rightarrow> bool" where
  "is_ascii_digit c = (48 \<le> byte c \<and> byte c \<le> 57)"

definition is_ascii_lowercase :: "char \<Rightarrow> bool" where
  "is_ascii_lowercase c = (97 \<le> byte c \<and> byte c \<le> 122)"

definition is_ascii_uppercase :: "char \<Rightarrow> bool" where
  "is_ascii_uppercase c = (65 \<le> byte c \<and> byte c \<le> 90)"

definition is_ascii_alphanumeric :: "char \<Rightarrow> bool" where
  "is_ascii_alphanumeric c = (is_ascii_digit c \<or> is_ascii_lowercase c \<or> is_ascii_uppercase c)"

definition nul :: char where
  "nul = char_of (0 :: nat)"

lemma byte_nul [simp]: "byte nul = 0"
  by (simp add: byte_def nul_def)

lemma nul_is_control: "is_ascii_control nul"
  by (simp add: is_ascii_control_def)

lemma byte_inj: "byte c = byte d \<longleftrightarrow> c = d"
  by (simp add: byte_def)

lemma byte_bound: "byte c < 256"
  by (simp add: byte_def)

lemmas ascii_defs = is_ascii_control_def is_ascii_digit_def is_ascii_lowercase_def
  is_ascii_uppercase_def is_ascii_alphanumeric_def

text \<open>\<open>str::split\<close> with a single separator: always at least one piece.\<close>

fun split_on :: "'a \<Rightarrow> 'a list \<Rightarrow> 'a list list" where
  "split_on c [] = [[]]"
| "split_on c (x # xs) =
     (if x = c then [] # split_on c xs
      else (case split_on c xs of [] \<Rightarrow> [[x]] | y # ys \<Rightarrow> (x # y) # ys))"

fun join_with :: "'a \<Rightarrow> 'a list list \<Rightarrow> 'a list" where
  "join_with c [] = []"
| "join_with c [x] = x"
| "join_with c (x # y # ys) = x @ c # join_with c (y # ys)"

lemma split_on_neq_Nil [simp]: "split_on c xs \<noteq> []"
  by (cases xs) (auto split: list.splits)

lemma join_with_Cons_neq: "ys \<noteq> [] \<Longrightarrow> join_with c (x # ys) = x @ c # join_with c ys"
  by (cases ys) auto

lemma join_split_on: "join_with c (split_on c xs) = xs"
proof (induction xs)
  case Nil
  then show ?case by simp
next
  case (Cons x xs)
  obtain y ys where y: "split_on c xs = y # ys"
    by (cases "split_on c xs") auto
  with Cons.IH show ?case
    by (cases ys) auto
qed

lemma split_on_no_sep: "seg \<in> set (split_on c xs) \<Longrightarrow> c \<notin> set seg"
proof (induction xs arbitrary: seg)
  case Nil
  then show ?case by simp
next
  case (Cons x xs)
  then show ?case
    by (auto split: if_splits list.splits)
qed

lemma split_on_subset: "seg \<in> set (split_on c xs) \<Longrightarrow> set seg \<subseteq> set xs"
  by (induction xs arbitrary: seg) (fastforce split: if_splits list.splits)+

lemma split_on_cover: "x \<in> set xs \<Longrightarrow> x \<noteq> c \<Longrightarrow> \<exists>seg \<in> set (split_on c xs). x \<in> set seg"
  by (induction xs) (auto split: if_splits list.splits)

lemma split_on_absent: "c \<notin> set xs \<Longrightarrow> split_on c xs = [xs]"
  by (induction xs) auto

lemma split_on_append_sep: "c \<notin> set xs \<Longrightarrow> split_on c (xs @ c # ys) = xs # split_on c ys"
  by (induction xs) auto

text \<open>\<open>str::strip_prefix\<close>.\<close>

fun strip_prefix :: "'a list \<Rightarrow> 'a list \<Rightarrow> 'a list option" where
  "strip_prefix [] s = Some s"
| "strip_prefix (p # ps) [] = None"
| "strip_prefix (p # ps) (x # xs) = (if p = x then strip_prefix ps xs else None)"

lemma strip_prefix_Some: "strip_prefix p s = Some r \<longleftrightarrow> s = p @ r"
  by (induction p s rule: strip_prefix.induct) auto

section \<open>Maps\<close>

text \<open>A \<open>HashMap\<close> is a finite map; \<open>fmlen\<close> is its \<open>len\<close>.\<close>

definition fmlen :: "('a, 'b) fmap \<Rightarrow> nat" where
  "fmlen m = fcard (fmdom m)"

lemma fmlen_empty [simp]: "fmlen fmempty = 0"
  by (simp add: fmlen_def)

lemma fmlen_upd:
  "fmlen (fmupd k v m) = (if fmlookup m k = None then Suc (fmlen m) else fmlen m)"
  by (auto simp: fmlen_def fcard_finsert_if fmlookup_dom_iff)

lemma fmlen_drop:
  "fmlen (fmdrop k m) = (if fmlookup m k = None then fmlen m else fmlen m - 1)"
proof (cases "fmlookup m k")
  case None
  then have "fmdrop k m = m"
    by (intro fmap_ext) auto
  with None show ?thesis by simp
next
  case (Some v)
  then have "k |\<in>| fmdom m" by (rule fmdomI)
  with Some show ?thesis
    by (simp add: fmlen_def fcard_fminus_fsingleton)
qed

lemma fmlen_drop_le: "fmlen (fmdrop k m) \<le> fmlen m"
  by (simp add: fmlen_drop)

section \<open>Time\<close>

text \<open>
  \<open>Instant\<close> and \<open>Duration\<close> in nanoseconds. On Linux an \<open>Instant\<close> keeps its seconds in an
  \<open>i64\<close>, so \<open>checked_add\<close> fails from \<open>instant_limit\<close> on; a \<open>Duration\<close> keeps its seconds in
  a \<open>u64\<close>.
\<close>

type_synonym instant = nat
type_synonym duration = nat

definition instant_limit :: nat where
  "instant_limit = 2 ^ 63 * 10 ^ 9"

definition duration_limit :: nat where
  "duration_limit = 2 ^ 64 * 10 ^ 9"

definition instant_checked_add :: "instant \<Rightarrow> duration \<Rightarrow> instant option" where
  "instant_checked_add t d = (if t + d < instant_limit then Some (t + d) else None)"

definition checked_duration_since :: "instant \<Rightarrow> instant \<Rightarrow> duration option" where
  "checked_duration_since later earlier =
     (if earlier \<le> later then Some (later - earlier) else None)"

definition duration_from_millis :: "u64 \<Rightarrow> duration" where
  "duration_from_millis ms = unat ms * 10 ^ 6"

definition duration_from_secs :: "nat \<Rightarrow> duration" where
  "duration_from_secs s = s * 10 ^ 9"

definition as_millis :: "duration \<Rightarrow> nat" where
  "as_millis d = d div 10 ^ 6"

definition u64_try_from :: "nat \<Rightarrow> u64 option" where
  "u64_try_from n = (if n < 2 ^ 64 then Some (of_nat n) else None)"

lemma u64_try_from_Some: "u64_try_from n = Some w \<Longrightarrow> unat w = n"
  by (auto simp: u64_try_from_def unat_of_nat split: if_splits)

lemma as_millis_from_millis: "as_millis (duration_from_millis ms) = unat ms"
  by (simp add: as_millis_def duration_from_millis_def)

section \<open>Decimal numbers\<close>

definition digit_char :: "nat \<Rightarrow> char" where
  "digit_char d = char_of (48 + d)"

fun decimal :: "nat \<Rightarrow> string" where
  "decimal n =
     (if n < 10 then [digit_char n] else decimal (n div 10) @ [digit_char (n mod 10)])"

declare decimal.simps [simp del]

text \<open>
  \<open>str::parse::<u64>\<close>: an optional plus sign and at least one digit, nothing else, and a value
  that fits. The accumulator is a natural number; the code multiplies and adds with overflow
  checks at each digit, which fail exactly when the value of the digits read so far does not fit.
\<close>

fun parse_digits :: "nat \<Rightarrow> string \<Rightarrow> nat option" where
  "parse_digits acc [] = Some acc"
| "parse_digits acc (c # cs) =
     (if is_ascii_digit c then
        let acc' = acc * 10 + (byte c - 48) in
        if acc' < 2 ^ 64 then parse_digits acc' cs else None
      else None)"

definition parse_u64 :: "string \<Rightarrow> u64 option" where
  "parse_u64 s =
     (let digits = (case s of c # cs \<Rightarrow> if c = CHR ''+'' then cs else s | [] \<Rightarrow> s) in
      if digits = [] then None else map_option of_nat (parse_digits 0 digits))"

lemma byte_digit_char: "d < 10 \<Longrightarrow> byte (digit_char d) = 48 + d"
  by (simp add: byte_def digit_char_def)

lemma digit_char_digit: "d < 10 \<Longrightarrow> is_ascii_digit (digit_char d)"
  by (simp add: is_ascii_digit_def byte_digit_char)

lemma decimal_digits: "c \<in> set (decimal n) \<Longrightarrow> is_ascii_digit c"
proof (induction n arbitrary: c rule: decimal.induct)
  case (1 n)
  then show ?case
    by (cases "n < 10") (auto simp: decimal.simps [of n] digit_char_digit)
qed

lemma decimal_neq_Nil [simp]: "decimal n \<noteq> []"
  by (simp add: decimal.simps [of n])

lemma parse_digits_append:
  "parse_digits acc (xs @ ys) = Option.bind (parse_digits acc xs) (\<lambda>a. parse_digits a ys)"
  by (induction acc xs rule: parse_digits.induct) (auto simp: Let_def)

lemma parse_digits_decimal: "n < 2 ^ 64 \<Longrightarrow> parse_digits 0 (decimal n) = Some n"
proof (induction n rule: decimal.induct)
  case (1 n)
  then show ?case
    by (cases "n < 10")
      (auto simp: decimal.simps [of n] parse_digits_append digit_char_digit byte_digit_char)
qed

lemma parse_u64_decimal: "parse_u64 (decimal (unat w)) = Some w"
proof -
  obtain c cs where d: "decimal (unat w) = c # cs"
    by (cases "decimal (unat w)") auto
  then have "c \<noteq> CHR ''+''"
    using decimal_digits [of c "unat w"] by (auto simp: is_ascii_digit_def byte_def)
  with d show ?thesis
    using parse_digits_decimal [OF unat_u64_bound [of w]] by (simp add: parse_u64_def)
qed

lemma decimal_inj: "decimal m = decimal n \<Longrightarrow> m < 2 ^ 64 \<Longrightarrow> n < 2 ^ 64 \<Longrightarrow> m = n"
  using parse_digits_decimal by (metis option.inject)

section \<open>First observation wins\<close>

text \<open>
  The contract of a value that is set once: the first offer wins, every later one is refused and
  changes nothing.
\<close>

locale first_wins =
  fixes invar :: "'s \<Rightarrow> bool"
    and winner :: "'s \<Rightarrow> 'v option"
    and offer :: "'s \<Rightarrow> 'v \<Rightarrow> bool \<times> 's"
  assumes open_accepts:
      "invar s \<Longrightarrow> winner s = None \<Longrightarrow>
       fst (offer s v) \<and> invar (snd (offer s v)) \<and> winner (snd (offer s v)) = Some v"
    and decided_refuses: "invar s \<Longrightarrow> winner s = Some w \<Longrightarrow> offer s v = (False, s)"
begin

fun offers :: "'s \<Rightarrow> 'v list \<Rightarrow> bool list \<times> 's" where
  "offers s [] = ([], s)"
| "offers s (v # vs) =
     (let (accepted, s') = offer s v; (rest, s'') = offers s' vs in (accepted # rest, s''))"

lemma decided_is_final:
  "invar s \<Longrightarrow> winner s = Some w \<Longrightarrow> offers s vs = (map (\<lambda>_. False) vs, s)"
  by (induction vs) (simp_all add: decided_refuses)

lemma first_offer_wins:
  assumes "invar s" "winner s = None"
  shows "fst (offers s (v # vs)) = True # map (\<lambda>_. False) vs"
    and "winner (snd (offers s (v # vs))) = Some v"
proof -
  obtain s' where s': "offer s v = (True, s')" "invar s'" "winner s' = Some v"
    using open_accepts [OF assms, of v] by (cases "offer s v") auto
  with decided_is_final [OF s'(2,3)] show "fst (offers s (v # vs)) = True # map (\<lambda>_. False) vs"
    and "winner (snd (offers s (v # vs))) = Some v"
    by simp_all
qed

end

end
