(* ===== verification/Policy.thy ===== *)
theory Policy
  imports Prelude Complex_Main
begin

text \<open>
  Resource and output policies: \<open>core/src/policy/mod.rs\<close>, the capture limits of
  \<open>core/src/output.rs\<close>, the cgroup limit structures of \<open>linux-runtime/src/cgroup/limits.rs\<close>,
  the daemon's budget wrapper \<open>daemon/src/resource_budget.rs\<close>, the wire limits with their
  mapping (\<open>protocol.rs\<close>, \<open>local_uds/mapper.rs\<close>) and \<open>daemon/src/deployment_policy.rs\<close>.
  The lemmas characterise what the constructors accept, show that the CPU comparison is the
  comparison of two exact ratios, and that admission below a maximum is a preorder.
\<close>

section \<open>Model\<close>

definition MAX_OUTPUT_TAIL_BYTES :: u32 where
  "MAX_OUTPUT_TAIL_BYTES = 65536"

definition MAX_TOTAL_OUTPUT_BYTES :: u32 where
  "MAX_TOTAL_OUTPUT_BYTES = 131072"

record cpu_policy =
  cp_quota_micros :: u64
  cp_period_micros :: u64

record resource_policy =
  rp_cpu :: cpu_policy
  rp_memory_max_bytes :: u64
  rp_pids_max :: u64
  rp_wall_time_limit_ms :: u64

record output_policy =
  op_stdout_tail_max_bytes :: usize
  op_stderr_tail_max_bytes :: usize

record resource_budget =
  rb_resources :: resource_policy
  rb_output :: output_policy

record capture_limits =
  cl_stdout_tail_max_bytes :: usize
  cl_stderr_tail_max_bytes :: usize

datatype policy_error =
    Zero string
  | OutputTailTooLarge string u32 u32
  | OutputTotalOverflow u32 u32
  | OutputTotalTooLarge u32 u32
  | NotRepresentable string u64

datatype resource_maximum_violation =
    CpuViolation u64 u64 u64 u64
  | LimitViolation string u64 u64

definition nonzero_u64 :: "string \<Rightarrow> u64 \<Rightarrow> policy_error + u64" where
  "nonzero_u64 field v = (if v = 0 then Err (Zero field) else Ok v)"

definition require_output_nonzero :: "string \<Rightarrow> u32 \<Rightarrow> policy_error + unit" where
  "require_output_nonzero field v = (if v = 0 then Err (Zero field) else Ok ())"

text \<open>\<open>T::try_from(u32)\<close> for an unsigned type \<open>T\<close>: the width of \<open>'a\<close> is that of \<open>T\<close>.\<close>

definition checked_output_size :: "string \<Rightarrow> u32 \<Rightarrow> policy_error + 'a::len word" where
  "checked_output_size field v =
     (if unat v < 2 ^ LENGTH('a) then Ok (ucast v) else Err (NotRepresentable field (ucast v)))"

definition output_tail_bytes :: "string \<Rightarrow> u32 \<Rightarrow> policy_error + usize" where
  "output_tail_bytes field v =
     (if MAX_OUTPUT_TAIL_BYTES < v then Err (OutputTailTooLarge field v MAX_OUTPUT_TAIL_BYTES)
      else and_then (checked_output_size field v) (\<lambda>size.
        if size = 0 then Err (Zero field) else Ok size))"

definition cpu_policy_try_new :: "u64 \<Rightarrow> u64 \<Rightarrow> policy_error + cpu_policy" where
  "cpu_policy_try_new quota period =
     and_then (nonzero_u64 ''limits.cpuMax.quotaMicros'' quota) (\<lambda>q.
     and_then (nonzero_u64 ''limits.cpuMax.periodMicros'' period) (\<lambda>p.
     Ok \<lparr>cp_quota_micros = q, cp_period_micros = p\<rparr>))"

definition resource_policy_try_new ::
  "u64 \<Rightarrow> u64 \<Rightarrow> u64 \<Rightarrow> u64 \<Rightarrow> u64 \<Rightarrow> policy_error + resource_policy" where
  "resource_policy_try_new quota period memory pids wall =
     and_then (cpu_policy_try_new quota period) (\<lambda>cpu.
     and_then (nonzero_u64 ''limits.memoryMaxBytes'' memory) (\<lambda>m.
     and_then (nonzero_u64 ''limits.pidsMax'' pids) (\<lambda>p.
     and_then (nonzero_u64 ''limits.wallTimeLimitMs'' wall) (\<lambda>w.
     Ok \<lparr>rp_cpu = cpu, rp_memory_max_bytes = m, rp_pids_max = p, rp_wall_time_limit_ms = w\<rparr>))))"

definition output_policy_try_new :: "u32 \<Rightarrow> u32 \<Rightarrow> policy_error + output_policy" where
  "output_policy_try_new out err =
     and_then (require_output_nonzero ''output.stdoutTailMaxBytes'' out) (\<lambda>_.
     and_then (require_output_nonzero ''output.stderrTailMaxBytes'' err) (\<lambda>_.
     and_then (ok_or (OutputTotalOverflow out err) (checked_add out err)) (\<lambda>total.
     if MAX_TOTAL_OUTPUT_BYTES < total then Err (OutputTotalTooLarge total MAX_TOTAL_OUTPUT_BYTES)
     else
     and_then (output_tail_bytes ''output.stdoutTailMaxBytes'' out) (\<lambda>o'.
     and_then (output_tail_bytes ''output.stderrTailMaxBytes'' err) (\<lambda>e'.
     Ok \<lparr>op_stdout_tail_max_bytes = o', op_stderr_tail_max_bytes = e'\<rparr>)))))"

definition resource_wall_timeout :: "resource_policy \<Rightarrow> duration" where
  "resource_wall_timeout p = duration_from_millis (rp_wall_time_limit_ms p)"

definition output_capture_limits :: "output_policy \<Rightarrow> capture_limits" where
  "output_capture_limits p =
     \<lparr>cl_stdout_tail_max_bytes = op_stdout_tail_max_bytes p,
      cl_stderr_tail_max_bytes = op_stderr_tail_max_bytes p\<rparr>"

definition require_within_maximum ::
  "string \<Rightarrow> u64 \<Rightarrow> u64 \<Rightarrow> resource_maximum_violation + unit" where
  "require_within_maximum field actual maximum =
     (if actual \<le> maximum then Ok () else Err (LimitViolation field actual maximum))"

definition validate_within_maximum ::
  "resource_budget \<Rightarrow> resource_budget \<Rightarrow> resource_maximum_violation + unit" where
  "validate_within_maximum self maximum_budget =
     (let actual = rb_resources self; maximum = rb_resources maximum_budget;
          ac = rp_cpu actual; mc = rp_cpu maximum
      in if (ucast (cp_quota_micros mc) :: u128) * ucast (cp_period_micros ac)
            < (ucast (cp_quota_micros ac) :: u128) * ucast (cp_period_micros mc)
         then Err (CpuViolation (cp_quota_micros ac) (cp_period_micros ac)
                     (cp_quota_micros mc) (cp_period_micros mc))
         else
         and_then (require_within_maximum ''limits.memoryMaxBytes''
                     (rp_memory_max_bytes actual) (rp_memory_max_bytes maximum)) (\<lambda>_.
         and_then (require_within_maximum ''limits.pidsMax''
                     (rp_pids_max actual) (rp_pids_max maximum)) (\<lambda>_.
         and_then (require_within_maximum ''limits.wallTimeLimitMs''
                     (rp_wall_time_limit_ms actual) (rp_wall_time_limit_ms maximum)) (\<lambda>_.
         and_then (require_within_maximum ''output.stdoutTailMaxBytes''
                     (op_stdout_tail_max_bytes (rb_output self))
                     (op_stdout_tail_max_bytes (rb_output maximum_budget))) (\<lambda>_.
         and_then (require_within_maximum ''output.stderrTailMaxBytes''
                     (op_stderr_tail_max_bytes (rb_output self))
                     (op_stderr_tail_max_bytes (rb_output maximum_budget))) (\<lambda>_.
         Ok ()))))))"

subsection \<open>The daemon's budget and the cgroup limits\<close>

definition resource_budget_try_new ::
  "u64 \<Rightarrow> u64 \<Rightarrow> u64 \<Rightarrow> u64 \<Rightarrow> u64 \<Rightarrow> u32 \<Rightarrow> u32 \<Rightarrow> policy_error + resource_budget" where
  "resource_budget_try_new quota period memory pids wall out err =
     and_then (resource_policy_try_new quota period memory pids wall) (\<lambda>r.
     and_then (output_policy_try_new out err) (\<lambda>o'.
     Ok \<lparr>rb_resources = r, rb_output = o'\<rparr>))"

record cpu_limit =
  cpu_quota_micros :: u64
  cpu_period_micros :: u64

record cgroup_limits =
  cg_memory_max_bytes :: u64
  cg_max_processes :: u64
  cg_cpu :: cpu_limit

text \<open>
  \<open>VerifiedCgroupLimits\<close> wraps the limits that were read back; \<open>VerifiedEffectiveLimits\<close> is
  the policy reported for a running task.
\<close>

datatype verified_cgroup_limits = VerifiedCgroupLimits (verified_limits: cgroup_limits)

datatype effective_limits = VerifiedEffectiveLimits (effective_resources: resource_policy)

definition budget_cgroup_limits :: "resource_budget \<Rightarrow> cgroup_limits" where
  "budget_cgroup_limits b =
     (let r = rb_resources b
      in \<lparr>cg_memory_max_bytes = rp_memory_max_bytes r, cg_max_processes = rp_pids_max r,
          cg_cpu = \<lparr>cpu_quota_micros = cp_quota_micros (rp_cpu r),
                    cpu_period_micros = cp_period_micros (rp_cpu r)\<rparr>\<rparr>)"

text \<open>The \<open>expect\<close> after \<open>try_new\<close> is a panic: \<open>None\<close>.\<close>

definition verified_effective_limits ::
  "resource_budget \<Rightarrow> verified_cgroup_limits \<Rightarrow> effective_limits option" where
  "verified_effective_limits b verified =
     (let applied = verified_limits verified; requested = rb_resources b
      in case resource_policy_try_new (cpu_quota_micros (cg_cpu applied))
                (cpu_period_micros (cg_cpu applied)) (cg_memory_max_bytes applied)
                (cg_max_processes applied) (rp_wall_time_limit_ms requested) of
           Inl _ \<Rightarrow> None
         | Inr r \<Rightarrow> Some (VerifiedEffectiveLimits r))"

subsection \<open>Wire limits and the deployment policy\<close>

record wire_cpu_max =
  wc_quota_micros :: u64
  wc_period_micros :: u64

record wire_resource_limits =
  wl_cpu_max :: wire_cpu_max
  wl_memory_max_bytes :: u64
  wl_pids_max :: u64
  wl_wall_time_limit_ms :: u64

record wire_output_limits =
  wo_stdout_tail_max_bytes :: u32
  wo_stderr_tail_max_bytes :: u32

definition resource_budget_from_wire ::
  "wire_resource_limits \<Rightarrow> wire_output_limits \<Rightarrow> policy_error + resource_budget" where
  "resource_budget_from_wire limits output =
     resource_budget_try_new (wc_quota_micros (wl_cpu_max limits))
       (wc_period_micros (wl_cpu_max limits)) (wl_memory_max_bytes limits)
       (wl_pids_max limits) (wl_wall_time_limit_ms limits)
       (wo_stdout_tail_max_bytes output) (wo_stderr_tail_max_bytes output)"

definition wire_resource_policy :: "resource_policy \<Rightarrow> wire_resource_limits" where
  "wire_resource_policy p =
     \<lparr>wl_cpu_max = \<lparr>wc_quota_micros = cp_quota_micros (rp_cpu p),
                    wc_period_micros = cp_period_micros (rp_cpu p)\<rparr>,
      wl_memory_max_bytes = rp_memory_max_bytes p, wl_pids_max = rp_pids_max p,
      wl_wall_time_limit_ms = rp_wall_time_limit_ms p\<rparr>"

definition wire_output :: "resource_budget \<Rightarrow> wire_output_limits" where
  "wire_output b =
     \<lparr>wo_stdout_tail_max_bytes = ucast (op_stdout_tail_max_bytes (rb_output b)),
      wo_stderr_tail_max_bytes = ucast (op_stderr_tail_max_bytes (rb_output b))\<rparr>"

definition verified_resource_limits :: "effective_limits \<Rightarrow> wire_resource_limits" where
  "verified_resource_limits v = wire_resource_policy (effective_resources v)"

datatype deployment_resource_policy = DeploymentResourcePolicy (deployment_maximum: resource_budget)

definition deployment_policy_try_new ::
  "wire_resource_limits \<Rightarrow> wire_output_limits \<Rightarrow> policy_error + deployment_resource_policy" where
  "deployment_policy_try_new limits output =
     and_then (resource_budget_from_wire limits output) (\<lambda>m. Ok (DeploymentResourcePolicy m))"

definition deployment_validate ::
  "deployment_resource_policy \<Rightarrow> resource_budget \<Rightarrow> resource_maximum_violation + unit" where
  "deployment_validate p requested = validate_within_maximum requested (deployment_maximum p)"

section \<open>What the constructors accept\<close>

text \<open>The invariant of the policy types: the \<open>NonZero\<close> fields and the documented output bounds.\<close>

definition valid_resource_policy :: "resource_policy \<Rightarrow> bool" where
  "valid_resource_policy r \<longleftrightarrow>
     cp_quota_micros (rp_cpu r) \<noteq> 0 \<and> cp_period_micros (rp_cpu r) \<noteq> 0 \<and>
     rp_memory_max_bytes r \<noteq> 0 \<and> rp_pids_max r \<noteq> 0 \<and> rp_wall_time_limit_ms r \<noteq> 0"

definition valid_output_policy :: "output_policy \<Rightarrow> bool" where
  "valid_output_policy p \<longleftrightarrow>
     1 \<le> unat (op_stdout_tail_max_bytes p) \<and> unat (op_stdout_tail_max_bytes p) \<le> 65536 \<and>
     1 \<le> unat (op_stderr_tail_max_bytes p) \<and> unat (op_stderr_tail_max_bytes p) \<le> 65536"

definition valid_budget :: "resource_budget \<Rightarrow> bool" where
  "valid_budget b \<longleftrightarrow> valid_resource_policy (rb_resources b) \<and> valid_output_policy (rb_output b)"

lemma unat_ucast_u32_u64 [simp]: "unat (ucast (v :: u32) :: u64) = unat v"
proof -
  have "unat v < 2 ^ 64"
    using unsigned_less [of v, where ?'a = nat] by simp
  then show ?thesis
    by (simp add: unsigned_ucast_eq take_bit_nat_eq_self)
qed

lemma ucast_u32_u64_eq_0 [simp]: "(ucast (v :: u32) :: u64) = 0 \<longleftrightarrow> v = 0"
  by (metis unat_eq_zero unat_ucast_u32_u64)

lemma ucast_u64_u32_back [simp]: "ucast (ucast (v :: u32) :: u64) = v"
  by (simp add: unsigned_ucast_eq take_bit_word_eq_self)

lemma nonzero_u64_Ok [result_simps]: "nonzero_u64 f v = Inr w \<longleftrightarrow> v \<noteq> 0 \<and> w = v"
  by (auto simp: nonzero_u64_def)

lemma resource_policy_try_new_Ok:
  "resource_policy_try_new q p m n w = Inr r \<longleftrightarrow>
     q \<noteq> 0 \<and> p \<noteq> 0 \<and> m \<noteq> 0 \<and> n \<noteq> 0 \<and> w \<noteq> 0 \<and>
     r = \<lparr>rp_cpu = \<lparr>cp_quota_micros = q, cp_period_micros = p\<rparr>, rp_memory_max_bytes = m,
          rp_pids_max = n, rp_wall_time_limit_ms = w\<rparr>"
  by (auto simp: resource_policy_try_new_def cpu_policy_try_new_def result_simps)

lemma output_tail_bytes_Ok [result_simps]:
  "output_tail_bytes f v = Inr s \<longleftrightarrow> v \<noteq> 0 \<and> unat v \<le> 65536 \<and> s = ucast v"
proof -
  have "unat v < 2 ^ 64"
    using unsigned_less [of v, where ?'a = nat] by simp
  then have "(checked_output_size f v :: policy_error + usize) = Inr (ucast v)"
    by (simp add: checked_output_size_def)
  then show ?thesis
    by (auto simp: output_tail_bytes_def MAX_OUTPUT_TAIL_BYTES_def word_less_nat_alt)
qed

lemma output_policy_try_new_Ok:
  "output_policy_try_new a b = Inr p \<longleftrightarrow>
     a \<noteq> 0 \<and> unat a \<le> 65536 \<and> b \<noteq> 0 \<and> unat b \<le> 65536 \<and>
     p = \<lparr>op_stdout_tail_max_bytes = ucast a, op_stderr_tail_max_bytes = ucast b\<rparr>" (is "?l \<longleftrightarrow> ?r")
proof
  assume ?l
  then show ?r
    by (auto simp: output_policy_try_new_def require_output_nonzero_def result_simps
        split: if_splits)
next
  assume r: ?r
  then have sum: "unat a + unat b < 2 ^ 32" "unat a + unat b \<le> 131072"
    by auto
  then have "unat (a + b) = unat a + unat b"
    by (simp add: unat_word_ariths)
  with sum have "\<not> MAX_TOTAL_OUTPUT_BYTES < a + b"
    by (simp add: MAX_TOTAL_OUTPUT_BYTES_def word_less_nat_alt)
  with r sum show ?l
    by (simp add: output_policy_try_new_def require_output_nonzero_def checked_add_def result_simps)
qed

lemma resource_budget_try_new_Ok:
  "resource_budget_try_new q p m n w a b = Inr r \<longleftrightarrow>
     q \<noteq> 0 \<and> p \<noteq> 0 \<and> m \<noteq> 0 \<and> n \<noteq> 0 \<and> w \<noteq> 0 \<and>
     a \<noteq> 0 \<and> unat a \<le> 65536 \<and> b \<noteq> 0 \<and> unat b \<le> 65536 \<and>
     r = \<lparr>rb_resources = \<lparr>rp_cpu = \<lparr>cp_quota_micros = q, cp_period_micros = p\<rparr>,
            rp_memory_max_bytes = m, rp_pids_max = n, rp_wall_time_limit_ms = w\<rparr>,
          rb_output = \<lparr>op_stdout_tail_max_bytes = ucast a, op_stderr_tail_max_bytes = ucast b\<rparr>\<rparr>"
  by (auto simp: resource_budget_try_new_def resource_policy_try_new_Ok output_policy_try_new_Ok
      result_simps)

lemma resource_budget_try_new_valid:
  "resource_budget_try_new q p m n w a b = Inr r \<Longrightarrow> valid_budget r"
  by (auto simp: resource_budget_try_new_Ok valid_budget_def valid_resource_policy_def
      valid_output_policy_def unat_gt_0 Suc_le_eq)

section \<open>The order of budgets\<close>

text \<open>The reference comparison: CPU shares as rational numbers, every other field as a number.\<close>

definition cpu_share :: "cpu_policy \<Rightarrow> rat" where
  "cpu_share c = of_nat (unat (cp_quota_micros c)) / of_nat (unat (cp_period_micros c))"

definition budget_le :: "resource_budget \<Rightarrow> resource_budget \<Rightarrow> bool" where
  "budget_le a m \<longleftrightarrow>
     cpu_share (rp_cpu (rb_resources a)) \<le> cpu_share (rp_cpu (rb_resources m)) \<and>
     unat (rp_memory_max_bytes (rb_resources a)) \<le> unat (rp_memory_max_bytes (rb_resources m)) \<and>
     unat (rp_pids_max (rb_resources a)) \<le> unat (rp_pids_max (rb_resources m)) \<and>
     unat (rp_wall_time_limit_ms (rb_resources a)) \<le> unat (rp_wall_time_limit_ms (rb_resources m)) \<and>
     unat (op_stdout_tail_max_bytes (rb_output a)) \<le> unat (op_stdout_tail_max_bytes (rb_output m)) \<and>
     unat (op_stderr_tail_max_bytes (rb_output a)) \<le> unat (op_stderr_tail_max_bytes (rb_output m))"

lemma u128_product_less:
  "(ucast (a :: u64) :: u128) * ucast (b :: u64) < ucast (c :: u64) * ucast (d :: u64)
     \<longleftrightarrow> unat a * unat b < unat c * unat d"
  by (simp add: word_less_nat_alt unat_u128_product)

lemma ratio_le_iff:
  fixes a b c d :: nat
  assumes "0 < b" "0 < d"
  shows "(of_nat a / of_nat b :: rat) \<le> of_nat c / of_nat d \<longleftrightarrow> a * d \<le> c * b"
proof -
  have "(of_nat a / of_nat b :: rat) \<le> of_nat c / of_nat d \<longleftrightarrow>
      (of_nat a * of_nat d :: rat) \<le> of_nat c * of_nat b"
    using assms by (simp add: divide_le_eq pos_le_divide_eq field_simps)
  then show ?thesis
    by (simp flip: of_nat_mult)
qed

lemma cpu_share_le_iff:
  assumes "cp_period_micros a \<noteq> 0" "cp_period_micros m \<noteq> 0"
  shows "cpu_share a \<le> cpu_share m \<longleftrightarrow>
    unat (cp_quota_micros a) * unat (cp_period_micros m)
      \<le> unat (cp_quota_micros m) * unat (cp_period_micros a)"
  unfolding cpu_share_def
  by (rule ratio_le_iff) (use assms in \<open>simp_all add: unat_gt_0\<close>)

lemma require_within_maximum_Ok [result_simps]:
  "require_within_maximum f a m = Inr u \<longleftrightarrow> unat a \<le> unat m"
  by (auto simp: require_within_maximum_def word_le_nat_alt)

lemma validate_within_maximum_iff:
  assumes "valid_budget a" "valid_budget m"
  shows "validate_within_maximum a m = Inr () \<longleftrightarrow> budget_le a m"
proof -
  have nz: "cp_period_micros (rp_cpu (rb_resources a)) \<noteq> 0"
      "cp_period_micros (rp_cpu (rb_resources m)) \<noteq> 0"
    using assms by (auto simp: valid_budget_def valid_resource_policy_def)
  show ?thesis
    by (auto simp: validate_within_maximum_def Let_def budget_le_def result_simps
        u128_product_less cpu_share_le_iff [OF nz] not_less split: if_splits)
qed

lemma budget_le_refl: "budget_le b b"
  by (simp add: budget_le_def)

lemma budget_le_trans: "budget_le a b \<Longrightarrow> budget_le b c \<Longrightarrow> budget_le a c"
  by (auto simp: budget_le_def)

text \<open>
  The contract of an admission check: a preorder on the budgets that satisfy the invariant.
  A request admitted below a chain of maxima is admitted below the outermost one.
\<close>

locale admission =
  fixes admits :: "'b \<Rightarrow> 'b \<Rightarrow> bool" and valid :: "'b \<Rightarrow> bool"
  assumes admits_refl: "valid b \<Longrightarrow> admits b b"
    and admits_trans:
      "valid a \<Longrightarrow> valid b \<Longrightarrow> valid c \<Longrightarrow> admits a b \<Longrightarrow> admits b c \<Longrightarrow> admits a c"
begin

lemma admits_chain:
  assumes "valid request" and "list_all valid maxima"
    and "successively admits (request # maxima)" and "m \<in> set maxima"
  shows "admits request m"
  using assms
proof (induction maxima arbitrary: request)
  case Nil
  then show ?case by simp
next
  case (Cons x xs)
  from Cons.prems have x: "valid x" "admits request x" "successively admits (x # xs)"
      "list_all valid xs"
    by (auto simp: successively_Cons)
  show ?case
  proof (cases "m = x")
    case True
    with x show ?thesis by simp
  next
    case False
    with Cons.prems(4) have "m \<in> set xs" by simp
    with x Cons.IH [of x] have "admits x m" by blast
    moreover from \<open>m \<in> set xs\<close> x(4) have "valid m"
      by (simp add: list_all_iff)
    ultimately show ?thesis
      using admits_trans [OF Cons.prems(1) x(1)] x(2) by blast
  qed
qed

end

interpretation budget_admission:
  admission "\<lambda>a m. validate_within_maximum a m = Inr ()" valid_budget
  by unfold_locales
    (use validate_within_maximum_iff budget_le_refl budget_le_trans in \<open>blast+\<close>)

lemma verified_effective_limits_total:
  assumes "valid_budget b"
  shows "verified_effective_limits b (VerifiedCgroupLimits (budget_cgroup_limits b))
    = Some (VerifiedEffectiveLimits (rb_resources b))"
proof -
  obtain r where r: "resource_policy_try_new (cp_quota_micros (rp_cpu (rb_resources b)))
      (cp_period_micros (rp_cpu (rb_resources b))) (rp_memory_max_bytes (rb_resources b))
      (rp_pids_max (rb_resources b)) (rp_wall_time_limit_ms (rb_resources b)) = Inr r"
      "r = rb_resources b"
    using assms
    by (auto simp: resource_policy_try_new_Ok valid_budget_def valid_resource_policy_def)
  then show ?thesis
    by (simp add: verified_effective_limits_def budget_cgroup_limits_def Let_def)
qed

section \<open>Properties\<close>

text \<open>A wire budget is accepted exactly when every limit is positive and each output tail is
  at most 65536 bytes (the sum bound of 131072 and the overflow check never reject more than
  that); an accepted budget satisfies the invariant and maps back to the very limits sent.\<close>

theorem wire_budget_roundtrip:
  "((\<exists>b. resource_budget_from_wire l out = Inr b) \<longleftrightarrow>
     wc_quota_micros (wl_cpu_max l) \<noteq> 0 \<and> wc_period_micros (wl_cpu_max l) \<noteq> 0 \<and>
     wl_memory_max_bytes l \<noteq> 0 \<and> wl_pids_max l \<noteq> 0 \<and> wl_wall_time_limit_ms l \<noteq> 0 \<and>
     wo_stdout_tail_max_bytes out \<noteq> 0 \<and> unat (wo_stdout_tail_max_bytes out) \<le> 65536 \<and>
     wo_stderr_tail_max_bytes out \<noteq> 0 \<and> unat (wo_stderr_tail_max_bytes out) \<le> 65536) \<and>
   (\<forall>b. resource_budget_from_wire l out = Inr b \<longrightarrow>
      valid_budget b \<and> wire_resource_policy (rb_resources b) = l \<and> wire_output b = out)"
proof -
  have "valid_budget b \<and> wire_resource_policy (rb_resources b) = l \<and> wire_output b = out"
    if "resource_budget_from_wire l out = Inr b" for b
    using that
    by (auto simp: resource_budget_from_wire_def resource_budget_try_new_Ok wire_output_def
        wire_resource_policy_def valid_budget_def valid_resource_policy_def
        valid_output_policy_def unat_gt_0 Suc_le_eq)
  then show ?thesis
    by (auto simp: resource_budget_from_wire_def resource_budget_try_new_Ok)
qed

theorem wire_budget_roundtrip_witness:
  "\<exists>b. resource_budget_from_wire
     \<lparr>wl_cpu_max = \<lparr>wc_quota_micros = 200000, wc_period_micros = 100000\<rparr>,
      wl_memory_max_bytes = 2147483648, wl_pids_max = 128, wl_wall_time_limit_ms = 900000\<rparr>
     \<lparr>wo_stdout_tail_max_bytes = 65536, wo_stderr_tail_max_bytes = 65536\<rparr> = Inr b \<and>
     wl_pids_max (wire_resource_policy (rb_resources b)) = 128"
proof -
  let ?l = "\<lparr>wl_cpu_max = \<lparr>wc_quota_micros = 200000, wc_period_micros = 100000\<rparr>,
      wl_memory_max_bytes = 2147483648, wl_pids_max = 128, wl_wall_time_limit_ms = 900000\<rparr>
      :: wire_resource_limits"
  let ?o = "\<lparr>wo_stdout_tail_max_bytes = 65536, wo_stderr_tail_max_bytes = 65536\<rparr>
      :: wire_output_limits"
  obtain b where b: "resource_budget_from_wire ?l ?o = Inr b"
    using wire_budget_roundtrip [of ?l ?o] by auto
  then have "wire_resource_policy (rb_resources b) = ?l"
    using wire_budget_roundtrip [of ?l ?o] by blast
  with b show ?thesis by auto
qed

text \<open>C30: the deployment policy admits a request exactly when its CPU share, as an exact rational
  number, and each other limit is at most the deployment's: the \<open>u128\<close> products never wrap.\<close>

theorem deployment_admits_exact_ratio:
  assumes p: "deployment_policy_try_new ml mo = Inr p"
    and b: "resource_budget_from_wire l out = Inr b"
  shows "deployment_validate p b = Inr () \<longleftrightarrow>
    (of_nat (unat (wc_quota_micros (wl_cpu_max l))) / of_nat (unat (wc_period_micros (wl_cpu_max l)))
       :: rat)
      \<le> of_nat (unat (wc_quota_micros (wl_cpu_max ml)))
         / of_nat (unat (wc_period_micros (wl_cpu_max ml))) \<and>
    unat (wl_memory_max_bytes l) \<le> unat (wl_memory_max_bytes ml) \<and>
    unat (wl_pids_max l) \<le> unat (wl_pids_max ml) \<and>
    unat (wl_wall_time_limit_ms l) \<le> unat (wl_wall_time_limit_ms ml) \<and>
    unat (wo_stdout_tail_max_bytes out) \<le> unat (wo_stdout_tail_max_bytes mo) \<and>
    unat (wo_stderr_tail_max_bytes out) \<le> unat (wo_stderr_tail_max_bytes mo)"
proof -
  obtain m where m: "resource_budget_from_wire ml mo = Inr m" "p = DeploymentResourcePolicy m"
    using p by (auto simp: deployment_policy_try_new_def result_simps)
  have "valid_budget b" "valid_budget m"
    using b m by (auto simp: resource_budget_from_wire_def dest: resource_budget_try_new_valid)
  then have "deployment_validate p b = Inr () \<longleftrightarrow> budget_le b m"
    using m by (simp add: deployment_validate_def validate_within_maximum_iff)
  then show ?thesis
    using b m(1)
    by (auto simp: resource_budget_from_wire_def resource_budget_try_new_Ok budget_le_def
        cpu_share_def)
qed

theorem deployment_admits_exact_ratio_witness:
  "\<exists>p b. deployment_policy_try_new
      \<lparr>wl_cpu_max = \<lparr>wc_quota_micros = 200000, wc_period_micros = 100000\<rparr>,
       wl_memory_max_bytes = 1, wl_pids_max = 1, wl_wall_time_limit_ms = 1\<rparr>
      \<lparr>wo_stdout_tail_max_bytes = 1, wo_stderr_tail_max_bytes = 1\<rparr> = Inr p \<and>
    resource_budget_from_wire
      \<lparr>wl_cpu_max = \<lparr>wc_quota_micros = 400001, wc_period_micros = 200000\<rparr>,
       wl_memory_max_bytes = 1, wl_pids_max = 1, wl_wall_time_limit_ms = 1\<rparr>
      \<lparr>wo_stdout_tail_max_bytes = 1, wo_stderr_tail_max_bytes = 1\<rparr> = Inr b \<and>
    deployment_validate p b \<noteq> Inr ()"
proof -
  let ?ml = "\<lparr>wl_cpu_max = \<lparr>wc_quota_micros = 200000, wc_period_micros = 100000\<rparr>,
       wl_memory_max_bytes = 1, wl_pids_max = 1, wl_wall_time_limit_ms = 1\<rparr>
       :: wire_resource_limits"
  let ?l = "\<lparr>wl_cpu_max = \<lparr>wc_quota_micros = 400001, wc_period_micros = 200000\<rparr>,
       wl_memory_max_bytes = 1, wl_pids_max = 1, wl_wall_time_limit_ms = 1\<rparr>
       :: wire_resource_limits"
  let ?o = "\<lparr>wo_stdout_tail_max_bytes = 1, wo_stderr_tail_max_bytes = 1\<rparr> :: wire_output_limits"
  obtain b where b: "resource_budget_from_wire ?l ?o = Inr b"
    by (simp add: resource_budget_from_wire_def resource_budget_try_new_Ok)
  obtain p where p: "deployment_policy_try_new ?ml ?o = Inr p"
    by (simp add: deployment_policy_try_new_def resource_budget_from_wire_def
        resource_budget_try_new_Ok result_simps)
  have "deployment_validate p b \<noteq> Inr ()"
    using deployment_admits_exact_ratio [OF p b] by simp
  with b p show ?thesis by blast
qed

end
