(* ===== verification/Artifact.thy ===== *)
theory Artifact
  imports Prelude
begin

unbundle bit_operations_syntax

text \<open>
  Artifact identity: \<open>core/src/artifact/digest.rs\<close> (the textual SHA-256 identity and its
  parser) and \<open>core/src/artifact/mod.rs\<close> (artifact paths, descriptors, declared outputs and
  published artifacts). The lemmas show that the textual form and the bytes determine each
  other, and that an accepted path stays below the artifact root.
\<close>

section \<open>Digests\<close>

datatype sha256_digest = Sha256Digest (digest_bytes: "u8 list")

text \<open>The array \<open>[u8; 32]\<close>.\<close>

definition valid_digest :: "sha256_digest \<Rightarrow> bool" where
  "valid_digest d \<longleftrightarrow> length (digest_bytes d) = 32"

text \<open>The derived order is the lexicographic order of the bytes.\<close>

instantiation sha256_digest :: linorder
begin

definition less_eq_sha256_digest :: "sha256_digest \<Rightarrow> sha256_digest \<Rightarrow> bool" where
  "less_eq_sha256_digest d e \<longleftrightarrow> digest_bytes d \<le> digest_bytes e"

definition less_sha256_digest :: "sha256_digest \<Rightarrow> sha256_digest \<Rightarrow> bool" where
  "less_sha256_digest d e \<longleftrightarrow> digest_bytes d < digest_bytes e"

instance
  by standard
    (auto simp: less_eq_sha256_digest_def less_sha256_digest_def sha256_digest.expand)

end

text \<open>\<open>{byte:02x}\<close>.\<close>

definition hex_digit :: "nat \<Rightarrow> char" where
  "hex_digit n = char_of (if n < 10 then 48 + n else 87 + n)"

definition hex_byte :: "u8 \<Rightarrow> string" where
  "hex_byte b = [hex_digit (unat b div 16), hex_digit (unat b mod 16)]"

definition digest_hex :: "sha256_digest \<Rightarrow> string" where
  "digest_hex d = concat (map hex_byte (digest_bytes d))"

definition digest_to_string :: "sha256_digest \<Rightarrow> string" where
  "digest_to_string d = ''sha256:'' @ digest_hex d"

datatype digest_parse_error = DigestParseError

text \<open>\<open>hex_value\<close> panics (\<open>None\<close>) outside the lowercase hexadecimal digits.\<close>

definition is_lower_hex :: "char \<Rightarrow> bool" where
  "is_lower_hex c = (is_ascii_digit c \<or> (97 \<le> byte c \<and> byte c \<le> 102))"

definition hex_value :: "char \<Rightarrow> u8 option" where
  "hex_value c =
     (if is_ascii_digit c then Some (of_nat (byte c) - 48)
      else if 97 \<le> byte c \<and> byte c \<le> 102 then Some (of_nat (byte c) - 97 + 10)
      else None)"

fun chunks2 :: "'a list \<Rightarrow> ('a \<times> 'a) list" where
  "chunks2 (x # y # xs) = (x, y) # chunks2 xs"
| "chunks2 _ = []"

definition chunk_value :: "char \<times> char \<Rightarrow> u8 option" where
  "chunk_value p =
     (case hex_value (fst p) of None \<Rightarrow> None
      | Some h \<Rightarrow> (case hex_value (snd p) of None \<Rightarrow> None
          | Some l \<Rightarrow> Some (push_bit 4 h OR l)))"

text \<open>The outer \<open>None\<close> is the panic of \<open>hex_value\<close>.\<close>

definition digest_from_str :: "string \<Rightarrow> (digest_parse_error + sha256_digest) option" where
  "digest_from_str s =
     (case strip_prefix ''sha256:'' s of
        None \<Rightarrow> Some (Err DigestParseError)
      | Some hex \<Rightarrow>
          if length hex \<noteq> 64 \<or> \<not> list_all is_lower_hex hex then Some (Err DigestParseError)
          else (case those (map chunk_value (chunks2 hex)) of
                  None \<Rightarrow> None
                | Some bytes \<Rightarrow> Some (Ok (Sha256Digest bytes))))"

section \<open>Artifact paths\<close>

definition MAX_ARTIFACT_PATH_BYTES :: nat where
  "MAX_ARTIFACT_PATH_BYTES = 4096"

datatype artifact_path = ArtifactPath (path_str: string)

instantiation artifact_path :: linorder
begin

definition less_eq_artifact_path :: "artifact_path \<Rightarrow> artifact_path \<Rightarrow> bool" where
  "less_eq_artifact_path p q \<longleftrightarrow> path_str p \<le> path_str q"

definition less_artifact_path :: "artifact_path \<Rightarrow> artifact_path \<Rightarrow> bool" where
  "less_artifact_path p q \<longleftrightarrow> path_str p < path_str q"

instance
  by standard
    (auto simp: less_eq_artifact_path_def less_artifact_path_def artifact_path.expand)

end

datatype artifact_path_error = PathLength | PathSegment | UnsafeCharacter | ReservedPath

definition backslash :: char where
  "backslash = char_of (92 :: nat)"

fun check_segments :: "string list \<Rightarrow> artifact_path_error + unit" where
  "check_segments [] = Ok ()"
| "check_segments (segment # rest) =
     (if segment = [] \<or> segment = ''.'' \<or> segment = ''..'' then Err PathSegment
      else if list_ex (\<lambda>c. c = nul \<or> c = backslash \<or> is_ascii_control c) segment
        then Err UnsafeCharacter
      else check_segments rest)"

definition artifact_path_parse :: "string \<Rightarrow> artifact_path_error + artifact_path" where
  "artifact_path_parse v =
     (if v = [] \<or> MAX_ARTIFACT_PATH_BYTES < length v then Err PathLength
      else and_then (check_segments (split_on (CHR ''/'') v)) (\<lambda>_.
        if hd (split_on (CHR ''/'') v) = ''.taskcage'' then Err ReservedPath
        else Ok (ArtifactPath v)))"

section \<open>Descriptors\<close>

record artifact_descriptor =
  ad_digest :: sha256_digest
  ad_size_bytes :: u64
  ad_media_type :: "string option"

record local_input_artifact =
  li_path :: artifact_path
  li_descriptor :: artifact_descriptor

definition local_input_artifact_new ::
  "artifact_path \<Rightarrow> sha256_digest \<Rightarrow> u64 \<Rightarrow> local_input_artifact" where
  "local_input_artifact_new path digest size_bytes =
     \<lparr>li_path = path,
      li_descriptor = \<lparr>ad_digest = digest, ad_size_bytes = size_bytes, ad_media_type = None\<rparr>\<rparr>"

record declared_output_artifact =
  do_file_name :: string
  do_media_type :: string
  do_maximum_bytes :: u64

datatype declared_output_error = FileName | MediaType | MaximumBytes

definition declared_output_new ::
  "string \<Rightarrow> string \<Rightarrow> u64 \<Rightarrow> declared_output_error + declared_output_artifact" where
  "declared_output_new file_name media_type maximum_bytes =
     (if file_name = [] \<or> CHR ''/'' \<in> set file_name \<or> backslash \<in> set file_name
         \<or> file_name = ''.'' \<or> file_name = ''..''
         \<or> list_ex (\<lambda>c. c = nul \<or> is_ascii_control c) file_name
      then Err FileName
      else if media_type = [] \<or> 255 < length media_type
         \<or> list_ex (\<lambda>c. is_ascii_control c \<or> c = nul) media_type
      then Err MediaType
      else if maximum_bytes = 0 then Err MaximumBytes
      else Ok \<lparr>do_file_name = file_name, do_media_type = media_type,
               do_maximum_bytes = maximum_bytes\<rparr>)"

record published_artifact =
  pa_path :: artifact_path
  pa_descriptor :: artifact_descriptor

definition published_artifact_new ::
  "artifact_path \<Rightarrow> sha256_digest \<Rightarrow> u64 \<Rightarrow> string \<Rightarrow> published_artifact" where
  "published_artifact_new path digest size_bytes media_type =
     \<lparr>pa_path = path,
      pa_descriptor = \<lparr>ad_digest = digest, ad_size_bytes = size_bytes, ad_media_type = Some media_type\<rparr>\<rparr>"

text \<open>\<open>expect\<close> on a missing media type is a panic: \<open>None\<close>.\<close>

definition published_media_type :: "published_artifact \<Rightarrow> string option" where
  "published_media_type p = ad_media_type (pa_descriptor p)"

section \<open>Digest lemmas\<close>

lemma byte_hex_digit: "n < 16 \<Longrightarrow> byte (hex_digit n) = (if n < 10 then 48 + n else 87 + n)"
  by (simp add: byte_def hex_digit_def)

lemma is_lower_hex_hex_digit: "n < 16 \<Longrightarrow> is_lower_hex (hex_digit n)"
  by (auto simp: is_lower_hex_def is_ascii_digit_def byte_hex_digit)

lemma hex_value_hex_digit: "n < 16 \<Longrightarrow> hex_value (hex_digit n) = Some (of_nat n)"
proof (cases "n < 10")
  case True
  then show ?thesis
    by (simp add: hex_value_def is_ascii_digit_def byte_hex_digit)
next
  case False
  assume "n < 16"
  moreover obtain k where "n = 10 + k"
    using False by (metis le_Suc_ex not_less)
  ultimately show ?thesis
    by (simp add: hex_value_def is_ascii_digit_def byte_hex_digit)
qed

lemma hex_value_Some: "is_lower_hex c \<Longrightarrow> \<exists>n < 16. c = hex_digit n \<and> hex_value c = Some (of_nat n)"
proof -
  assume h: "is_lower_hex c"
  let ?n = "if is_ascii_digit c then byte c - 48 else byte c - 87"
  have "?n < 16" and "byte (hex_digit ?n) = byte c"
    using h by (auto simp: is_lower_hex_def is_ascii_digit_def byte_hex_digit)
  then have "c = hex_digit ?n" "?n < 16"
    by (simp_all add: byte_inj)
  then show ?thesis
    using hex_value_hex_digit by metis
qed

lemma nibbles_join:
  assumes "h < 16" "l < 16"
  shows "unat ((push_bit 4 (of_nat h) OR of_nat l) :: u8) = 16 * h + l"
proof -
  have "(push_bit 4 (of_nat h) OR of_nat l :: u8) = of_nat (push_bit 4 h OR l)"
    by (simp add: of_nat_or_eq of_nat_push_bit)
  moreover have "push_bit 4 h OR l = 16 * h + l"
  proof -
    have "take_bit 4 l = l" using assms by (simp add: take_bit_nat_eq_self)
    then have "\<not> bit l n" if "4 \<le> n" for n
      using that by (metis bit_take_bit_iff not_le)
    then have "push_bit 4 h + l = push_bit 4 h OR l"
      by (intro disjunctive_add) (auto simp: bit_push_bit_iff)
    then show ?thesis by (simp add: push_bit_eq_mult)
  qed
  ultimately have "(push_bit 4 (of_nat h) OR of_nat l :: u8) = of_nat (16 * h + l)"
    by (simp only:)
  moreover have "unat (of_nat (16 * h + l) :: u8) = 16 * h + l"
    by (subst unat_of_nat) (use assms in simp)
  ultimately show ?thesis by (simp only:)
qed

lemma chunk_value_hex_byte:
  "chunk_value (hex_digit (unat b div 16), hex_digit (unat (b :: u8) mod 16)) = Some b"
proof -
  have b: "unat b div 16 < 16"
    using unsigned_less [of b, where ?'a = nat] by simp
  have "unat ((push_bit 4 (of_nat (unat b div 16)) OR of_nat (unat b mod 16)) :: u8) = unat b"
    using nibbles_join [OF b, of "unat b mod 16"] by simp
  then have "(push_bit 4 (of_nat (unat b div 16)) OR of_nat (unat b mod 16) :: u8) = b"
    by (rule word_unat_eq_iff [THEN iffD2])
  then show ?thesis
    using b by (simp add: chunk_value_def hex_value_hex_digit)
qed

lemma chunk_value_Some:
  assumes "is_lower_hex x" "is_lower_hex y"
  shows "\<exists>b. chunk_value (x, y) = Some b \<and> hex_byte b = [x, y]"
proof -
  obtain h l where h: "h < 16" "x = hex_digit h" "hex_value x = Some (of_nat h)"
    and l: "l < 16" "y = hex_digit l" "hex_value y = Some (of_nat l)"
    using assms hex_value_Some by metis
  have "unat ((push_bit 4 (of_nat h) OR of_nat l) :: u8) = 16 * h + l"
    using h(1) l(1) by (rule nibbles_join)
  then show ?thesis
    using h l by (auto simp: chunk_value_def hex_byte_def)
qed

lemma chunks2_hex: "chunks2 (concat (map hex_byte bs)) =
    map (\<lambda>b. (hex_digit (unat b div 16), hex_digit (unat b mod 16))) bs"
  by (induction bs) (auto simp: hex_byte_def)

lemma length_hex: "length (concat (map hex_byte bs)) = 2 * length bs"
  by (induction bs) (auto simp: hex_byte_def)

lemma those_chunk_values:
  "those (map (\<lambda>b. chunk_value (hex_digit (unat b div 16), hex_digit (unat b mod 16))) bs) = Some bs"
  by (induction bs) (simp_all add: chunk_value_hex_byte)

lemma list_all_hex: "list_all is_lower_hex (concat (map hex_byte bs))"
proof -
  have "unat b div 16 < 16" for b :: u8
    using unsigned_less [of b, where ?'a = nat] by simp
  then show ?thesis
    by (induction bs) (auto simp: hex_byte_def is_lower_hex_hex_digit)
qed

lemma chunks2_decode:
  assumes "list_all is_lower_hex hs" "even (length hs)"
  shows "\<exists>bs. those (map chunk_value (chunks2 hs)) = Some bs \<and> concat (map hex_byte bs) = hs"
  using assms
proof (induction hs rule: chunks2.induct)
  case (1 x y xs)
  then obtain bs where "those (map chunk_value (chunks2 xs)) = Some bs"
      "concat (map hex_byte bs) = xs"
    by auto
  moreover obtain b where "chunk_value (x, y) = Some b" "hex_byte b = [x, y]"
    using 1 chunk_value_Some by auto
  ultimately show ?case
    by (auto intro!: exI [of _ "b # bs"])
qed auto

lemma digest_from_str_total: "digest_from_str s \<noteq> None"
  using chunks2_decode
  by (auto simp: digest_from_str_def split: option.splits) (metis even_numeral option.distinct(1))

lemma digest_from_to_string: "valid_digest d \<Longrightarrow> digest_from_str (digest_to_string d) = Some (Inr d)"
  by (simp add: digest_from_str_def digest_to_string_def digest_hex_def valid_digest_def
      length_hex list_all_hex chunks2_hex those_chunk_values comp_def)

section \<open>Path lemmas\<close>

lemma check_segments_Ok:
  "check_segments segs = Inr () \<longleftrightarrow>
     (\<forall>s \<in> set segs. s \<noteq> [] \<and> s \<noteq> ''.'' \<and> s \<noteq> ''..'' \<and>
        (\<forall>c \<in> set s. c \<noteq> nul \<and> c \<noteq> backslash \<and> \<not> is_ascii_control c))"
  by (induction segs) (auto simp: list_ex_iff)

lemma artifact_path_parse_Ok:
  "artifact_path_parse v = Inr p \<longleftrightarrow>
     p = ArtifactPath v \<and> v \<noteq> [] \<and> length v \<le> 4096 \<and>
     check_segments (split_on (CHR ''/'') v) = Inr () \<and>
     hd (split_on (CHR ''/'') v) \<noteq> ''.taskcage''"
  by (auto simp: artifact_path_parse_def MAX_ARTIFACT_PATH_BYTES_def result_simps split: if_splits)

text \<open>
  The reference reading of a path: its segments followed from a directory, an empty segment and
  \<open>.\<close> staying, \<open>..\<close> going up. A leading empty segment would restart at the file system root.
\<close>

fun follow :: "string list \<Rightarrow> string list \<Rightarrow> string list" where
  "follow dir [] = dir"
| "follow dir (s # ss) =
     (if s = [] \<or> s = ''.'' then follow dir ss
      else if s = ''..'' then follow (butlast dir) ss
      else follow (dir @ [s]) ss)"

definition resolve_below :: "string list \<Rightarrow> string \<Rightarrow> string list" where
  "resolve_below root p =
     (case split_on (CHR ''/'') p of
        [] # rest \<Rightarrow> if rest = [] then root else follow [] rest
      | segs \<Rightarrow> follow root segs)"

lemma follow_plain:
  "\<forall>s \<in> set segs. s \<noteq> [] \<and> s \<noteq> ''.'' \<and> s \<noteq> ''..'' \<Longrightarrow> follow dir segs = dir @ segs"
  by (induction segs arbitrary: dir) auto

lemma resolve_below_plain:
  assumes "\<forall>s \<in> set (split_on (CHR ''/'') p). s \<noteq> [] \<and> s \<noteq> ''.'' \<and> s \<noteq> ''..''"
  shows "resolve_below root p = root @ split_on (CHR ''/'') p"
proof -
  obtain x xs where x: "split_on (CHR ''/'') p = x # xs"
    by (cases "split_on (CHR ''/'') p") auto
  with assms have "x \<noteq> []" "follow root (x # xs) = root @ x # xs"
    using follow_plain [of "x # xs" root] by simp_all
  then show ?thesis
    by (cases x) (simp_all only: resolve_below_def x list.case simp_thms)
qed

section \<open>Properties\<close>

text \<open>The textual identity of a digest and its 32 bytes determine each other: printing then
  parsing gives the digest back, an accepted text is exactly the printing of its digest, and
  parsing never reaches the panic of \<open>hex_value\<close>.\<close>

theorem digest_text_roundtrip:
  "digest_from_str s \<noteq> None \<and>
   (valid_digest d \<longrightarrow> digest_from_str (digest_to_string d) = Some (Inr d)) \<and>
   (digest_from_str s = Some (Inr e) \<longrightarrow> valid_digest e \<and> digest_to_string e = s)"
proof (intro conjI impI)
  show "digest_from_str s \<noteq> None"
    by (rule digest_from_str_total)
next
  assume "valid_digest d"
  then show "digest_from_str (digest_to_string d) = Some (Inr d)"
    by (rule digest_from_to_string)
next
  assume e: "digest_from_str s = Some (Inr e)"
  then obtain hex where hex: "strip_prefix ''sha256:'' s = Some hex" "length hex = 64"
      "list_all is_lower_hex hex" "those (map chunk_value (chunks2 hex)) = Some (digest_bytes e)"
    by (auto simp: digest_from_str_def split: option.splits if_splits)
  then have "concat (map hex_byte (digest_bytes e)) = hex"
    using chunks2_decode [of hex] by auto
  with hex show "valid_digest e" "digest_to_string e = s"
    using length_hex [of "digest_bytes e"]
    by (auto simp: valid_digest_def digest_to_string_def digest_hex_def strip_prefix_Some)
qed

theorem digest_text_roundtrip_witness:
  "digest_from_str (digest_to_string (Sha256Digest (replicate 32 171)))
     = Some (Inr (Sha256Digest (replicate 32 171)))"
  using digest_text_roundtrip [of "[]" "Sha256Digest (replicate 32 171)"]
  by (simp add: valid_digest_def)

text \<open>C31: an accepted artifact path, followed from any root directory, names an entry strictly
  below that root, outside the reserved \<open>.taskcage\<close> subtree, through segments without NUL,
  backslash or control bytes.\<close>

theorem artifact_path_stays_below_root:
  assumes "artifact_path_parse v = Inr p"
  shows "\<exists>segs. resolve_below root (path_str p) = root @ segs \<and> segs \<noteq> [] \<and>
    hd segs \<noteq> ''.taskcage'' \<and> join_with (CHR ''/'') segs = v \<and>
    (\<forall>s \<in> set segs. s \<noteq> [] \<and> s \<noteq> ''..'' \<and> CHR ''/'' \<notin> set s \<and>
       (\<forall>c \<in> set s. c \<noteq> nul \<and> c \<noteq> backslash \<and> \<not> is_ascii_control c))"
proof -
  let ?segs = "split_on (CHR ''/'') v"
  have ok: "p = ArtifactPath v" "check_segments ?segs = Inr ()" "hd ?segs \<noteq> ''.taskcage''"
    using assms by (auto simp: artifact_path_parse_Ok)
  have "resolve_below root (path_str p) = root @ ?segs"
    using ok by (auto simp: check_segments_Ok intro: resolve_below_plain)
  with ok show ?thesis
    by (intro exI [of _ ?segs])
      (auto simp: check_segments_Ok join_split_on dest: split_on_no_sep)
qed

theorem artifact_path_stays_below_root_witness:
  "\<exists>p. artifact_path_parse ''jobs/42/source.mov'' = Inr p \<and>
     (\<exists>segs. resolve_below [''srv''] (path_str p) = [''srv''] @ segs \<and> segs \<noteq> [])"
proof -
  have "artifact_path_parse ''jobs/42/source.mov'' = Inr (ArtifactPath ''jobs/42/source.mov'')"
    by code_simp
  then show ?thesis
    using artifact_path_stays_below_root by blast
qed

end
