(* ===== verification/Capsule.thy ===== *)
theory Capsule
  imports Artifact Policy
begin

text \<open>
  Capsule identities and invocations of \<open>core/src/capsule\<close>, and the transport-neutral submission
  values of \<open>daemon/src/application/mod.rs\<close>. The version parser of the \<open>semver\<close> package is an
  argument of the definitions that use it.
\<close>

section \<open>Identity\<close>

record capsule_identity =
  ci_name :: string
  ci_version :: string

datatype identity_error =
    InvalidName string
  | InvalidVersion string
  | PrereleaseOrBuildMetadata string

text \<open>A parsed version: whether it has prerelease or build metadata, and its text.\<close>

record semver_version =
  sv_pre_empty :: bool
  sv_build_empty :: bool
  sv_text :: string

fun valid_name_segment :: "string \<Rightarrow> bool" where
  "valid_name_segment [] = False"
| "valid_name_segment (c # cs) =
     (is_ascii_lowercase c \<and>
      list_all (\<lambda>b. is_ascii_lowercase b \<or> is_ascii_digit b \<or> b = CHR ''-'') cs)"

definition is_valid_capsule_name :: "string \<Rightarrow> bool" where
  "is_valid_capsule_name name \<longleftrightarrow>
     1 \<le> length name \<and> length name \<le> 63 \<and>
     list_all valid_name_segment (split_on (CHR ''.'') name)"

definition capsule_identity_new ::
  "(string \<Rightarrow> semver_version option) \<Rightarrow> string \<Rightarrow> string \<Rightarrow> identity_error + capsule_identity" where
  "capsule_identity_new parse name version =
     (if \<not> is_valid_capsule_name name then Err (InvalidName name)
      else and_then (ok_or (InvalidVersion version) (parse version)) (\<lambda>v.
        if \<not> sv_pre_empty v \<or> \<not> sv_build_empty v then Err (PrereleaseOrBuildMetadata (sv_text v))
        else Ok \<lparr>ci_name = name, ci_version = sv_text v\<rparr>))"

section \<open>Invocation\<close>

record profile_identity =
  pi_name :: string
  pi_version :: string

datatype profile_value =
    StringValue string
  | Int64Value i64
  | BooleanValue bool
  | LocalInputValue string string u64

fun kind_name :: "profile_value \<Rightarrow> string" where
  "kind_name (StringValue _) = ''STRING''"
| "kind_name (Int64Value _) = ''INT64''"
| "kind_name (BooleanValue _) = ''BOOLEAN''"
| "kind_name (LocalInputValue _ _ _) = ''LOCAL_INPUT''"

record cpu_max_override =
  cm_quota_micros :: u64
  cm_period_micros :: u64

record profile_resource_overrides =
  ro_cpu_max :: "cpu_max_override option"
  ro_memory_max_bytes :: "u64 option"
  ro_pids_max :: "u64 option"
  ro_wall_time_limit_ms :: "u64 option"
  ro_stdout_tail_max_bytes :: "u32 option"
  ro_stderr_tail_max_bytes :: "u32 option"

definition no_overrides :: profile_resource_overrides where
  "no_overrides =
     \<lparr>ro_cpu_max = None, ro_memory_max_bytes = None, ro_pids_max = None,
      ro_wall_time_limit_ms = None, ro_stdout_tail_max_bytes = None,
      ro_stderr_tail_max_bytes = None\<rparr>"

definition overrides_is_empty :: "profile_resource_overrides \<Rightarrow> bool" where
  "overrides_is_empty r \<longleftrightarrow>
     ro_cpu_max r = None \<and> ro_memory_max_bytes r = None \<and> ro_pids_max r = None \<and>
     ro_wall_time_limit_ms r = None \<and> ro_stdout_tail_max_bytes r = None \<and>
     ro_stderr_tail_max_bytes r = None"

record profile_call =
  pc_identity :: profile_identity
  pc_inputs :: "(string \<times> profile_value) list"
  pc_resource_overrides :: "profile_resource_overrides option"

record capsule_invocation =
  iv_client_request_id :: string
  iv_capsule :: capsule_identity
  iv_profile :: profile_identity
  iv_inputs :: "(string \<times> profile_value) list"
  iv_resource_overrides :: "profile_resource_overrides option"

definition profile_call_new :: "profile_identity \<Rightarrow> (string \<times> profile_value) list \<Rightarrow> profile_call" where
  "profile_call_new identity inputs =
     \<lparr>pc_identity = identity, pc_inputs = inputs, pc_resource_overrides = None\<rparr>"

definition with_resource_overrides ::
  "profile_call \<Rightarrow> profile_resource_overrides \<Rightarrow> profile_call" where
  "with_resource_overrides call overrides = call\<lparr>pc_resource_overrides := Some overrides\<rparr>"

definition into_profile_call :: "capsule_invocation \<Rightarrow> profile_call" where
  "into_profile_call v =
     (let call = profile_call_new (iv_profile v) (iv_inputs v)
      in case iv_resource_overrides v of
           Some overrides \<Rightarrow> with_resource_overrides call overrides
         | None \<Rightarrow> call)"

datatype verified_argument =
    Literal string
  | InputArtifactPath string
  | OutputArtifactPath string

section \<open>Submissions and use-case errors\<close>

record profile_submission =
  ps_client_request_id :: string
  ps_call :: profile_call

datatype use_case_error_code =
    ArtifactDigestMismatch
  | CapacityExhaustedCode
  | EnvironmentUnavailable
  | IdempotencyConflictCode
  | InternalError
  | InvalidArtifactPath
  | InvalidProfileInput
  | LimitExceedsPolicy
  | ProfileNotFound
  | TaskAlreadyFinishedCode
  | TaskNotFoundCode

section \<open>Lemmas\<close>

lemma valid_segment_chars:
  "valid_name_segment seg \<Longrightarrow> c \<in> set seg \<Longrightarrow>
   is_ascii_lowercase c \<or> is_ascii_digit c \<or> c = CHR ''-''"
  by (cases seg) (auto simp: list_all_iff)

lemma valid_name_chars:
  assumes "is_valid_capsule_name name" "c \<in> set name"
  shows "is_ascii_lowercase c \<or> is_ascii_digit c \<or> c = CHR ''-'' \<or> c = CHR ''.''"
proof (cases "c = CHR ''.''")
  case False
  then obtain seg where "seg \<in> set (split_on (CHR ''.'') name)" "c \<in> set seg"
    using split_on_cover [OF assms(2)] by blast
  with assms(1) show ?thesis
    using valid_segment_chars by (auto simp: is_valid_capsule_name_def list_all_iff)
qed simp

end
