(* ===== verification/Task.thy ===== *)
theory Task
  imports Prelude
begin

text \<open>
  The backend-independent task values of \<open>core/src/task/mod.rs\<close>: states, termination reasons,
  terminal data and snapshots.
\<close>

datatype task_state = StateRunning | StateFinished

datatype termination_reason =
    Exited
  | ExecutionFailed
  | ReasonCancelled
  | ReasonTimedOut
  | MemoryLimitExceeded
  | ProcessLimitExceeded
  | DaemonError

record process_result =
  pr_exit_code :: "i32 option"
  pr_signal :: "string option"

record task_timing =
  tt_submitted_at :: string
  tt_started_at :: string
  tt_finished_at :: string
  tt_wall_time_ms :: u64

record task_usage =
  tu_cpu_time_micros :: u64
  tu_memory_peak_bytes :: u64

record task_output =
  to_stdout_tail :: string
  to_stderr_tail :: string
  to_stdout_truncated :: bool
  to_stderr_truncated :: bool

record task_result =
  tr_task_id :: string
  tr_termination_reason :: termination_reason
  tr_process :: process_result
  tr_timing :: task_timing
  tr_usage :: task_usage
  tr_output :: task_output

datatype task_snapshot =
    Running string string string
  | Finished string termination_reason process_result task_timing task_usage task_output

fun snapshot_state :: "task_snapshot \<Rightarrow> task_state" where
  "snapshot_state (Running _ _ _) = StateRunning"
| "snapshot_state (Finished _ _ _ _ _ _) = StateFinished"

fun snapshot_task_id :: "task_snapshot \<Rightarrow> string" where
  "snapshot_task_id (Running task_id _ _) = task_id"
| "snapshot_task_id (Finished task_id _ _ _ _ _) = task_id"

definition snapshot_from_result :: "task_result \<Rightarrow> task_snapshot" where
  "snapshot_from_result r =
     Finished (tr_task_id r) (tr_termination_reason r) (tr_process r) (tr_timing r) (tr_usage r)
       (tr_output r)"

fun is_running :: "task_snapshot \<Rightarrow> bool" where
  "is_running (Running _ _ _) = True"
| "is_running (Finished _ _ _ _ _ _) = False"

fun is_finished :: "task_snapshot \<Rightarrow> bool" where
  "is_finished (Running _ _ _) = False"
| "is_finished (Finished _ _ _ _ _ _) = True"

lemma is_running_iff: "is_running s \<longleftrightarrow> \<not> is_finished s"
  by (cases s) auto

lemma snapshot_state_finished: "snapshot_state s = StateFinished \<longleftrightarrow> is_finished s"
  by (cases s) auto

lemma snapshot_from_result_facts [simp]:
  "is_finished (snapshot_from_result r)"
  "snapshot_task_id (snapshot_from_result r) = tr_task_id r"
  by (simp_all add: snapshot_from_result_def)

end
