(* ===== verification/Output_Capture.thy ===== *)
theory Output_Capture
  imports Task
begin

text \<open>
  Bounded capture of a task's output: the ring buffer and the reader loop of
  \<open>linux-runtime/src/executor/capture.rs\<close>, the captured values of \<open>core/src/output.rs\<close> and their
  conversion to text in \<open>daemon/src/lib.rs\<close>. The ring buffer is shown to keep exactly the last
  bytes of the stream and to report truncation exactly when bytes were dropped.
\<close>

section \<open>The ring buffer\<close>

record bounded_tail =
  bt_buffer :: string
  bt_start :: nat
  bt_len :: nat
  bt_truncated :: bool

record captured_tail =
  ct_bytes :: string
  ct_truncated :: bool

definition bounded_tail_new :: "nat \<Rightarrow> bounded_tail" where
  "bounded_tail_new limit =
     \<lparr>bt_buffer = replicate limit nul, bt_start = 0, bt_len = 0, bt_truncated = False\<rparr>"

text \<open>\<open>buf[pos..pos + xs.len()].copy_from_slice(xs)\<close> for a range inside the buffer.\<close>

definition copy_into :: "'a list \<Rightarrow> nat \<Rightarrow> 'a list \<Rightarrow> 'a list" where
  "copy_into buf pos xs = take pos buf @ xs @ drop (pos + length xs) buf"

text \<open>The part of \<open>push\<close> that writes at the end, once there is room for the bytes.\<close>

definition bounded_tail_write :: "bounded_tail \<Rightarrow> string \<Rightarrow> bounded_tail" where
  "bounded_tail_write t bytes =
     (let capacity = length (bt_buffer t);
          write_start = (bt_start t + bt_len t) mod capacity;
          first = min (length bytes) (capacity - write_start);
          buf = copy_into (bt_buffer t) write_start (take first bytes)
      in t\<lparr>bt_buffer := copy_into buf 0 (drop first bytes), bt_len := bt_len t + length bytes\<rparr>)"

definition bounded_tail_push :: "bounded_tail \<Rightarrow> string \<Rightarrow> bounded_tail" where
  "bounded_tail_push t bytes =
     (if bytes = [] then t
      else let capacity = length (bt_buffer t) in
        if capacity \<le> length bytes then
          t\<lparr>bt_truncated := bt_truncated t \<or> 0 < bt_len t \<or> capacity < length bytes,
            bt_buffer := drop (length bytes - capacity) bytes,
            bt_start := 0,
            bt_len := capacity\<rparr>
        else
          let free = capacity - bt_len t in
          if free < length bytes then
            let discarded = length bytes - free in
            bounded_tail_write
              (t\<lparr>bt_start := (bt_start t + discarded) mod capacity,
                 bt_len := bt_len t - discarded,
                 bt_truncated := True\<rparr>) bytes
          else bounded_tail_write t bytes)"

definition bounded_tail_finish :: "bounded_tail \<Rightarrow> captured_tail" where
  "bounded_tail_finish t =
     \<lparr>ct_bytes = take (bt_len t) (rotate (bt_start t) (bt_buffer t)), ct_truncated = bt_truncated t\<rparr>"

section \<open>The reader loop\<close>

text \<open>
  \<open>drain_output\<close> alternates \<open>poll\<close> and \<open>read\<close> on the pipe. The operating system is the list of
  its answers: before each call the loop loads the cancellation flag, which is the first
  component; running out of answers (\<open>None\<close>) is a loop still waiting. \<open>OsFault\<close> is the cleanup
  fault that the executor can be configured to inject before a read.
\<close>

datatype poll_answer = PollInterrupted | PollError string | PollTimeout | PollReady

datatype read_answer =
    ReadWouldBlock | ReadInterrupted | ReadError string | ReadEof | ReadData string

datatype os_answer = OsPoll poll_answer | OsRead read_answer | OsFault string

datatype drain_mode = Polling | Reading

fun drain_output ::
  "drain_mode \<Rightarrow> bounded_tail \<Rightarrow> (bool \<times> os_answer) list \<Rightarrow> (string + captured_tail) option" where
  "drain_output mode tail [] = None"
| "drain_output mode tail ((cancelled, answer) # rest) =
     (if cancelled then Some (Ok (bounded_tail_finish tail))
      else case (mode, answer) of
        (Polling, OsPoll PollInterrupted) \<Rightarrow> drain_output Polling tail rest
      | (Polling, OsPoll (PollError e)) \<Rightarrow> Some (Err e)
      | (Polling, OsPoll PollTimeout) \<Rightarrow> drain_output Polling tail rest
      | (Polling, OsPoll PollReady) \<Rightarrow> drain_output Reading tail rest
      | (Reading, OsFault e) \<Rightarrow> Some (Err e)
      | (Reading, OsRead ReadWouldBlock) \<Rightarrow> drain_output Polling tail rest
      | (Reading, OsRead ReadInterrupted) \<Rightarrow> drain_output Reading tail rest
      | (Reading, OsRead (ReadError e)) \<Rightarrow> Some (Err e)
      | (Reading, OsRead ReadEof) \<Rightarrow> Some (Ok (bounded_tail_finish tail))
      | (Reading, OsRead (ReadData bytes)) \<Rightarrow>
          drain_output Reading (bounded_tail_push tail bytes) rest
      | _ \<Rightarrow> None)"

datatype reader_error =
    OutputRead string string
  | OutputReaderPanicked string
  | OutputReaderTimeout duration

text \<open>Joining a reader thread: \<open>None\<close> is a panicked thread.\<close>

fun join_output_reader ::
  "string \<Rightarrow> (string + captured_tail) option \<Rightarrow> reader_error + captured_tail" where
  "join_output_reader stream (Some (Inr tail)) = Ok tail"
| "join_output_reader stream (Some (Inl source)) = Err (OutputRead stream source)"
| "join_output_reader stream None = Err (OutputReaderPanicked stream)"

section \<open>Captured output as text\<close>

record captured_stream =
  cs_tail :: string
  cs_truncated :: bool

record captured_output =
  co_stdout :: captured_stream
  co_stderr :: captured_stream

definition captured_output_of :: "captured_tail \<Rightarrow> captured_tail \<Rightarrow> captured_output" where
  "captured_output_of out err =
     \<lparr>co_stdout = \<lparr>cs_tail = ct_bytes out, cs_truncated = ct_truncated out\<rparr>,
      co_stderr = \<lparr>cs_tail = ct_bytes err, cs_truncated = ct_truncated err\<rparr>\<rparr>"

text \<open>
  \<open>collect_until\<close> looks at the two reader threads until both have finished or the deadline has
  passed; each look is (stdout finished, stderr finished, deadline passed). The threads are
  joined in either case, so their results are arguments.
\<close>

fun collect_timed_out :: "(bool \<times> bool \<times> bool) list \<Rightarrow> bool option" where
  "collect_timed_out [] = None"
| "collect_timed_out ((out_done, err_done, expired) # rest) =
     (if out_done \<and> err_done then Some False
      else if expired then Some True
      else collect_timed_out rest)"

definition join_readers ::
  "(string + captured_tail) option \<Rightarrow> (string + captured_tail) option \<Rightarrow>
   reader_error + captured_output" where
  "join_readers out_result err_result =
     and_then (join_output_reader ''stdout'' out_result) (\<lambda>out.
     and_then (join_output_reader ''stderr'' err_result) (\<lambda>err.
       Ok (captured_output_of out err)))"

definition collect_until ::
  "(bool \<times> bool \<times> bool) list \<Rightarrow> duration \<Rightarrow> (string + captured_tail) option \<Rightarrow>
   (string + captured_tail) option \<Rightarrow> (reader_error + captured_output) option" where
  "collect_until looks budget out_result err_result =
     (case collect_timed_out looks of
        None \<Rightarrow> None
      | Some True \<Rightarrow> Some (Err (OutputReaderTimeout budget))
      | Some False \<Rightarrow> Some (join_readers out_result err_result))"

text \<open>
  \<open>String::from_utf8_lossy\<close>: \<open>utf8_step\<close> gives the length of the next well-formed sequence, or
  of the maximal ill-formed one, which is replaced by U+FFFD.
\<close>

definition in_range :: "nat \<Rightarrow> nat \<Rightarrow> char \<Rightarrow> bool" where
  "in_range lo hi c \<longleftrightarrow> lo \<le> byte c \<and> byte c \<le> hi"

definition is_continuation :: "char \<Rightarrow> bool" where
  "is_continuation c = in_range 128 191 c"

fun utf8_tail :: "nat \<Rightarrow> nat \<Rightarrow> string \<Rightarrow> bool \<times> nat" where
  "utf8_tail seen 0 cs = (True, seen)"
| "utf8_tail seen (Suc n) [] = (False, seen)"
| "utf8_tail seen (Suc n) (c # cs) =
     (if is_continuation c then utf8_tail (Suc seen) n cs else (False, seen))"

definition utf8_second :: "char \<Rightarrow> (nat \<times> nat \<times> nat) option" where
  "utf8_second b =
     (if in_range 194 223 b then Some (128, 191, 0)
      else if byte b = 224 then Some (160, 191, 1)
      else if in_range 225 236 b \<or> in_range 238 239 b then Some (128, 191, 1)
      else if byte b = 237 then Some (128, 159, 1)
      else if byte b = 240 then Some (144, 191, 2)
      else if in_range 241 243 b then Some (128, 191, 2)
      else if byte b = 244 then Some (128, 143, 2)
      else None)"

fun utf8_step :: "string \<Rightarrow> bool \<times> nat" where
  "utf8_step [] = (True, 0)"
| "utf8_step (b # cs) =
     (if byte b < 128 then (True, 1)
      else case utf8_second b of
        None \<Rightarrow> (False, 1)
      | Some (lo, hi, extra) \<Rightarrow>
          (case cs of
             [] \<Rightarrow> (False, 1)
           | c # rest \<Rightarrow> if in_range lo hi c then utf8_tail 2 extra rest else (False, 1)))"

definition replacement :: string where
  "replacement = [char_of (239 :: nat), char_of (191 :: nat), char_of (189 :: nat)]"

lemma utf8_tail_len: "seen \<le> snd (utf8_tail seen n cs)"
  by (induction seen n cs rule: utf8_tail.induct) auto

lemma utf8_step_progress: "cs \<noteq> [] \<Longrightarrow> 1 \<le> snd (utf8_step cs)"
proof (cases cs)
  case (Cons b rest)
  have "1 \<le> snd (utf8_tail 2 n xs)" for n xs
    using utf8_tail_len [of 2 n xs] by linarith
  with Cons show ?thesis
    by (auto split: option.splits list.splits)
qed simp

function from_utf8_lossy :: "string \<Rightarrow> string" where
  "from_utf8_lossy cs =
     (if cs = [] then []
      else case utf8_step cs of
        (valid, n) \<Rightarrow> (if valid then take n cs else replacement) @ from_utf8_lossy (drop n cs))"
  by pat_completeness auto
termination
proof (relation "measure length", goal_cases)
  case (2 cs valid n)
  then show ?case
    using utf8_step_progress [of cs] by (cases "utf8_step cs") auto
qed simp

declare from_utf8_lossy.simps [simp del]

definition into_task_output :: "captured_output \<Rightarrow> task_output" where
  "into_task_output c =
     \<lparr>to_stdout_tail = from_utf8_lossy (cs_tail (co_stdout c)),
      to_stderr_tail = from_utf8_lossy (cs_tail (co_stderr c)),
      to_stdout_truncated = cs_truncated (co_stdout c),
      to_stderr_truncated = cs_truncated (co_stderr c)\<rparr>"

section \<open>The ring buffer keeps the last bytes\<close>

definition take_last :: "nat \<Rightarrow> 'a list \<Rightarrow> 'a list" where
  "take_last n xs = drop (length xs - n) xs"

definition bounded_tail_invar :: "bounded_tail \<Rightarrow> bool" where
  "bounded_tail_invar t \<longleftrightarrow>
     bt_start t < length (bt_buffer t) \<and> bt_len t \<le> length (bt_buffer t)"

definition tail_capacity :: "bounded_tail \<Rightarrow> nat" where
  "tail_capacity t = length (bt_buffer t)"

definition tail_contents :: "bounded_tail \<Rightarrow> string" where
  "tail_contents t = take (bt_len t) (rotate (bt_start t) (bt_buffer t))"

lemma take_last_append_take_last: "take_last n (take_last n xs @ ys) = take_last n (xs @ ys)"
  by (cases "length xs \<le> n") (auto simp: take_last_def add.commute)

lemma take_last_all: "length xs \<le> n \<Longrightarrow> take_last n xs = xs"
  by (simp add: take_last_def)

lemma mod_once: "(a :: nat) < 2 * c \<Longrightarrow> a mod c = (if a < c then a else a - c)"
  by (auto simp: mod_if le_mod_geq)

lemma length_copy_into [simp]:
  "pos + length xs \<le> length buf \<Longrightarrow> length (copy_into buf pos xs) = length buf"
  by (simp add: copy_into_def)

lemma nth_copy_into:
  "pos + length xs \<le> length buf \<Longrightarrow> k < length buf \<Longrightarrow>
   copy_into buf pos xs ! k =
     (if pos \<le> k \<and> k < pos + length xs then xs ! (k - pos) else buf ! k)"
  by (auto simp: copy_into_def nth_append)

lemma tail_contents_nth:
  assumes "bounded_tail_invar t" and "i < bt_len t"
  shows "tail_contents t ! i = bt_buffer t ! ((bt_start t + i) mod length (bt_buffer t))"
  using assms by (simp add: tail_contents_def bounded_tail_invar_def nth_rotate add.commute)

lemma tail_contents_length:
  "bounded_tail_invar t \<Longrightarrow> length (tail_contents t) = bt_len t"
  by (simp add: tail_contents_def bounded_tail_invar_def)

text \<open>The two copies of a write that may wrap around.\<close>

lemma wrapped_copy:
  assumes ws: "ws < length buf" and n: "length bs \<le> length buf"
  defines "f \<equiv> min (length bs) (length buf - ws)"
  defines "b \<equiv> copy_into (copy_into buf ws (take f bs)) 0 (drop f bs)"
  shows "length b = length buf"
    and "k < length buf \<Longrightarrow> b ! k =
      (let off = if ws \<le> k then k - ws else k + length buf - ws
       in if off < length bs then bs ! off else buf ! k)"
proof -
  have fits: "ws + length (take f bs) \<le> length buf"
    using ws by (simp add: f_def)
  have fits2: "0 + length (drop f bs) \<le> length (copy_into buf ws (take f bs))"
    using fits n by simp
  show "length b = length buf"
    unfolding b_def using fits fits2 by simp
  assume k: "k < length buf"
  show "b ! k =
      (let off = if ws \<le> k then k - ws else k + length buf - ws
       in if off < length bs then bs ! off else buf ! k)"
    unfolding b_def Let_def
    using k ws n nth_copy_into [OF fits2] nth_copy_into [OF fits] length_copy_into [OF fits]
    by (auto simp: f_def min_def add.commute)
qed

lemma bounded_tail_write_frame:
  "bt_start (bounded_tail_write t bs) = bt_start t"
  "bt_len (bounded_tail_write t bs) = bt_len t + length bs"
  "bt_truncated (bounded_tail_write t bs) = bt_truncated t"
  by (simp_all add: bounded_tail_write_def Let_def)

lemma bounded_tail_write_buffer:
  assumes inv: "bounded_tail_invar t" and room: "bt_len t + length bs \<le> length (bt_buffer t)"
  shows "length (bt_buffer (bounded_tail_write t bs)) = length (bt_buffer t)"
    and "i < bt_len t + length bs \<Longrightarrow>
      bt_buffer (bounded_tail_write t bs) ! ((bt_start t + i) mod length (bt_buffer t)) =
      (if i < bt_len t then bt_buffer t ! ((bt_start t + i) mod length (bt_buffer t))
       else bs ! (i - bt_len t))"
proof -
  let ?c = "length (bt_buffer t)" and ?ws = "(bt_start t + bt_len t) mod length (bt_buffer t)"
  have c: "0 < ?c"
    using inv by (auto simp: bounded_tail_invar_def)
  have ws: "?ws < ?c" and n: "length bs \<le> ?c"
    using c room by auto
  note copy = wrapped_copy [OF ws n]
  show "length (bt_buffer (bounded_tail_write t bs)) = ?c"
    using copy(1) by (simp add: bounded_tail_write_def Let_def)
  assume i: "i < bt_len t + length bs"
  let ?k = "(bt_start t + i) mod ?c"
  have k: "?k < ?c"
    using c by simp
  have "bt_start t < ?c" "bt_len t \<le> ?c" "i < ?c"
    using inv i room by (auto simp: bounded_tail_invar_def)
  then have "?ws = (if bt_start t + bt_len t < ?c then bt_start t + bt_len t
                    else bt_start t + bt_len t - ?c)"
    and "?k = (if bt_start t + i < ?c then bt_start t + i else bt_start t + i - ?c)"
    by (auto simp: mod_once)
  with copy(2) [OF k] i room \<open>bt_start t < ?c\<close> \<open>bt_len t \<le> ?c\<close> \<open>i < ?c\<close>
  show "bt_buffer (bounded_tail_write t bs) ! ?k =
      (if i < bt_len t then bt_buffer t ! ?k else bs ! (i - bt_len t))"
    by (auto simp: bounded_tail_write_def Let_def split: if_splits)
qed

lemma bounded_tail_write_contents:
  assumes inv: "bounded_tail_invar t" and room: "bt_len t + length bs \<le> length (bt_buffer t)"
  shows "bounded_tail_invar (bounded_tail_write t bs)"
    and "tail_contents (bounded_tail_write t bs) = tail_contents t @ bs"
proof -
  let ?t = "bounded_tail_write t bs"
  show inv': "bounded_tail_invar ?t"
    using inv room bounded_tail_write_buffer(1) [OF inv room]
    by (simp add: bounded_tail_invar_def bounded_tail_write_frame)
  show "tail_contents ?t = tail_contents t @ bs"
  proof (rule nth_equalityI)
    show "length (tail_contents ?t) = length (tail_contents t @ bs)"
      using inv inv' by (simp add: tail_contents_length bounded_tail_write_frame)
  next
    fix i
    assume "i < length (tail_contents ?t)"
    then have i: "i < bt_len t + length bs"
      using inv' by (simp add: tail_contents_length bounded_tail_write_frame)
    show "tail_contents ?t ! i = (tail_contents t @ bs) ! i"
      using bounded_tail_write_buffer [OF inv room] i
      by (simp add: tail_contents_nth [OF inv'] bounded_tail_write_frame nth_append
          tail_contents_length [OF inv] tail_contents_nth [OF inv])
  qed
qed

text \<open>Dropping the oldest bytes only moves the start.\<close>

lemma discard_contents:
  assumes inv: "bounded_tail_invar t" and d: "d \<le> bt_len t"
  defines "u \<equiv> t\<lparr>bt_start := (bt_start t + d) mod length (bt_buffer t),
                  bt_len := bt_len t - d, bt_truncated := True\<rparr>"
  shows "bounded_tail_invar u" and "tail_contents u = drop d (tail_contents t)"
proof -
  have c: "0 < length (bt_buffer t)"
    using inv by (auto simp: bounded_tail_invar_def)
  show inv': "bounded_tail_invar u"
    using inv c by (auto simp: bounded_tail_invar_def u_def)
  show "tail_contents u = drop d (tail_contents t)"
  proof (rule nth_equalityI)
    show "length (tail_contents u) = length (drop d (tail_contents t))"
      using inv inv' by (simp add: tail_contents_length u_def)
  next
    fix i
    assume "i < length (tail_contents u)"
    then have i: "i < bt_len t - d"
      using inv' by (simp add: tail_contents_length u_def)
    have "tail_contents u ! i = bt_buffer t ! ((bt_start t + (d + i)) mod length (bt_buffer t))"
      using tail_contents_nth [OF inv', of i] i by (simp add: u_def mod_add_right_eq ac_simps)
    also have "\<dots> = tail_contents t ! (d + i)"
      using i by (subst tail_contents_nth [OF inv]) auto
    finally show "tail_contents u ! i = drop d (tail_contents t) ! i"
      using i d by (simp add: tail_contents_length [OF inv])
  qed
qed

lemma bounded_tail_push_contents:
  assumes inv: "bounded_tail_invar t"
  shows "bounded_tail_invar (bounded_tail_push t bs)"
    and "tail_capacity (bounded_tail_push t bs) = tail_capacity t"
    and "tail_contents (bounded_tail_push t bs) =
           take_last (tail_capacity t) (tail_contents t @ bs)"
    and "bt_truncated (bounded_tail_push t bs) \<longleftrightarrow>
           bt_truncated t \<or> tail_capacity t < length (tail_contents t @ bs)"
proof -
  let ?c = "length (bt_buffer t)" and ?p = "bounded_tail_push t bs"
  have len: "length (tail_contents t) = bt_len t" "bt_len t \<le> ?c" "0 < ?c"
    using inv tail_contents_length by (auto simp: bounded_tail_invar_def)
  consider (empty) "bs = []" | (big) "bs \<noteq> []" "?c \<le> length bs"
    | (full) "bs \<noteq> []" "length bs < ?c" "?c - bt_len t < length bs"
    | (room) "bs \<noteq> []" "length bs < ?c" "bt_len t + length bs \<le> ?c"
    using len by linarith
  then have "bounded_tail_invar ?p \<and> tail_capacity ?p = tail_capacity t \<and>
      tail_contents ?p = take_last (tail_capacity t) (tail_contents t @ bs) \<and>
      (bt_truncated ?p \<longleftrightarrow> bt_truncated t \<or> tail_capacity t < length (tail_contents t @ bs))"
  proof cases
    case empty
    with inv len show ?thesis
      by (simp add: bounded_tail_push_def tail_capacity_def take_last_all)
  next
    case big
    with inv len show ?thesis
      by (auto simp: bounded_tail_push_def Let_def tail_capacity_def bounded_tail_invar_def
          tail_contents_def take_last_def)
  next
    case full
    let ?d = "length bs - (?c - bt_len t)"
    let ?u = "t\<lparr>bt_start := (bt_start t + ?d) mod ?c, bt_len := bt_len t - ?d, bt_truncated := True\<rparr>"
    have d: "?d \<le> bt_len t"
      using full by linarith
    note u = discard_contents [OF inv d]
    have fits: "bt_len ?u + length bs \<le> length (bt_buffer ?u)"
      using full len d by auto
    have "?p = bounded_tail_write ?u bs"
      using full by (simp add: bounded_tail_push_def Let_def)
    with bounded_tail_write_contents [OF u(1) fits] bounded_tail_write_buffer(1) [OF u(1) fits]
      u(2) full len show ?thesis
      by (auto simp: tail_capacity_def take_last_def bounded_tail_write_frame add.commute)
  next
    case room
    then have "?p = bounded_tail_write t bs"
      by (simp add: bounded_tail_push_def Let_def)
    with bounded_tail_write_contents [OF inv room(3)] bounded_tail_write_buffer(1) [OF inv room(3)]
      room len show ?thesis
      by (auto simp: tail_capacity_def take_last_def bounded_tail_write_frame)
  qed
  then show "bounded_tail_invar ?p" "tail_capacity ?p = tail_capacity t"
    "tail_contents ?p = take_last (tail_capacity t) (tail_contents t @ bs)"
    "bt_truncated ?p \<longleftrightarrow> bt_truncated t \<or> tail_capacity t < length (tail_contents t @ bs)"
    by blast+
qed

text \<open>
  The contract of a bounded tail, and what it promises of a whole stream of chunks.
\<close>

locale bounded_tail_spec =
  fixes fresh :: "nat \<Rightarrow> 't"
    and push :: "'t \<Rightarrow> 'a list \<Rightarrow> 't"
    and contents :: "'t \<Rightarrow> 'a list"
    and capacity :: "'t \<Rightarrow> nat"
    and lossy :: "'t \<Rightarrow> bool"
    and invar :: "'t \<Rightarrow> bool"
  assumes fresh_invar: "0 < n \<Longrightarrow> invar (fresh n)"
    and fresh_contents: "contents (fresh n) = []"
    and fresh_capacity: "capacity (fresh n) = n"
    and fresh_lossy: "\<not> lossy (fresh n)"
    and push_invar: "invar t \<Longrightarrow> invar (push t xs)"
    and push_capacity: "invar t \<Longrightarrow> capacity (push t xs) = capacity t"
    and push_contents: "invar t \<Longrightarrow> contents (push t xs) = take_last (capacity t) (contents t @ xs)"
    and push_lossy: "invar t \<Longrightarrow>
      lossy (push t xs) \<longleftrightarrow> lossy t \<or> capacity t < length (contents t @ xs)"
begin

definition follows :: "nat \<Rightarrow> 'a list \<Rightarrow> 't \<Rightarrow> bool" where
  "follows n seen t \<longleftrightarrow>
     invar t \<and> capacity t = n \<and> contents t = take_last n seen \<and> (lossy t \<longleftrightarrow> n < length seen)"

lemma follows_fresh: "0 < n \<Longrightarrow> follows n [] (fresh n)"
  by (simp add: follows_def fresh_invar fresh_contents fresh_capacity fresh_lossy take_last_def)

lemma follows_push:
  assumes "follows n seen t"
  shows "follows n (seen @ xs) (push t xs)"
  using assms
  by (auto simp: follows_def push_invar push_capacity push_contents push_lossy
      take_last_append_take_last) (auto simp: take_last_def)

lemma follows_chunks:
  "follows n seen t \<Longrightarrow> follows n (seen @ concat chunks) (foldl push t chunks)"
proof (induction chunks arbitrary: seen t)
  case (Cons xs chunks)
  from Cons.IH [OF follows_push [OF Cons.prems]] show ?case
    by simp
qed simp

end

interpretation ring: bounded_tail_spec
  bounded_tail_new bounded_tail_push tail_contents tail_capacity bt_truncated bounded_tail_invar
  by unfold_locales
    (simp_all add: bounded_tail_push_contents, auto simp: bounded_tail_new_def bounded_tail_invar_def
      tail_contents_def tail_capacity_def)

lemma finish_follows:
  "ring.follows n seen t \<Longrightarrow>
   bounded_tail_finish t = \<lparr>ct_bytes = take_last n seen, ct_truncated = (n < length seen)\<rparr>"
  by (simp add: ring.follows_def bounded_tail_finish_def tail_contents_def)

section \<open>The reader loop as a specification\<close>

text \<open>
  What the operating system may answer: a polling loop is answered by \<open>poll\<close>, a reading one by
  \<open>read\<close> or an injected fault. Nothing is asked after an answer that ends the loop.
\<close>

fun ends_loop :: "bool \<times> os_answer \<Rightarrow> bool" where
  "ends_loop (cancelled, OsPoll (PollError e)) = True"
| "ends_loop (cancelled, OsRead (ReadError e)) = True"
| "ends_loop (cancelled, OsRead ReadEof) = True"
| "ends_loop (cancelled, OsFault e) = True"
| "ends_loop (cancelled, _) = cancelled"

fun answers_fit :: "drain_mode \<Rightarrow> (bool \<times> os_answer) list \<Rightarrow> bool" where
  "answers_fit mode [] = True"
| "answers_fit Polling ((c, OsPoll p) # rest) =
     (ends_loop (c, OsPoll p) \<or> answers_fit (if p = PollReady then Reading else Polling) rest)"
| "answers_fit Reading ((c, OsRead r) # rest) =
     (ends_loop (c, OsRead r) \<or> answers_fit (if r = ReadWouldBlock then Polling else Reading) rest)"
| "answers_fit Reading ((c, OsFault e) # rest) = True"
| "answers_fit mode ((c, _) # rest) = c"

fun answer_data :: "bool \<times> os_answer \<Rightarrow> string" where
  "answer_data (c, OsRead (ReadData bytes)) = bytes"
| "answer_data (c, _) = []"

fun loop_result :: "bool \<times> os_answer \<Rightarrow> captured_tail \<Rightarrow> string + captured_tail" where
  "loop_result (False, OsPoll (PollError e)) t = Err e"
| "loop_result (False, OsRead (ReadError e)) t = Err e"
| "loop_result (False, OsFault e) t = Err e"
| "loop_result (c, _) t = Ok t"

definition stream_before_end :: "(bool \<times> os_answer) list \<Rightarrow> string" where
  "stream_before_end answers = concat (map answer_data (takeWhile (Not \<circ> ends_loop) answers))"

fun drain_result ::
  "nat \<Rightarrow> string \<Rightarrow> (bool \<times> os_answer) list \<Rightarrow> (string + captured_tail) option" where
  "drain_result n all [] = None"
| "drain_result n all (a # _) =
     Some (loop_result a \<lparr>ct_bytes = take_last n all, ct_truncated = (n < length all)\<rparr>)"

lemma stream_before_end_Cons:
  "stream_before_end (a # rest) = (if ends_loop a then [] else answer_data a @ stream_before_end rest)"
  by (simp add: stream_before_end_def)

lemma drain_output_spec:
  assumes "ring.follows n seen t" and "answers_fit mode answers"
  shows "drain_output mode t answers =
    drain_result n (seen @ stream_before_end answers) (dropWhile (Not \<circ> ends_loop) answers)"
  using assms
proof (induction mode t answers arbitrary: seen rule: drain_output.induct)
  case (2 mode tail c a rest)
  note fin = finish_follows [OF "2.prems"(1)]
  show ?case
  proof (cases "\<exists>bytes. a = OsRead (ReadData bytes)")
    case True
    then obtain bytes where a: "a = OsRead (ReadData bytes)" ..
    with 2 fin a ring.follows_push [OF "2.prems"(1), of bytes] show ?thesis
      by (cases c; cases mode) (simp_all add: stream_before_end_Cons)
  next
    case False
    with 2 fin show ?thesis
      by (cases c; cases mode; cases "(c, a)" rule: ends_loop.cases)
        (auto simp: stream_before_end_Cons)
  qed
qed simp

section \<open>Lossy decoding and the Unicode encoding\<close>

text \<open>The UTF-8 encoding of a Unicode scalar value, the reference for \<open>utf8_step\<close>.\<close>

definition scalar_value :: "nat \<Rightarrow> bool" where
  "scalar_value u \<longleftrightarrow> u < 55296 \<or> 57344 \<le> u \<and> u < 1114112"

definition utf8_encode :: "nat \<Rightarrow> string" where
  "utf8_encode u = map char_of
     (if u < 128 then [u]
      else if u < 2048 then [192 + u div 64, 128 + u mod 64]
      else if u < 65536 then [224 + u div 4096, 128 + u div 64 mod 64, 128 + u mod 64]
      else [240 + u div 262144, 128 + u div 4096 mod 64, 128 + u div 64 mod 64, 128 + u mod 64])"

lemma byte_char_of: "n < 256 \<Longrightarrow> byte (char_of n) = n"
  by (simp add: byte_def)

lemma in_range_char_of: "n < 256 \<Longrightarrow> in_range lo hi (char_of n) \<longleftrightarrow> lo \<le> n \<and> n \<le> hi"
  by (simp add: in_range_def byte_char_of)

lemma utf8_tail_one:
  "utf8_tail seen 1 (c # cs) = (if is_continuation c then (True, Suc seen) else (False, seen))"
  "utf8_tail seen (Suc 0) (c # cs) =
     (if is_continuation c then (True, Suc seen) else (False, seen))"
  by simp_all

lemma utf8_tail_two:
  "utf8_tail seen 2 (c # d # cs) =
     (if is_continuation c
      then if is_continuation d then (True, Suc (Suc seen)) else (False, Suc seen)
      else (False, seen))"
  by (simp add: numeral_2_eq_2)

lemmas utf8_bytes = utf8_tail_one utf8_tail_two byte_char_of in_range_char_of is_continuation_def

lemma utf8_step_2:
  fixes a b :: nat
  assumes "2 \<le> a" "a < 32" "b < 64"
  shows "utf8_step (map char_of [192 + a, 128 + b] @ rest) = (True, 2)"
  using assms by (simp add: utf8_bytes utf8_second_def)

lemma utf8_step_3:
  fixes a b c :: nat
  assumes "a < 16" "b < 64" "c < 64" "a = 0 \<longrightarrow> 32 \<le> b" "a = 13 \<longrightarrow> b < 32"
  shows "utf8_step (map char_of [224 + a, 128 + b, 128 + c] @ rest) = (True, 3)"
proof -
  have "\<exists>lo hi. utf8_second (char_of (224 + a)) = Some (lo, hi, 1) \<and> lo \<le> 128 + b \<and> 128 + b \<le> hi"
    using assms by (auto simp: utf8_second_def utf8_bytes)
  then show ?thesis
    using assms by (auto simp: utf8_bytes)
qed

lemma utf8_step_4:
  fixes a b c d :: nat
  assumes "a \<le> 4" "b < 64" "c < 64" "d < 64" "a = 0 \<longrightarrow> 16 \<le> b" "a = 4 \<longrightarrow> b < 16"
  shows "utf8_step (map char_of [240 + a, 128 + b, 128 + c, 128 + d] @ rest) = (True, 4)"
proof -
  have "\<exists>lo hi. utf8_second (char_of (240 + a)) = Some (lo, hi, 2) \<and> lo \<le> 128 + b \<and> 128 + b \<le> hi"
    using assms by (auto simp: utf8_second_def utf8_bytes)
  then show ?thesis
    using assms by (auto simp: utf8_bytes)
qed

lemma base64_digits:
  fixes u :: nat
  shows "u = 64 * (u div 64) + u mod 64"
    and "u = 4096 * (u div 4096) + 64 * (u div 64 mod 64) + u mod 64"
    and "u = 262144 * (u div 262144) + 4096 * (u div 4096 mod 64) + 64 * (u div 64 mod 64) + u mod 64"
proof -
  have *: "n = 64 * (n div 64) + n mod 64" for n :: nat
    by simp
  have d: "u div 64 div 64 = u div 4096" "u div 4096 div 64 = u div 262144"
    by (simp_all add: div_mult2_eq [symmetric])
  show "u = 64 * (u div 64) + u mod 64"
    by (rule *)
  show two: "u = 4096 * (u div 4096) + 64 * (u div 64 mod 64) + u mod 64"
    using * [of u] * [of "u div 64"] unfolding d by linarith
  show "u = 262144 * (u div 262144) + 4096 * (u div 4096 mod 64) + 64 * (u div 64 mod 64) + u mod 64"
    using two * [of "u div 4096"] unfolding d by linarith
qed

lemma utf8_step_encode:
  assumes u: "scalar_value u"
  shows "utf8_step (utf8_encode u @ rest) = (True, length (utf8_encode u))"
proof -
  have m: "u mod 64 < 64" "u div 64 mod 64 < 64" "u div 4096 mod 64 < 64"
    by simp_all
  consider "u < 128" | "128 \<le> u" "u < 2048" | "2048 \<le> u" "u < 65536"
    | "65536 \<le> u" "u < 1114112"
    using u unfolding scalar_value_def by linarith
  then show ?thesis
  proof cases
    case 1
    then show ?thesis
      by (simp add: utf8_encode_def byte_char_of)
  next
    case 2
    then have "2 \<le> u div 64" "u div 64 < 32"
      using m base64_digits(1) [of u] by linarith+
    from utf8_step_2 [OF this m(1)] 2 show ?thesis
      by (simp only: utf8_encode_def) simp
  next
    case 3
    then have "u div 4096 < 16" "u div 4096 = 0 \<longrightarrow> 32 \<le> u div 64 mod 64"
      "u div 4096 = 13 \<longrightarrow> u div 64 mod 64 < 32"
      using m u base64_digits(2) [of u] unfolding scalar_value_def by linarith+
    from utf8_step_3 [OF this(1) m(2,1) this(2,3)] 3 show ?thesis
      by (simp only: utf8_encode_def) simp
  next
    case 4
    then have "u div 262144 \<le> 4" "u div 262144 = 0 \<longrightarrow> 16 \<le> u div 4096 mod 64"
      "u div 262144 = 4 \<longrightarrow> u div 4096 mod 64 < 16"
      using m base64_digits(3) [of u] by linarith+
    from utf8_step_4 [OF this(1) m(3,2,1) this(2,3)] 4 show ?thesis
      by (simp only: utf8_encode_def) simp
  qed
qed

lemma low_digit:
  fixes q r :: nat
  assumes "r < 64"
  shows "(64 * q + r) div 64 = q" "(64 * q + r) mod 64 = r"
  using assms by simp_all

lemma utf8_encode_2:
  fixes a b :: nat
  assumes "2 \<le> a" "a < 32" "b < 64"
  shows "utf8_encode (64 * a + b) = map char_of [192 + a, 128 + b]" "scalar_value (64 * a + b)"
proof -
  have "128 \<le> 64 * a + b" "64 * a + b < 2048"
    using assms by linarith+
  with assms show "utf8_encode (64 * a + b) = map char_of [192 + a, 128 + b]"
    "scalar_value (64 * a + b)"
    by (simp_all add: utf8_encode_def scalar_value_def)
qed

lemma utf8_encode_3:
  fixes a b c :: nat
  assumes "a < 16" "b < 64" "c < 64" "a = 0 \<longrightarrow> 32 \<le> b" "a = 13 \<longrightarrow> b < 32"
  defines "u \<equiv> 4096 * a + (64 * b + c)"
  shows "utf8_encode u = map char_of [224 + a, 128 + b, 128 + c]" "scalar_value u"
proof -
  have range: "2048 \<le> u" "u < 65536"
    using assms unfolding u_def by linarith+
  have eq: "u = 64 * (64 * a + b) + c" and "64 * b + c < 4096"
    using assms(2,3) by (simp_all add: u_def)
  then have "u div 4096 = a"
    by (simp add: u_def)
  moreover have "u div 64 = 64 * a + b" "u mod 64 = c"
    unfolding eq by (rule low_digit [OF assms(3)])+
  ultimately show "utf8_encode u = map char_of [224 + a, 128 + b, 128 + c]"
    using range assms by (simp add: utf8_encode_def)
  have "a \<le> 12 \<or> a = 13 \<or> 14 \<le> a"
    by linarith
  with assms show "scalar_value u"
    unfolding scalar_value_def u_def by auto
qed

lemma utf8_encode_4:
  fixes a b c d :: nat
  assumes "a \<le> 4" "b < 64" "c < 64" "d < 64" "a = 0 \<longrightarrow> 16 \<le> b" "a = 4 \<longrightarrow> b < 16"
  defines "u \<equiv> 262144 * a + (4096 * b + (64 * c + d))"
  shows "utf8_encode u = map char_of [240 + a, 128 + b, 128 + c, 128 + d]" "scalar_value u"
proof -
  have range: "65536 \<le> u" "u < 1114112"
    using assms unfolding u_def by linarith+
  have eq: "u = 64 * (4096 * a + 64 * b + c) + d" and eq': "u = 4096 * (64 * a + b) + (64 * c + d)"
    and "4096 * b + (64 * c + d) < 262144" "64 * c + d < 4096"
    using assms(2-4) by (simp_all add: u_def)
  then have "u div 4096 = 64 * a + b" "u div 262144 = a"
    by (simp_all add: u_def)
  moreover have "u div 64 = 4096 * a + 64 * b + c" "u mod 64 = d"
    unfolding eq by (rule low_digit [OF assms(4)])+
  moreover have "(4096 * a + 64 * b + c) mod 64 = c"
    using low_digit(2) [OF assms(3), of "64 * a + b"] by simp
  ultimately show "utf8_encode u = map char_of [240 + a, 128 + b, 128 + c, 128 + d]"
    using range assms by (simp add: utf8_encode_def)
  show "scalar_value u"
    using range unfolding scalar_value_def by linarith
qed

lemma char_of_byte: "char_of (byte c) = c"
  by (simp add: byte_def)

lemma utf8_step_decodes:
  assumes "utf8_step cs = (True, n)" "cs \<noteq> []"
  shows "\<exists>u. scalar_value u \<and> take n cs = utf8_encode u"
proof -
  obtain b rest where cs: "cs = b # rest"
    using assms(2) by (cases cs) auto
  show ?thesis
  proof (cases "byte b < 128")
    case True
    with assms cs have "scalar_value (byte b)" "take n cs = utf8_encode (byte b)"
      by (auto simp: scalar_value_def utf8_encode_def byte_def)
    then show ?thesis by blast
  next
    case False
    with assms cs obtain lo hi m c tl where second: "utf8_second b = Some (lo, hi, m)"
      and rest: "rest = c # tl" and c: "lo \<le> byte c" "byte c \<le> hi"
      and tail: "utf8_tail 2 m tl = (True, n)"
      by (auto simp: in_range_def split: option.splits list.splits if_splits prod.splits)
    let ?c = "byte c - 128"
    have lohi: "128 \<le> lo" "hi \<le> 191"
      using second by (auto simp: utf8_second_def split: if_splits)
    then have c': "128 \<le> byte c" "?c < 64"
      using c by auto
    consider (2) "m = 0" "194 \<le> byte b" "byte b \<le> 223"
      | (3) "m = 1" "224 \<le> byte b" "byte b \<le> 239"
        "byte b = 224 \<longrightarrow> lo = 160" "byte b = 237 \<longrightarrow> hi = 159"
      | (4) "m = 2" "240 \<le> byte b" "byte b \<le> 244"
        "byte b = 240 \<longrightarrow> lo = 144" "byte b = 244 \<longrightarrow> hi = 143"
      using second by (auto simp: utf8_second_def in_range_def split: if_splits)
    then show ?thesis
    proof cases
      case 2
      then have "2 \<le> byte b - 192" "byte b - 192 < 32" by auto
      note e = utf8_encode_2 [OF this c'(2)]
      have "take n cs = [b, c]" using tail 2 cs rest by simp
      with e 2 c' show ?thesis by (auto simp: char_of_byte intro!: exI)
    next
      case 3
      with tail obtain d ds where d: "tl = d # ds" "128 \<le> byte d" "byte d - 128 < 64" "n = 3"
        by (cases tl) (auto simp: utf8_tail_one is_continuation_def in_range_def split: if_splits)
      have "byte b - 224 < 16" "byte b - 224 = 0 \<longrightarrow> 32 \<le> ?c" "byte b - 224 = 13 \<longrightarrow> ?c < 32"
        using 3 c c' by auto
      note e = utf8_encode_3 [OF this(1) c'(2) d(3) this(2,3)]
      have "take n cs = [b, c, d]" using d cs rest by simp
      with e 3 c' d show ?thesis by (auto simp: char_of_byte intro!: exI)
    next
      case 4
      with tail obtain d f ds where d: "tl = d # f # ds" "128 \<le> byte d" "byte d - 128 < 64"
        "128 \<le> byte f" "byte f - 128 < 64" "n = 4"
        by (cases tl; cases "List.tl tl")
          (auto simp: numeral_2_eq_2 is_continuation_def in_range_def split: if_splits)
      have "byte b - 240 \<le> 4" "byte b - 240 = 0 \<longrightarrow> 16 \<le> ?c" "byte b - 240 = 4 \<longrightarrow> ?c < 16"
        using 4 c c' by auto
      note e = utf8_encode_4 [OF this(1) c'(2) d(3,5) this(2,3)]
      have "take n cs = [b, c, d, f]" using d cs rest by simp
      with e 4 c' d show ?thesis by (auto simp: char_of_byte intro!: exI)
    qed
  qed
qed

lemma from_utf8_lossy_encoded:
  "list_all scalar_value us \<Longrightarrow>
   from_utf8_lossy (concat (map utf8_encode us)) = concat (map utf8_encode us)"
proof (induction us)
  case Nil
  then show ?case
    by (simp add: from_utf8_lossy.simps)
next
  case (Cons u us)
  have "utf8_encode u \<noteq> []"
    by (simp add: utf8_encode_def)
  with Cons utf8_step_encode [of u "concat (map utf8_encode us)"] show ?case
    by (subst from_utf8_lossy.simps) simp
qed

lemma replacement_encoded: "replacement = utf8_encode 65533" "scalar_value 65533"
  by (simp_all add: replacement_def utf8_encode_def scalar_value_def)

lemma from_utf8_lossy_well_formed:
  "\<exists>us. list_all scalar_value us \<and> from_utf8_lossy cs = concat (map utf8_encode us)"
proof (induction cs rule: from_utf8_lossy.induct)
  case (1 cs)
  show ?case
  proof (cases "cs = []")
    case True
    then show ?thesis
      by (auto simp: from_utf8_lossy.simps intro: exI [of _ "[]"])
  next
    case False
    obtain valid n where step: "utf8_step cs = (valid, n)"
      by fastforce
    with 1 False obtain us where us: "list_all scalar_value us"
      "from_utf8_lossy (drop n cs) = concat (map utf8_encode us)"
      by metis
    obtain u where u: "scalar_value u" "(if valid then take n cs else replacement) = utf8_encode u"
      using utf8_step_decodes [of cs n] step False replacement_encoded by (cases valid) auto
    have "from_utf8_lossy cs = concat (map utf8_encode (u # us))"
      using False step us u by (subst from_utf8_lossy.simps) simp
    with us u show ?thesis
      by (intro exI [of _ "u # us"]) simp
  qed
qed

section \<open>Properties\<close>

text \<open>
  C32: The output reader is correct for every stream. Started on an empty buffer of a nonzero
  capacity and answered in the order it asks, \<open>drain_output\<close> stops at the first cancellation,
  end of file or error and nowhere else; when it succeeds the captured bytes are exactly the
  last \<open>limit\<close> bytes that were read before it stopped, and the truncation flag is set exactly
  when more than \<open>limit\<close> bytes were read. An error is returned unchanged.
\<close>

theorem drain_output_keeps_last_bytes:
  assumes "0 < limit" and "answers_fit Polling answers"
  shows "drain_output Polling (bounded_tail_new limit) answers =
    drain_result limit (stream_before_end answers) (dropWhile (Not \<circ> ends_loop) answers)"
  using drain_output_spec [OF ring.follows_fresh [OF assms(1)] assms(2)] by simp

theorem drain_output_keeps_last_bytes_witness:
  "drain_output Polling (bounded_tail_new 4)
     [(False, OsPoll PollReady), (False, OsRead (ReadData ''abc'')), (False, OsRead ReadInterrupted),
      (False, OsRead (ReadData ''de'')), (False, OsRead ReadWouldBlock), (False, OsPoll PollTimeout),
      (False, OsPoll PollReady), (False, OsRead (ReadData ''f'')), (False, OsRead ReadEof)] =
   Some (Inr \<lparr>ct_bytes = ''cdef'', ct_truncated = True\<rparr>)"
  by (subst drain_output_keeps_last_bytes) (simp_all add: stream_before_end_def take_last_def)

text \<open>
  C33: Converting captured bytes to text. Whatever bytes a task wrote, the reported tails are
  UTF-8 encodings of sequences of Unicode scalar values and the truncation flags are passed on;
  a stream that already is such an encoding is reported byte for byte.
\<close>

theorem task_output_is_text:
  "\<exists>us vs. list_all scalar_value us \<and> list_all scalar_value vs \<and>
     into_task_output c =
       \<lparr>to_stdout_tail = concat (map utf8_encode us), to_stderr_tail = concat (map utf8_encode vs),
        to_stdout_truncated = cs_truncated (co_stdout c),
        to_stderr_truncated = cs_truncated (co_stderr c)\<rparr> \<and>
     (\<forall>ws. list_all scalar_value ws \<and> cs_tail (co_stdout c) = concat (map utf8_encode ws) \<longrightarrow>
        to_stdout_tail (into_task_output c) = cs_tail (co_stdout c)) \<and>
     (\<forall>ws. list_all scalar_value ws \<and> cs_tail (co_stderr c) = concat (map utf8_encode ws) \<longrightarrow>
        to_stderr_tail (into_task_output c) = cs_tail (co_stderr c))"
proof -
  obtain us vs where "list_all scalar_value us" "list_all scalar_value vs"
    "from_utf8_lossy (cs_tail (co_stdout c)) = concat (map utf8_encode us)"
    "from_utf8_lossy (cs_tail (co_stderr c)) = concat (map utf8_encode vs)"
    using from_utf8_lossy_well_formed by metis
  moreover have "from_utf8_lossy tail = tail"
    if "list_all scalar_value ws" "tail = concat (map utf8_encode ws)" for ws tail
    using from_utf8_lossy_encoded [OF that(1)] that(2) by simp
  ultimately show ?thesis
    unfolding into_task_output_def by (simp, metis)
qed

theorem task_output_is_text_witness:
  "to_stdout_tail (into_task_output
     \<lparr>co_stdout = \<lparr>cs_tail = ''ok'', cs_truncated = True\<rparr>,
      co_stderr = \<lparr>cs_tail = [], cs_truncated = False\<rparr>\<rparr>) = ''ok''"
proof -
  have "list_all scalar_value [111, 107]" "''ok'' = concat (map utf8_encode [111, 107])"
    by (simp add: scalar_value_def) code_simp
  then show ?thesis
    using task_output_is_text
      [of "\<lparr>co_stdout = \<lparr>cs_tail = ''ok'', cs_truncated = True\<rparr>,
            co_stderr = \<lparr>cs_tail = [], cs_truncated = False\<rparr>\<rparr>"]
    by (metis captured_output.select_convs(1) captured_stream.select_convs(1))
qed

end
