(* ===== verification/Ordered_Map.thy ===== *)
theory Ordered_Map
  imports Prelude
begin

text \<open>
  \<open>BTreeMap\<close> and \<open>BTreeSet\<close> of the standard library: a map is the list of its entries in key
  order, a set the list of its elements in order. The interface \<open>lookup_map\<close> is what the
  sources rely on when they collect entries and refuse duplicates.
\<close>

type_synonym ('k, 'v) btree_map = "('k \<times> 'v) list"

definition btree_wf :: "('k :: linorder, 'v) btree_map \<Rightarrow> bool" where
  "btree_wf m \<longleftrightarrow> sorted_wrt (<) (map fst m)"

fun btree_insert :: "'k :: linorder \<Rightarrow> 'v \<Rightarrow> ('k, 'v) btree_map \<Rightarrow> ('k, 'v) btree_map" where
  "btree_insert k v [] = [(k, v)]"
| "btree_insert k v ((k', v') # m) =
     (if k < k' then (k, v) # (k', v') # m
      else if k = k' then (k, v) # m
      else (k', v') # btree_insert k v m)"

definition btree_keys :: "('k, 'v) btree_map \<Rightarrow> 'k list" where
  "btree_keys m = map fst m"

text \<open>\<open>collect::<BTreeSet<_>>\<close> and \<open>BTreeSet::difference\<close>.\<close>

definition btree_set :: "'k :: linorder list \<Rightarrow> 'k list" where
  "btree_set xs = sort (remdups xs)"

definition btree_difference :: "'k list \<Rightarrow> 'k list \<Rightarrow> 'k list" where
  "btree_difference a b = filter (\<lambda>x. x \<notin> set b) a"

text \<open>
  The loop that moves entries into a map and stops at the first key that is already there, with
  the map's operations as arguments.
\<close>

fun collect_unique ::
  "('m \<Rightarrow> 'k \<Rightarrow> 'v option) \<Rightarrow> ('k \<Rightarrow> 'v \<Rightarrow> 'm \<Rightarrow> 'm) \<Rightarrow> ('k \<Rightarrow> 'e) \<Rightarrow> 'm \<Rightarrow> ('k \<times> 'v) list \<Rightarrow> 'e + 'm" where
  "collect_unique get ins duplicate m [] = Ok m"
| "collect_unique get ins duplicate m ((k, v) # rest) =
     (if get m k \<noteq> None then Err (duplicate k)
      else collect_unique get ins duplicate (ins k v m) rest)"

section \<open>The interface\<close>

locale lookup_map =
  fixes get :: "'m \<Rightarrow> 'k \<Rightarrow> 'v option"
    and ins :: "'k \<Rightarrow> 'v \<Rightarrow> 'm \<Rightarrow> 'm"
    and keys :: "'m \<Rightarrow> 'k list"
  assumes get_ins: "get (ins k v m) k' = (if k' = k then Some v else get m k')"
    and set_keys: "set (keys m) = {k. get m k \<noteq> None}"
begin

lemma collect_total:
  "(\<exists>m'. collect_unique get ins duplicate m xs = Inr m') \<longleftrightarrow>
   distinct (map fst xs) \<and> (\<forall>k \<in> fst ` set xs. get m k = None)"
proof (induction xs arbitrary: m)
  case (Cons x xs)
  obtain k v where x: "x = (k, v)"
    by (cases x)
  show ?case
  proof (cases "get m k")
    case None
    then show ?thesis
      using Cons.IH [of "ins k v m"] by (auto simp: x get_ins)
  qed (auto simp: x)
qed simp

lemma collect_OkD:
  assumes "collect_unique get ins duplicate m xs = Inr m'"
  shows "distinct (map fst xs)" "k \<in> fst ` set xs \<Longrightarrow> get m k = None"
  using assms collect_total [of duplicate m xs] by auto

lemma get_collect:
  "collect_unique get ins duplicate m xs = Inr m' \<Longrightarrow>
   get m' k = (case map_of xs k of None \<Rightarrow> get m k | Some v \<Rightarrow> Some v)"
proof (induction xs arbitrary: m)
  case (Cons x xs)
  obtain k1 v1 where x: "x = (k1, v1)"
    by (cases x)
  with Cons.prems have rest: "collect_unique get ins duplicate (ins k1 v1 m) xs = Inr m'"
    by (auto split: if_splits)
  have "map_of xs k1 = None"
    using collect_OkD(1) [OF Cons.prems] x by (auto simp: map_of_eq_None_iff)
  then show ?case
    using Cons.IH [OF rest] x by (auto simp: get_ins split: option.splits)
qed simp

lemma keys_collect:
  assumes "collect_unique get ins duplicate m xs = Inr m'" "keys m = []"
  shows "set (keys m') = fst ` set xs"
proof -
  have "get m k = None" for k
    using set_keys [of m] assms(2) by auto
  then have "get m' k = map_of xs k" for k
    using get_collect [OF assms(1), of k] by (cases "map_of xs k") auto
  then show ?thesis
    by (auto simp: set_keys map_of_eq_None_iff)
qed

end

section \<open>The interface on the ordered map\<close>

lemma map_of_btree_insert:
  "map_of (btree_insert k v m) k' = (if k' = k then Some v else map_of m k')"
  by (induction k v m rule: btree_insert.induct) auto

lemma set_btree_insert_fst: "fst ` set (btree_insert k v m) = insert k (fst ` set m)"
  by (induction k v m rule: btree_insert.induct) auto

interpretation btree: lookup_map map_of btree_insert btree_keys
proof unfold_locales
  show "set (btree_keys m) = {k. map_of m k \<noteq> None}" for m :: "('k \<times> 'v) list"
    by (simp add: btree_keys_def map_of_eq_None_iff)
qed (simp add: map_of_btree_insert)

lemma btree_wf_Nil [simp]: "btree_wf []"
  by (simp add: btree_wf_def)

lemma btree_insert_wf [simp]: "btree_wf m \<Longrightarrow> btree_wf (btree_insert k v m)"
proof (induction k v m rule: btree_insert.induct)
  case (2 k v k' v' m)
  have "fst x \<in> insert k (fst ` set m)" if "x \<in> set (btree_insert k v m)" for x
    using that set_btree_insert_fst [of k v m] by blast
  with 2 show ?case
    by (auto simp: btree_wf_def) (metis image_iff insert_iff not_less_iff_gr_or_eq)+
qed (simp add: btree_wf_def)

lemma btree_collect_wf:
  "collect_unique map_of btree_insert duplicate m xs = Inr m' \<Longrightarrow> btree_wf m \<Longrightarrow> btree_wf m'"
  by (induction xs arbitrary: m) (auto split: if_splits)

lemma btree_insert_last:
  "btree_wf (m @ [(k, v)]) \<Longrightarrow> btree_insert k v m = m @ [(k, v)]"
  by (induction m) (auto simp: btree_wf_def)

lemma btree_wf_distinct: "btree_wf m \<Longrightarrow> distinct (map fst m)"
  by (simp add: btree_wf_def strict_sorted_iff)

lemma btree_collect_sorted:
  "btree_wf (m @ xs) \<Longrightarrow> collect_unique map_of btree_insert duplicate m xs = Inr (m @ xs)"
proof (induction xs arbitrary: m)
  case (Cons x xs)
  obtain k v where x: "x = (k, v)"
    by (cases x)
  have "map_of m k = None"
    using btree_wf_distinct [OF Cons.prems] x by (auto simp: map_of_eq_None_iff)
  moreover have "btree_wf (m @ [(k, v)])"
    using Cons.prems x by (auto simp: btree_wf_def sorted_wrt_append)
  ultimately show ?case
    using Cons.IH [of "m @ [(k, v)]"] Cons.prems x by (simp add: btree_insert_last)
qed simp

lemma set_btree_set [simp]: "set (btree_set xs) = set xs"
  by (simp add: btree_set_def)

lemma btree_difference_Nil: "btree_difference a b = [] \<longleftrightarrow> set a \<subseteq> set b"
  by (auto simp: btree_difference_def filter_empty_conv)

end
