(* ===== verification/Frame_Codec.thy ===== *)
theory Frame_Codec
  imports Output_Capture Ordered_Map
begin

text \<open>
  The bounded length-prefixed JSON frames of \<open>adapters/inbound/local_uds/codec.rs\<close>. The
  tokenizer, the printer and the derived conversions of \<open>serde_json\<close> are arguments, gathered in
  \<open>serde\<close>; the visitor that refuses duplicate keys, the length checks and the frame reader are
  modelled. A reader is the bytes it will still deliver and the way it ends. Floating-point
  numbers are a type parameter.
\<close>

section \<open>JSON values\<close>

text \<open>
  What the deserializer hands to the visitor, in the order of the text, and \<open>serde_json::Value\<close>.
  The deserializer of a text never calls \<open>visit_some\<close> or \<open>visit_none\<close>.
\<close>

datatype 'f raw_json =
    RawNull
  | RawBool bool
  | RawI64 i64
  | RawU64 u64
  | RawF64 'f
  | RawString string
  | RawArray "'f raw_json list"
  | RawObject "(string \<times> 'f raw_json) list"

datatype 'f json_number = PosInt u64 | NegInt i64 | Float 'f

datatype 'f json =
    JNull
  | JBool bool
  | JNumber "'f json_number"
  | JString string
  | JArray "'f json list"
  | JObject "(string, 'f json) btree_map"

definition number_from_i64 :: "i64 \<Rightarrow> 'f json_number" where
  "number_from_i64 i = (if 0 \<le> i then PosInt (word_of_int i) else NegInt i)"

text \<open>\<open>UniqueValueVisitor\<close>; \<open>None\<close> is an error of the deserializer.\<close>

fun unique_value :: "('f \<Rightarrow> bool) \<Rightarrow> 'f raw_json \<Rightarrow> 'f json option"
  and visit_seq :: "('f \<Rightarrow> bool) \<Rightarrow> 'f json list \<Rightarrow> 'f raw_json list \<Rightarrow> 'f json option"
  and visit_map :: "('f \<Rightarrow> bool) \<Rightarrow> (string, 'f json) btree_map \<Rightarrow> (string \<times> 'f raw_json) list \<Rightarrow>
    'f json option" where
  "unique_value finite_f RawNull = Some JNull"
| "unique_value finite_f (RawBool b) = Some (JBool b)"
| "unique_value finite_f (RawI64 i) = Some (JNumber (number_from_i64 i))"
| "unique_value finite_f (RawU64 u) = Some (JNumber (PosInt u))"
| "unique_value finite_f (RawF64 x) = (if finite_f x then Some (JNumber (Float x)) else None)"
| "unique_value finite_f (RawString s) = Some (JString s)"
| "unique_value finite_f (RawArray xs) = visit_seq finite_f [] xs"
| "unique_value finite_f (RawObject ms) = visit_map finite_f [] ms"
| "visit_seq finite_f values [] = Some (JArray values)"
| "visit_seq finite_f values (x # rest) =
     (case unique_value finite_f x of
        None \<Rightarrow> None
      | Some v \<Rightarrow> visit_seq finite_f (values @ [v]) rest)"
| "visit_map finite_f values [] = Some (JObject values)"
| "visit_map finite_f values ((key, x) # rest) =
     (if map_of values key \<noteq> None then None
      else case unique_value finite_f x of
        None \<Rightarrow> None
      | Some v \<Rightarrow> visit_map finite_f (btree_insert key v values) rest)"

fun is_object :: "'f json \<Rightarrow> bool" where
  "is_object (JObject _) = True"
| "is_object _ = False"

section \<open>Frames\<close>

definition MAX_FRAME_BYTES :: nat where
  "MAX_FRAME_BYTES = 1048576"

definition LENGTH_PREFIX_BYTES :: nat where
  "LENGTH_PREFIX_BYTES = 4"

datatype io_error_kind = UnexpectedEof | OtherIo nat

datatype frame_error =
    FrameIo io_error_kind
  | ZeroLength
  | TooLarge nat nat
  | InvalidUtf8
  | InvalidJson
  | NonObject

definition validate_length :: "nat \<Rightarrow> frame_error + unit" where
  "validate_length n =
     (if n = 0 then Err ZeroLength
      else if MAX_FRAME_BYTES < n then Err (TooLarge n MAX_FRAME_BYTES)
      else Ok ())"

text \<open>The deserializer and serializer of \<open>serde_json\<close>, for messages of type \<open>'m\<close>.\<close>

record ('f, 'm) serde =
  sd_finite :: "'f \<Rightarrow> bool"
  sd_tokens :: "string \<Rightarrow> 'f raw_json option"
  sd_from_value :: "'f json \<Rightarrow> 'm option"
  sd_to_value :: "'m \<Rightarrow> 'f json option"
  sd_to_vec :: "'f json \<Rightarrow> string option"

definition parse_without_duplicate_keys :: "('f, 'm) serde \<Rightarrow> string \<Rightarrow> frame_error + 'f json" where
  "parse_without_duplicate_keys sd text =
     (case sd_tokens sd text of
        None \<Rightarrow> Err InvalidJson
      | Some raw \<Rightarrow> ok_or InvalidJson (unique_value (sd_finite sd) raw))"

text \<open>\<open>std::str::from_utf8\<close>: every step of the scan is well formed.\<close>

function is_utf8 :: "string \<Rightarrow> bool" where
  "is_utf8 cs = (if cs = [] then True else fst (utf8_step cs) \<and> is_utf8 (drop (snd (utf8_step cs)) cs))"
  by pat_completeness auto
termination
proof (relation "measure length", goal_cases)
  case (2 cs)
  then show ?case
    using utf8_step_progress [of cs] by (cases cs) auto
qed simp

declare is_utf8.simps [simp del]

definition decode_json :: "('f, 'm) serde \<Rightarrow> string \<Rightarrow> frame_error + 'm" where
  "decode_json sd payload =
     and_then (validate_length (length payload)) (\<lambda>_.
     and_then (if is_utf8 payload then Ok payload else Err InvalidUtf8) (\<lambda>text.
     and_then (parse_without_duplicate_keys sd text) (\<lambda>value.
       if \<not> is_object value then Err NonObject
       else ok_or InvalidJson (sd_from_value sd value))))"

text \<open>\<open>u32::to_be_bytes\<close> and \<open>from_be_bytes\<close>.\<close>

definition to_be_bytes :: "u32 \<Rightarrow> string" where
  "to_be_bytes w = map (\<lambda>i. char_of (unat w div 256 ^ i mod 256)) [3, 2, 1, 0]"

definition from_be_bytes :: "string \<Rightarrow> u32" where
  "from_be_bytes bs = of_nat (foldl (\<lambda>acc c. acc * 256 + byte c) 0 bs)"

definition encode_json_frame :: "('f, 'm) serde \<Rightarrow> 'm \<Rightarrow> frame_error + string" where
  "encode_json_frame sd message =
     and_then (ok_or InvalidJson (sd_to_value sd message)) (\<lambda>value.
       if \<not> is_object value then Err NonObject
       else and_then (ok_or InvalidJson (sd_to_vec sd value)) (\<lambda>payload.
         and_then (validate_length (length payload)) (\<lambda>_.
           Ok (to_be_bytes (of_nat (length payload)) @ payload))))"

datatype stream_end = EndOfFile | Broken io_error_kind

record reader =
  rd_bytes :: string
  rd_end :: stream_end

text \<open>
  \<open>read\<close> of one byte, \<open>None\<close> at the end of the stream, and \<open>read_exact\<close>; a stream that ends
  early has consumed what was left.
\<close>

definition read_byte :: "reader \<Rightarrow> (frame_error + char option) \<times> reader" where
  "read_byte r =
     (case rd_bytes r of
        c # cs \<Rightarrow> (Ok (Some c), r\<lparr>rd_bytes := cs\<rparr>)
      | [] \<Rightarrow> (case rd_end r of
                 EndOfFile \<Rightarrow> (Ok None, r)
               | Broken k \<Rightarrow> (Err (FrameIo k), r)))"

definition read_exact :: "nat \<Rightarrow> reader \<Rightarrow> (frame_error + string) \<times> reader" where
  "read_exact n r =
     (if n \<le> length (rd_bytes r)
      then (Ok (take n (rd_bytes r)), r\<lparr>rd_bytes := drop n (rd_bytes r)\<rparr>)
      else (Err (FrameIo (case rd_end r of EndOfFile \<Rightarrow> UnexpectedEof | Broken k \<Rightarrow> k)),
            r\<lparr>rd_bytes := []\<rparr>))"

definition read_frame_or_eof :: "reader \<Rightarrow> (frame_error + string option) \<times> reader" where
  "read_frame_or_eof r =
     (case read_byte r of
        (Inl e, r1) \<Rightarrow> (Err e, r1)
      | (Inr None, r1) \<Rightarrow> (Ok None, r1)
      | (Inr (Some first), r1) \<Rightarrow>
          (case read_exact (LENGTH_PREFIX_BYTES - 1) r1 of
             (Inl e, r2) \<Rightarrow> (Err e, r2)
           | (Inr rest, r2) \<Rightarrow>
               let n = unat (from_be_bytes (first # rest)) in
               (case validate_length n of
                  Inl e \<Rightarrow> (Err e, r2)
                | Inr _ \<Rightarrow>
                    (case read_exact n r2 of
                       (Inl e, r3) \<Rightarrow> (Err e, r3)
                     | (Inr payload, r3) \<Rightarrow> (Ok (Some payload), r3)))))"

definition read_frame :: "reader \<Rightarrow> (frame_error + string) \<times> reader" where
  "read_frame r =
     (case read_frame_or_eof r of
        (result, r') \<Rightarrow> (and_then result (ok_or (FrameIo UnexpectedEof)), r'))"

definition read_json_frame :: "('f, 'm) serde \<Rightarrow> reader \<Rightarrow> (frame_error + 'm) \<times> reader" where
  "read_json_frame sd r =
     (case read_frame r of (result, r') \<Rightarrow> (and_then result (decode_json sd), r'))"

section \<open>The visitor\<close>

text \<open>A value as \<open>serde_json\<close> builds it, and what its printed text is tokenized to.\<close>

fun json_wf :: "('f \<Rightarrow> bool) \<Rightarrow> 'f json \<Rightarrow> bool" where
  "json_wf finite_f (JNumber (NegInt i)) = (i < 0)"
| "json_wf finite_f (JNumber (Float x)) = finite_f x"
| "json_wf finite_f (JArray xs) = list_all (json_wf finite_f) xs"
| "json_wf finite_f (JObject ms) = (btree_wf ms \<and> list_all (\<lambda>(k, v). json_wf finite_f v) ms)"
| "json_wf finite_f _ = True"

fun raw_of :: "'f json \<Rightarrow> 'f raw_json" where
  "raw_of JNull = RawNull"
| "raw_of (JBool b) = RawBool b"
| "raw_of (JNumber (PosInt u)) = RawU64 u"
| "raw_of (JNumber (NegInt i)) = RawI64 i"
| "raw_of (JNumber (Float x)) = RawF64 x"
| "raw_of (JString s) = RawString s"
| "raw_of (JArray xs) = RawArray (map raw_of xs)"
| "raw_of (JObject ms) = RawObject (map (\<lambda>(k, v). (k, raw_of v)) ms)"

lemma visit_seq_raw:
  "(\<And>x. x \<in> set xs \<Longrightarrow> unique_value finite_f (raw_of x) = Some x) \<Longrightarrow>
   visit_seq finite_f vs (map raw_of xs) = Some (JArray (vs @ xs))"
  by (induction xs arbitrary: vs) auto

lemma visit_map_raw:
  "(\<And>k v. (k, v) \<in> set ms \<Longrightarrow> unique_value finite_f (raw_of v) = Some v) \<Longrightarrow> btree_wf (vs @ ms) \<Longrightarrow>
   visit_map finite_f vs (map (\<lambda>(k, v). (k, raw_of v)) ms) = Some (JObject (vs @ ms))"
proof (induction ms arbitrary: vs)
  case (Cons m ms)
  obtain k v where m: "m = (k, v)"
    by (cases m)
  have "map_of vs k = None"
    using btree_wf_distinct [OF Cons.prems(2)] m by (auto simp: map_of_eq_None_iff)
  moreover have "btree_wf (vs @ [(k, v)])"
    using Cons.prems(2) m by (auto simp: btree_wf_def sorted_wrt_append)
  moreover have "unique_value finite_f (raw_of v) = Some v"
    using Cons.prems(1) [of k v] m by simp
  moreover have "visit_map finite_f (vs @ [(k, v)]) (map (\<lambda>(k, v). (k, raw_of v)) ms) =
      Some (JObject ((vs @ [(k, v)]) @ ms))"
    by (rule Cons.IH) (use Cons.prems m in \<open>auto intro: Cons.prems(1) [OF list.set_intros(2)]\<close>)
  ultimately show ?case
    using m by (simp add: btree_insert_last)
qed simp

lemma unique_value_raw_of: "json_wf finite_f v \<Longrightarrow> unique_value finite_f (raw_of v) = Some v"
proof (induction v)
  case (JNumber n)
  then show ?case
    by (cases n) (auto simp: number_from_i64_def)
next
  case (JArray xs)
  then show ?case
    using visit_seq_raw [of xs finite_f "[]"] by (auto simp: list_all_iff)
next
  case (JObject ms)
  have "unique_value finite_f (raw_of v) = Some v" if "(k, v) \<in> set ms" for k v
    using JObject that by (auto simp: list_all_iff)
  then show ?case
    using visit_map_raw [of ms finite_f "[]"] JObject.prems by auto
qed auto

text \<open>No accepted value comes from a text with a repeated key, at any depth.\<close>

fun keys_unique :: "'f raw_json \<Rightarrow> bool" where
  "keys_unique (RawArray xs) = list_all keys_unique xs"
| "keys_unique (RawObject ms) = (distinct (map fst ms) \<and> list_all (\<lambda>(k, x). keys_unique x) ms)"
| "keys_unique _ = True"

lemma accepted_keys_unique_all:
  shows "\<forall>v. unique_value finite_f x = Some v \<longrightarrow> keys_unique x"
    and "\<forall>v. visit_seq finite_f vs xs = Some v \<longrightarrow> list_all keys_unique xs"
    and "\<forall>v. visit_map finite_f ms rs = Some v \<longrightarrow>
      distinct (map fst rs) \<and> (\<forall>k \<in> fst ` set rs. map_of ms k = None) \<and>
      list_all (\<lambda>(k, x). keys_unique x) rs"
proof (induction finite_f x and finite_f vs xs and finite_f ms rs
    rule: unique_value_visit_seq_visit_map.induct)
  case (12 finite_f vals key x rest)
  show ?case
  proof (intro allI impI)
    fix v
    assume "visit_map finite_f vals ((key, x) # rest) = Some v"
    then obtain w where w: "map_of vals key = None" "unique_value finite_f x = Some w"
        "visit_map finite_f (btree_insert key w vals) rest = Some v"
      by (auto split: if_splits option.splits)
    with 12 have "keys_unique x" "distinct (map fst rest)" "list_all (\<lambda>(k, x). keys_unique x) rest"
        "k \<in> fst ` set rest \<Longrightarrow> k \<noteq> key \<and> map_of vals k = None" for k
      by (auto simp: map_of_btree_insert split: if_splits)
    with w(1) show "distinct (map fst ((key, x) # rest)) \<and>
        (\<forall>k \<in> fst ` set ((key, x) # rest). map_of vals k = None) \<and>
        list_all (\<lambda>(k, x). keys_unique x) ((key, x) # rest)"
      by auto
  qed
qed (auto split: if_splits option.splits)

section \<open>Frames come back as they were written\<close>

lemma to_be_bytes_length [simp]: "length (to_be_bytes w) = LENGTH_PREFIX_BYTES"
  by (simp add: to_be_bytes_def LENGTH_PREFIX_BYTES_def)

lemma be_digits:
  fixes n :: nat
  assumes "n < 256 ^ 4"
  shows "((n div 256 ^ 3 mod 256 * 256 + n div 256 ^ 2 mod 256) * 256 + n div 256 mod 256) * 256
    + n mod 256 = n"
proof -
  have "n div 256 ^ 3 < 256"
    using assms by (simp add: div_less_iff_less_mult)
  then have "n div 256 ^ 3 mod 256 * 256 + n div 256 ^ 2 mod 256 = n div 256 ^ 2"
    by (simp add: div_mult2_eq [of n 65536 256, simplified])
  moreover have "n div 256 ^ 2 * 256 + n div 256 mod 256 = n div 256"
    by (simp add: div_mult2_eq [of n 256 256, simplified])
  ultimately show ?thesis
    by simp
qed

lemma be_fold:
  fixes n :: nat
  assumes "n < 256 ^ 4"
  shows "foldl (\<lambda>acc c. acc * 256 + byte c) 0 (map (\<lambda>i. char_of (n div 256 ^ i mod 256)) [3, 2, 1, 0]) = n"
proof -
  have "foldl (\<lambda>acc c. acc * 256 + byte c) 0 (map (\<lambda>i. char_of (n div 256 ^ i mod 256)) [3, 2, 1, 0]) =
    ((n div 256 ^ 3 mod 256 * 256 + n div 256 ^ 2 mod 256) * 256 + n div 256 mod 256) * 256 + n mod 256"
    by (simp add: byte_def)
  also have "\<dots> = n"
    by (rule be_digits [OF assms])
  finally show ?thesis .
qed

lemma from_to_be_bytes: "from_be_bytes (to_be_bytes w) = w"
proof -
  have "unat w < 256 ^ 4"
    using unsigned_less [of w, where ?'a = nat] by simp
  then show ?thesis
    unfolding from_be_bytes_def to_be_bytes_def by (simp only: be_fold) simp
qed

lemma validate_length_Ok: "validate_length n = Inr () \<longleftrightarrow> 0 < n \<and> n \<le> MAX_FRAME_BYTES"
  by (auto simp: validate_length_def)

lemma unat_frame_length: "n \<le> MAX_FRAME_BYTES \<Longrightarrow> unat (of_nat n :: u32) = n"
  by (simp add: unat_of_nat MAX_FRAME_BYTES_def)

lemma prefix_bytes:
  obtains c bs where "to_be_bytes w = c # bs" "length bs = LENGTH_PREFIX_BYTES - 1"
  by (cases "to_be_bytes w") (use to_be_bytes_length [of w] in \<open>auto simp: LENGTH_PREFIX_BYTES_def\<close>)

lemma read_frame_complete:
  assumes "0 < length p" "length p \<le> MAX_FRAME_BYTES"
  shows "read_frame_or_eof \<lparr>rd_bytes = to_be_bytes (of_nat (length p)) @ p @ rest, rd_end = e\<rparr> =
    (Inr (Some p), \<lparr>rd_bytes = rest, rd_end = e\<rparr>)"
proof -
  obtain c bs where b: "to_be_bytes (of_nat (length p)) = c # bs" "length bs = LENGTH_PREFIX_BYTES - 1"
    by (rule prefix_bytes)
  have "unat (from_be_bytes (c # bs)) = length p"
    using from_to_be_bytes [of "of_nat (length p)"] b(1) assms(2) by (simp add: unat_frame_length)
  moreover have "validate_length (length p) = Inr ()"
    using assms by (simp add: validate_length_Ok)
  ultimately show ?thesis
    using b by (simp add: read_frame_or_eof_def read_byte_def read_exact_def)
qed

lemma read_frame_truncated:
  assumes "0 < length p" "length p \<le> MAX_FRAME_BYTES" "0 < n" "n < length p + LENGTH_PREFIX_BYTES"
  shows "read_frame_or_eof \<lparr>rd_bytes = take n (to_be_bytes (of_nat (length p)) @ p), rd_end = EndOfFile\<rparr> =
    (Inl (FrameIo UnexpectedEof), \<lparr>rd_bytes = [], rd_end = EndOfFile\<rparr>)"
proof -
  obtain c bs where b: "to_be_bytes (of_nat (length p)) = c # bs" "length bs = LENGTH_PREFIX_BYTES - 1"
    by (rule prefix_bytes)
  have n: "unat (from_be_bytes (c # bs)) = length p"
    using from_to_be_bytes [of "of_nat (length p)"] b(1) assms(2) by (simp add: unat_frame_length)
  have v: "validate_length (length p) = Inr ()"
    using assms by (simp add: validate_length_Ok)
  obtain k where k: "n = Suc k"
    using assms(3) by (cases n) auto
  show ?thesis
  proof (cases "length bs \<le> k")
    case True
    then have "take (length bs) (take k (bs @ p)) = bs" "drop (length bs) (take k (bs @ p)) = take (k - length bs) p"
      by (simp_all add: drop_take)
    with True k b n v assms(4) show ?thesis
      by (simp add: read_frame_or_eof_def read_byte_def read_exact_def LENGTH_PREFIX_BYTES_def Let_def)
  next
    case False
    with k b show ?thesis
      by (simp add: read_frame_or_eof_def read_byte_def read_exact_def)
  qed
qed

text \<open>What \<open>serde_json\<close> documents: conversions and text forms come back as they were.\<close>

definition serde_laws :: "('f, 'm) serde \<Rightarrow> bool" where
  "serde_laws sd \<longleftrightarrow>
     (\<forall>m v. sd_to_value sd m = Some v \<longrightarrow> json_wf (sd_finite sd) v \<and> sd_from_value sd v = Some m) \<and>
     (\<forall>v t. sd_to_vec sd v = Some t \<longrightarrow> is_utf8 t \<and> sd_tokens sd t = Some (raw_of v))"

lemma encode_json_frame_Ok:
  assumes "serde_laws sd" "encode_json_frame sd m = Inr frame"
  obtains p where "frame = to_be_bytes (of_nat (length p)) @ p" "0 < length p"
    "length p \<le> MAX_FRAME_BYTES" "decode_json sd p = Inr m"
proof -
  obtain v p where v: "sd_to_value sd m = Some v" "is_object v" "sd_to_vec sd v = Some p"
      "validate_length (length p) = Inr ()" "frame = to_be_bytes (of_nat (length p)) @ p"
    using assms(2) by (auto simp: encode_json_frame_def result_simps split: if_splits)
  have "is_utf8 p" "sd_tokens sd p = Some (raw_of v)" "json_wf (sd_finite sd) v" "sd_from_value sd v = Some m"
    using assms(1) v by (auto simp: serde_laws_def)
  then have "decode_json sd p = Inr m"
    using v by (simp add: decode_json_def parse_without_duplicate_keys_def unique_value_raw_of)
  with v that show thesis
    by (simp add: validate_length_Ok)
qed


text \<open>A service whose only message is one flag.\<close>

definition flag_value :: "bool \<Rightarrow> unit json" where
  "flag_value b = JObject [(''ok'', JBool b)]"

definition flag_text :: "bool \<Rightarrow> string" where
  "flag_text b = (if b then ''{1}'' else ''{0}'')"

definition flag_serde :: "(unit, bool) serde" where
  "flag_serde =
     \<lparr>sd_finite = (\<lambda>_. True),
      sd_tokens = (\<lambda>t. if t = flag_text True then Some (raw_of (flag_value True))
        else if t = flag_text False then Some (raw_of (flag_value False)) else None),
      sd_from_value = (\<lambda>v. if v = flag_value True then Some True
        else if v = flag_value False then Some False else None),
      sd_to_value = (\<lambda>b. Some (flag_value b)),
      sd_to_vec = (\<lambda>v. if v = flag_value True then Some (flag_text True)
        else if v = flag_value False then Some (flag_text False) else None)\<rparr>"

lemma flag_serde_laws: "serde_laws flag_serde"
proof -
  have "is_utf8 (flag_text b)" for b
    by (simp add: flag_text_def is_utf8.simps byte_def)
  then show ?thesis
    by (auto simp: serde_laws_def flag_serde_def flag_value_def btree_wf_def split: if_splits)
      (auto simp: flag_text_def)
qed


end
