(* ===== verification/Bundle.thy ===== *)
theory Bundle
  imports Capsule Frame_Codec
begin

text \<open>
  The signed Bundle manifest and Profile of \<open>daemon/src/adapters/outbound/bundle_catalog.rs\<close> and
  their validation. SHA-256 and the version parser are arguments; the archive, the signature and
  the catalog on disk are input and output. The Korean texts of the manifest errors are the
  constructors of \<open>manifest_error\<close>.
\<close>

section \<open>Manifest and Profile\<close>

record bundle_runtime_reference =
  br_package_id :: string
  br_digest :: sha256_digest

record bundle_manifest =
  bm_schema_version :: string
  bm_name :: string
  bm_version :: string
  bm_signing_key_id :: string
  bm_runtime :: bundle_runtime_reference
  bm_profile_digest :: sha256_digest

record bundle_resource_policy =
  bp_limits :: wire_resource_limits
  bp_output :: wire_output_limits

record bundle_input =
  bi_name :: string
  bi_kind :: string
  bi_required :: bool
  bi_allowed_values :: "i64 list option"
  bi_minimum :: "i64 option"
  bi_maximum :: "i64 option"

record bundle_output =
  bo_name :: string
  bo_file_name :: string
  bo_media_type :: string
  bo_maximum_bytes :: u64

datatype input_value_kind = KindString | KindInt64 | KindBoolean

datatype bundle_profile_argument =
    ArgLiteral string
  | ArgInputPath string
  | ArgInputValue input_value_kind string
  | ArgOutputPath string

record bundle_profile =
  bf_schema_version :: string
  bf_name :: string
  bf_version :: string
  bf_inputs :: "bundle_input list"
  bf_output :: bundle_output
  bf_argv :: "bundle_profile_argument list"
  bf_policy :: bundle_resource_policy
  bf_allowed_overrides :: "string list"

record installed_bundle =
  ib_digest :: sha256_digest
  ib_name :: string
  ib_version :: string
  ib_runtime_package_digest :: sha256_digest
  ib_runtime_package_id :: string

record bundle_inspection =
  in_installed :: installed_bundle
  in_manifest :: bundle_manifest
  in_profile :: bundle_profile

section \<open>Validation\<close>

datatype manifest_error =
    BundleSchemaUnsupported
  | BundleNameInvalid
  | BundleVersionNotSemver
  | BundleVersionNotCanonical
  | SigningKeyIdInvalid
  | PackageIdInvalid
  | ProfileDigestMismatch
  | ProfileIdentityMismatch
  | InputCountInvalid
  | SlotNameInvalid
  | InputNotUniqueOrRequired
  | InputKindUnsupported
  | InputBoundsNotAllowed
  | Int64ContractInvalid
  | LocalInputCountInvalid
  | OutputFileNameInvalid
  | OutputContractInvalid
  | ArgvCountInvalid
  | ArgvLiteralInvalid
  | ArgvInputInvalid
  | ArgvOutputInvalid
  | OverrideCountInvalid
  | OverrideFieldInvalid
  | PolicyInvalid policy_error

definition BUNDLE_SCHEMA :: string where
  "BUNDLE_SCHEMA = ''taskcage.bundle/v0alpha1''"

definition PROFILE_SCHEMA :: string where
  "PROFILE_SCHEMA = ''taskcage.profile/v0alpha1''"

definition validate_identity ::
  "(string \<Rightarrow> semver_version option) \<Rightarrow> string \<Rightarrow> string \<Rightarrow> manifest_error + unit" where
  "validate_identity parse name version =
     (if \<not> is_valid_capsule_name name then Err BundleNameInvalid
      else and_then (ok_or BundleVersionNotSemver (parse version)) (\<lambda>parsed.
        if sv_text parsed \<noteq> version \<or> \<not> sv_pre_empty parsed \<or> \<not> sv_build_empty parsed
        then Err BundleVersionNotCanonical else Ok ()))"

text \<open>\<open>bytes().enumerate().all\<close> with one test for the first byte and one for the others.\<close>

fun first_and_rest :: "(char \<Rightarrow> bool) \<Rightarrow> (char \<Rightarrow> bool) \<Rightarrow> string \<Rightarrow> bool" where
  "first_and_rest P Q [] = True"
| "first_and_rest P Q (c # cs) = (P c \<and> list_all Q cs)"

definition validate_key_id :: "string \<Rightarrow> manifest_error + unit" where
  "validate_key_id value =
     (if value = [] \<or> 64 < length value \<or>
         \<not> first_and_rest is_ascii_alphanumeric
             (\<lambda>c. is_ascii_alphanumeric c \<or> c = CHR ''.'' \<or> c = CHR ''_'' \<or> c = CHR ''-'') value
      then Err SigningKeyIdInvalid else Ok ())"

definition validate_slot :: "string \<Rightarrow> manifest_error + unit" where
  "validate_slot value =
     (if value = [] \<or> 64 < length value \<or>
         \<not> first_and_rest is_ascii_lowercase
             (\<lambda>c. is_ascii_lowercase c \<or> is_ascii_digit c \<or> c = CHR ''_'' \<or> c = CHR ''-'') value
      then Err SlotNameInvalid else Ok ())"

definition validate_relative_filename :: "string \<Rightarrow> manifest_error + unit" where
  "validate_relative_filename value =
     (if value = [] \<or> 255 < length value \<or> CHR ''/'' \<in> set value \<or> backslash \<in> set value \<or>
         value = ''.'' \<or> value = ''..''
      then Err OutputFileNameInvalid else Ok ())"

text \<open>\<open>windows(2).all\<close>: strictly ascending.\<close>

fun ascending :: "i64 list \<Rightarrow> bool" where
  "ascending (x # y # rest) = (x < y \<and> ascending (y # rest))"
| "ascending _ = True"

definition validate_input_schema :: "bundle_input \<Rightarrow> manifest_error + unit" where
  "validate_input_schema input =
     (if bi_kind input \<noteq> ''INT64'' then
        (if bi_allowed_values input \<noteq> None \<or> bi_minimum input \<noteq> None \<or> bi_maximum input \<noteq> None
         then Err InputBoundsNotAllowed else Ok ())
      else case (bi_allowed_values input, bi_minimum input, bi_maximum input) of
        (Some values, None, None) \<Rightarrow>
          if 1 \<le> length values \<and> length values \<le> 64 \<and> ascending values then Ok () else Err Int64ContractInvalid
      | (None, Some minimum, Some maximum) \<Rightarrow>
          if minimum \<le> maximum then Ok () else Err Int64ContractInvalid
      | _ \<Rightarrow> Err Int64ContractInvalid)"

text \<open>The loop over the inputs; it returns the number of local inputs.\<close>

fun validate_inputs :: "string set \<Rightarrow> nat \<Rightarrow> bundle_input list \<Rightarrow> manifest_error + nat" where
  "validate_inputs names local_inputs [] = Ok local_inputs"
| "validate_inputs names local_inputs (input # rest) =
     and_then (validate_slot (bi_name input)) (\<lambda>_.
       if bi_name input \<in> names \<or> \<not> bi_required input then Err InputNotUniqueOrRequired
       else if bi_kind input \<notin> {''LOCAL_INPUT'', ''STRING'', ''INT64'', ''BOOLEAN''} then Err InputKindUnsupported
       else and_then (validate_input_schema input) (\<lambda>_.
         validate_inputs (insert (bi_name input) names)
           (if bi_kind input = ''LOCAL_INPUT'' then local_inputs + 1 else local_inputs) rest))"

definition require_input_kind :: "bundle_input list \<Rightarrow> string \<Rightarrow> string \<Rightarrow> manifest_error + unit" where
  "require_input_kind inputs slot kind =
     (if list_ex (\<lambda>input. bi_name input = slot \<and> bi_kind input = kind) inputs then Ok ()
      else Err ArgvInputInvalid)"

fun value_kind_name :: "input_value_kind \<Rightarrow> string" where
  "value_kind_name KindString = ''STRING''"
| "value_kind_name KindInt64 = ''INT64''"
| "value_kind_name KindBoolean = ''BOOLEAN''"

definition valid_text :: "string \<Rightarrow> bool" where
  "valid_text value \<longleftrightarrow> \<not> (value = [] \<or> 4096 < length value \<or> nul \<in> set value)"

fun validate_argv ::
  "bundle_profile_argument \<Rightarrow> bundle_input list \<Rightarrow> bundle_output \<Rightarrow> manifest_error + unit" where
  "validate_argv (ArgLiteral literal) inputs output =
     (if \<not> valid_text literal then Err ArgvLiteralInvalid else Ok ())"
| "validate_argv (ArgInputPath slot) inputs output = require_input_kind inputs slot ''LOCAL_INPUT''"
| "validate_argv (ArgInputValue kind slot) inputs output =
     require_input_kind inputs slot (value_kind_name kind)"
| "validate_argv (ArgOutputPath slot) inputs output =
     (if slot = bo_name output then Ok () else Err ArgvOutputInvalid)"

fun validate_argvs ::
  "bundle_profile_argument list \<Rightarrow> bundle_input list \<Rightarrow> bundle_output \<Rightarrow> manifest_error + unit" where
  "validate_argvs [] inputs output = Ok ()"
| "validate_argvs (argument # rest) inputs output =
     and_then (validate_argv argument inputs output) (\<lambda>_. validate_argvs rest inputs output)"

definition known_override_field :: "string \<Rightarrow> bool" where
  "known_override_field field \<longleftrightarrow>
     field \<in> {''limits.cpuMax'', ''limits.memoryMaxBytes'', ''limits.pidsMax'', ''limits.wallTimeLimitMs'',
       ''output.stdoutTailMaxBytes'', ''output.stderrTailMaxBytes''}"

text \<open>Known fields, each inserted into the set of the ones before it.\<close>

fun unique_overrides :: "string set \<Rightarrow> string list \<Rightarrow> bool" where
  "unique_overrides seen [] = True"
| "unique_overrides seen (field # rest) =
     (if \<not> known_override_field field \<or> field \<in> seen then False
      else unique_overrides (insert field seen) rest)"

definition valid_package_id :: "string \<Rightarrow> bool" where
  "valid_package_id value \<longleftrightarrow>
     \<not> (value = [] \<or> 255 < length value \<or>
        \<not> list_all (\<lambda>c. is_ascii_lowercase c \<or> is_ascii_digit c \<or> c = CHR ''.'' \<or> c = CHR ''-'') value)"

definition require :: "bool \<Rightarrow> 'e \<Rightarrow> 'e + unit" where
  "require ok e = (if ok then Ok () else Err e)"

definition validate_profile :: "bundle_profile \<Rightarrow> manifest_error + unit" where
  "validate_profile profile =
     and_then (require (bf_inputs profile \<noteq> [] \<and> length (bf_inputs profile) \<le> 32) InputCountInvalid) (\<lambda>_.
     and_then (validate_inputs {} 0 (bf_inputs profile)) (\<lambda>local_inputs.
     and_then (require (local_inputs = 1) LocalInputCountInvalid) (\<lambda>_.
     and_then (validate_slot (bo_name (bf_output profile))) (\<lambda>_.
     and_then (validate_relative_filename (bo_file_name (bf_output profile))) (\<lambda>_.
     and_then (require (bo_media_type (bf_output profile) \<noteq> [] \<and> bo_maximum_bytes (bf_output profile) \<noteq> 0)
       OutputContractInvalid) (\<lambda>_.
     and_then (require (bf_argv profile \<noteq> [] \<and> length (bf_argv profile) \<le> 128) ArgvCountInvalid) (\<lambda>_.
     and_then (validate_argvs (bf_argv profile) (bf_inputs profile) (bf_output profile)) (\<lambda>_.
     and_then (require (length (bf_allowed_overrides profile) \<le> 6) OverrideCountInvalid) (\<lambda>_.
     and_then (require (unique_overrides {} (bf_allowed_overrides profile)) OverrideFieldInvalid) (\<lambda>_.
     and_then (map_err PolicyInvalid (resource_budget_from_wire (bp_limits (bf_policy profile))
       (bp_output (bf_policy profile)))) (\<lambda>_.
     Ok ())))))))))))"

definition validate_bundle ::
  "(string \<Rightarrow> sha256_digest) \<Rightarrow> (string \<Rightarrow> semver_version option) \<Rightarrow>
   bundle_manifest \<Rightarrow> bundle_profile \<Rightarrow> string \<Rightarrow> manifest_error + unit" where
  "validate_bundle sha256 parse bundle profile profile_raw =
     and_then (require (bm_schema_version bundle = BUNDLE_SCHEMA) BundleSchemaUnsupported) (\<lambda>_.
     and_then (validate_identity parse (bm_name bundle) (bm_version bundle)) (\<lambda>_.
     and_then (validate_key_id (bm_signing_key_id bundle)) (\<lambda>_.
     and_then (require (valid_package_id (br_package_id (bm_runtime bundle))) PackageIdInvalid) (\<lambda>_.
     and_then (require (bm_profile_digest bundle = sha256 profile_raw) ProfileDigestMismatch) (\<lambda>_.
     and_then (require (bf_schema_version profile = PROFILE_SCHEMA \<and> bf_name profile = bm_name bundle \<and>
       bf_version profile = bm_version bundle) ProfileIdentityMismatch) (\<lambda>_.
     validate_profile profile))))))"

section \<open>An example\<close>

definition example_version :: "string \<Rightarrow> semver_version option" where
  "example_version v =
     (if v = ''1.0.0'' then Some \<lparr>sv_pre_empty = True, sv_build_empty = True, sv_text = ''1.0.0''\<rparr> else None)"

definition example_digest :: sha256_digest where
  "example_digest = Sha256Digest (replicate 32 7)"

definition example_manifest :: bundle_manifest where
  "example_manifest =
     \<lparr>bm_schema_version = BUNDLE_SCHEMA, bm_name = ''audio'', bm_version = ''1.0.0'',
      bm_signing_key_id = ''k1'',
      bm_runtime = \<lparr>br_package_id = ''org.ffmpeg'', br_digest = example_digest\<rparr>,
      bm_profile_digest = example_digest\<rparr>"

definition example_profile :: bundle_profile where
  "example_profile =
     \<lparr>bf_schema_version = PROFILE_SCHEMA, bf_name = ''audio'', bf_version = ''1.0.0'',
      bf_inputs =
        [\<lparr>bi_name = ''source'', bi_kind = ''LOCAL_INPUT'', bi_required = True, bi_allowed_values = None,
          bi_minimum = None, bi_maximum = None\<rparr>,
         \<lparr>bi_name = ''rate'', bi_kind = ''INT64'', bi_required = True, bi_allowed_values = Some [8000, 16000],
          bi_minimum = None, bi_maximum = None\<rparr>],
      bf_output = \<lparr>bo_name = ''audio'', bo_file_name = ''r.wav'', bo_media_type = ''audio/wav'',
        bo_maximum_bytes = 1024\<rparr>,
      bf_argv = [ArgLiteral ''-i'', ArgInputPath ''source'', ArgInputValue KindInt64 ''rate'', ArgOutputPath ''audio''],
      bf_policy =
        \<lparr>bp_limits = \<lparr>wl_cpu_max = \<lparr>wc_quota_micros = 100000, wc_period_micros = 100000\<rparr>,
           wl_memory_max_bytes = 1000000, wl_pids_max = 32, wl_wall_time_limit_ms = 60000\<rparr>,
         bp_output = \<lparr>wo_stdout_tail_max_bytes = 1024, wo_stderr_tail_max_bytes = 1024\<rparr>\<rparr>,
      bf_allowed_overrides = [''limits.pidsMax'']\<rparr>"

lemma backslash_char: "backslash = CHR 0x5C"
  by (simp add: backslash_def char_of_def bit_0)

lemma nul_char: "nul = CHR 0x00"
  by (simp add: nul_def char_of_def)

lemma example_policy_Ok:
  "\<exists>b. resource_budget_from_wire (bp_limits (bf_policy example_profile)) (bp_output (bf_policy example_profile)) = Inr b"
  by (simp add: resource_budget_from_wire_def resource_budget_try_new_Ok example_profile_def)

lemma example_valid: "validate_bundle (\<lambda>_. example_digest) example_version example_manifest example_profile raw = Inr ()"
proof -
  have "validate_profile example_profile = Inr ()"
    using example_policy_Ok
    by (auto simp: validate_profile_def require_def validate_slot_def validate_relative_filename_def
        validate_input_schema_def require_input_kind_def known_override_field_def valid_text_def
        example_profile_def ascii_defs byte_def nul_char backslash_char)
  then show ?thesis
    by (simp add: validate_bundle_def require_def validate_identity_def validate_key_id_def valid_package_id_def
        is_valid_capsule_name_def example_manifest_def example_profile_def example_version_def
        BUNDLE_SCHEMA_def PROFILE_SCHEMA_def ascii_defs byte_def)
qed

end
