(* ===== verification/Artifact_Store.thy ===== *)
theory Artifact_Store
  imports Artifact Bundle "HOL-Library.Sublist"
begin

text \<open>
  The local artifact store, \<open>daemon/src/adapters/outbound/artifact_filesystem.rs\<close>: the snapshot of
  an input, the staging directory of a task, and the publication of its output. The file system is
  a finite map from paths to nodes. Every system call takes one tick and an environment decides at
  each tick whether it fails, so an operation is run against every pattern of failures. Opening a
  descriptor and its \<open>fstat\<close> are one call. Descriptors stand for the paths they were opened at: the
  directories of the store are the daemon's own. The texts and operation names of errors are left
  out.
\<close>

section \<open>The file system\<close>

type_synonym path = "string list"

datatype node = FileNode nat string | DirNode nat | SymlinkNode | SpecialNode nat

type_synonym fs = "(path, node) fmap"

datatype sys_error = Eexist | Enoent | Einval | Eother

text \<open>The sequence is the store's counter of snapshot directories.\<close>

record world =
  w_fs :: fs
  w_tick :: nat
  w_sequence :: u64

text \<open>
  What the environment decides: the failure of a call, what a failed removal of a tree leaves
  behind, the pieces in which a file is read, a failed read being \<open>Inl\<close>, and whether the target
  of a symbolic link exists.
\<close>

record env =
  en_fault :: "nat \<Rightarrow> sys_error option"
  en_survives :: "nat \<Rightarrow> path \<Rightarrow> bool"
  en_reads :: "nat \<Rightarrow> string \<Rightarrow> (unit + string) list"
  en_target :: "nat \<Rightarrow> path \<Rightarrow> bool"

definition syscall ::
  "env \<Rightarrow> (fs \<Rightarrow> sys_error + 'a \<times> fs) \<Rightarrow> world \<Rightarrow> (sys_error + 'a) \<times> world" where
  "syscall env f w =
     (case en_fault env (w_tick w) of
        Some e \<Rightarrow> (Inl e, w\<lparr>w_tick := Suc (w_tick w)\<rparr>)
      | None \<Rightarrow>
          (case f (w_fs w) of
             Inl e \<Rightarrow> (Inl e, w\<lparr>w_tick := Suc (w_tick w)\<rparr>)
           | Inr (x, m) \<Rightarrow> (Inr x, w\<lparr>w_fs := m, w_tick := Suc (w_tick w)\<rparr>)))"

definition parent_device :: "fs \<Rightarrow> path \<Rightarrow> nat option" where
  "parent_device m p = (case fmlookup m (butlast p) of Some (DirNode d) \<Rightarrow> Some d | _ \<Rightarrow> None)"

text \<open>\<open>mkdirat\<close>, \<open>openat\<close> of a directory and of a file, exclusive creation.\<close>

definition sys_mkdir :: "path \<Rightarrow> fs \<Rightarrow> sys_error + unit \<times> fs" where
  "sys_mkdir p m =
     (if fmlookup m p \<noteq> None then Inl Eexist
      else case parent_device m p of None \<Rightarrow> Inl Enoent | Some d \<Rightarrow> Inr ((), fmupd p (DirNode d) m))"

definition sys_open_dir :: "path \<Rightarrow> fs \<Rightarrow> sys_error + nat \<times> fs" where
  "sys_open_dir p m =
     (case fmlookup m p of Some (DirNode d) \<Rightarrow> Inr (d, m) | None \<Rightarrow> Inl Enoent | _ \<Rightarrow> Inl Eother)"

definition sys_open_file :: "path \<Rightarrow> fs \<Rightarrow> sys_error + node \<times> fs" where
  "sys_open_file p m =
     (case fmlookup m p of None \<Rightarrow> Inl Enoent | Some SymlinkNode \<Rightarrow> Inl Eother | Some n \<Rightarrow> Inr (n, m))"

definition sys_create :: "path \<Rightarrow> fs \<Rightarrow> sys_error + unit \<times> fs" where
  "sys_create p m =
     (if fmlookup m p \<noteq> None then Inl Eexist
      else case parent_device m p of None \<Rightarrow> Inl Enoent | Some d \<Rightarrow> Inr ((), fmupd p (FileNode d []) m))"

definition sys_append :: "path \<Rightarrow> string \<Rightarrow> fs \<Rightarrow> sys_error + unit \<times> fs" where
  "sys_append p bytes m =
     (case fmlookup m p of Some (FileNode d c) \<Rightarrow> Inr ((), fmupd p (FileNode d (c @ bytes)) m) | _ \<Rightarrow> Inl Eother)"

text \<open>\<open>renameat2\<close> with \<open>RENAME_NOREPLACE\<close>; the store only renames files.\<close>

definition sys_rename :: "path \<Rightarrow> path \<Rightarrow> fs \<Rightarrow> sys_error + unit \<times> fs" where
  "sys_rename from to m =
     (case fmlookup m from of
        Some (FileNode d c) \<Rightarrow>
          if fmlookup m to \<noteq> None then Inl Eexist
          else if parent_device m to = None then Inl Enoent
          else Inr ((), fmupd to (FileNode d c) (fmdrop from m))
      | None \<Rightarrow> Inl Enoent
      | _ \<Rightarrow> Inl Eother)"

definition sys_unlink :: "path \<Rightarrow> fs \<Rightarrow> sys_error + unit \<times> fs" where
  "sys_unlink p m =
     (case fmlookup m p of None \<Rightarrow> Inl Enoent | Some (DirNode _) \<Rightarrow> Inl Eother | Some _ \<Rightarrow> Inr ((), fmdrop p m))"

definition has_child :: "fs \<Rightarrow> path \<Rightarrow> bool" where
  "has_child m p \<longleftrightarrow> fBex (fmdom m) (\<lambda>q. strict_prefix p q)"

definition sys_rmdir :: "path \<Rightarrow> fs \<Rightarrow> sys_error + unit \<times> fs" where
  "sys_rmdir p m =
     (case fmlookup m p of
        Some (DirNode _) \<Rightarrow> if has_child m p then Inl Eother else Inr ((), fmdrop p m)
      | None \<Rightarrow> Inl Enoent
      | _ \<Rightarrow> Inl Eother)"

definition remove_below :: "path \<Rightarrow> fs \<Rightarrow> fs" where
  "remove_below p m = fmfilter (\<lambda>q. \<not> prefix p q) m"

text \<open>\<open>fs::remove_dir_all\<close>, which may fail half way.\<close>

definition sys_remove_tree :: "env \<Rightarrow> path \<Rightarrow> world \<Rightarrow> (sys_error + unit) \<times> world" where
  "sys_remove_tree env p w =
     (let t = w_tick w; m = w_fs w in
      case en_fault env t of
        Some e \<Rightarrow> (Inl e, w\<lparr>w_fs := fmfilter (\<lambda>q. prefix p q \<longrightarrow> en_survives env t q) m, w_tick := Suc t\<rparr>)
      | None \<Rightarrow>
          (case fmlookup m p of
             Some (DirNode _) \<Rightarrow> (Inr (), w\<lparr>w_fs := remove_below p m, w_tick := Suc t\<rparr>)
           | None \<Rightarrow> (Inl Enoent, w\<lparr>w_tick := Suc t\<rparr>)
           | _ \<Rightarrow> (Inl Eother, w\<lparr>w_tick := Suc t\<rparr>)))"

definition children :: "path \<Rightarrow> fs \<Rightarrow> string fset" where
  "children p m = (\<lambda>q. last q) |`| ffilter (\<lambda>q. q \<noteq> [] \<and> butlast q = p) (fmdom m)"

section \<open>Actions\<close>

datatype verification_error =
    TooLarge u64 u64
  | SizeMismatch u64 u64
  | SizeOverflow
  | DigestMismatch
  | ReadFailed

datatype store_error =
    InvalidRoot path
  | MountCrossing path
  | RootOwner path nat
  | RootMode path nat
  | UnsafePath path
  | ZeroMaximumBytes
  | InvalidTaskId string
  | NotRegularFile path
  | DestinationExists path
  | AtomicRenameUnavailable path
  | UndeclaredOutput path
  | StoreIo path sys_error
  | Verification verification_error

type_synonym 'a act = "world \<Rightarrow> (store_error + 'a) \<times> world"

definition return :: "'a \<Rightarrow> 'a act" where
  "return x w = (Inr x, w)"

definition fail :: "store_error \<Rightarrow> 'a act" where
  "fail e w = (Inl e, w)"

definition act_bind :: "'a act \<Rightarrow> ('a \<Rightarrow> 'b act) \<Rightarrow> 'b act" where
  "act_bind m f w = (case m w of (Inl e, w') \<Rightarrow> (Inl e, w') | (Inr x, w') \<Rightarrow> f x w')"

text \<open>\<open>let _ = action\<close>: the result is dropped.\<close>

definition attempt :: "'a act \<Rightarrow> unit act" where
  "attempt m w = (Inr (), snd (m w))"

definition call :: "env \<Rightarrow> path \<Rightarrow> (fs \<Rightarrow> sys_error + 'a \<times> fs) \<Rightarrow> 'a act" where
  "call env p f w = (case syscall env f w of (Inl e, w') \<Rightarrow> (Inl (StoreIo p e), w') | (Inr x, w') \<Rightarrow> (Inr x, w'))"

section \<open>Directories of the store\<close>

record artifact_directory =
  dir_path :: path
  dir_device :: nat

definition c_name :: "string \<Rightarrow> path \<Rightarrow> unit act" where
  "c_name name p = (if nul \<in> set name then fail (UnsafePath p) else return ())"

definition open_child :: "env \<Rightarrow> artifact_directory \<Rightarrow> string \<Rightarrow> artifact_directory act" where
  "open_child env d name =
     (let p = dir_path d @ [name] in
      act_bind (c_name name p) (\<lambda>_.
      act_bind (call env p (sys_open_dir p)) (\<lambda>device.
      if device \<noteq> dir_device d then fail (MountCrossing p)
      else return \<lparr>dir_path = p, dir_device = device\<rparr>)))"

definition open_or_create_child :: "env \<Rightarrow> artifact_directory \<Rightarrow> string \<Rightarrow> artifact_directory act" where
  "open_or_create_child env d name =
     (let p = dir_path d @ [name] in
      act_bind (c_name name p) (\<lambda>_ w.
      case syscall env (sys_mkdir p) w of
        (Inl e, w') \<Rightarrow> if e \<noteq> Eexist then fail (StoreIo p e) w' else open_child env d name w'
      | (Inr _, w') \<Rightarrow> open_child env d name w'))"

definition create_child :: "env \<Rightarrow> artifact_directory \<Rightarrow> string \<Rightarrow> artifact_directory act" where
  "create_child env d name =
     (let p = dir_path d @ [name] in
      act_bind (c_name name p) (\<lambda>_.
      act_bind (call env p (sys_mkdir p)) (\<lambda>_.
      open_child env d name)))"

definition create_regular_file :: "env \<Rightarrow> artifact_directory \<Rightarrow> string \<Rightarrow> path act" where
  "create_regular_file env d name =
     (let p = dir_path d @ [name] in
      act_bind (c_name name p) (\<lambda>_.
      act_bind (call env p (sys_create p)) (\<lambda>_.
      return p)))"

definition open_regular_file :: "env \<Rightarrow> artifact_directory \<Rightarrow> string \<Rightarrow> string act" where
  "open_regular_file env d name =
     (let p = dir_path d @ [name] in
      act_bind (c_name name p) (\<lambda>_.
      act_bind (call env p (sys_open_file p)) (\<lambda>n.
      case n of
        FileNode device content \<Rightarrow> if device \<noteq> dir_device d then fail (MountCrossing p) else return content
      | _ \<Rightarrow> fail (NotRegularFile p))))"

definition sync_all :: "env \<Rightarrow> artifact_directory \<Rightarrow> unit act" where
  "sync_all env d =
     act_bind (call env (dir_path d) (\<lambda>m. Inr ((), m))) (\<lambda>_. call env (dir_path d) (\<lambda>m. Inr ((), m)))"

definition remove_empty_from :: "env \<Rightarrow> artifact_directory \<Rightarrow> artifact_directory \<Rightarrow> unit act" where
  "remove_empty_from env d parent =
     (let name = last (dir_path d) in
      act_bind (c_name name (dir_path d)) (\<lambda>_.
      act_bind (call env (dir_path d) (sys_rmdir (dir_path parent @ [name]))) (\<lambda>_.
      sync_all env parent)))"

definition remove_regular_file :: "env \<Rightarrow> artifact_directory \<Rightarrow> string \<Rightarrow> unit act" where
  "remove_regular_file env d name =
     (let p = dir_path d @ [name] in
      act_bind (c_name name p) (\<lambda>_.
      act_bind (call env p (sys_unlink p)) (\<lambda>_.
      sync_all env d)))"

definition remove_tree :: "env \<Rightarrow> artifact_directory \<Rightarrow> unit act" where
  "remove_tree env d w =
     (case sys_remove_tree env (dir_path d) w of
        (Inl e, w') \<Rightarrow> (Inl (StoreIo (dir_path d) e), w') | (Inr _, w') \<Rightarrow> (Inr (), w'))"

definition remove_child_tree :: "env \<Rightarrow> artifact_directory \<Rightarrow> string \<Rightarrow> unit act" where
  "remove_child_tree env d name w =
     (let p = dir_path d @ [name] in
      case sys_remove_tree env p w of
        (Inr _, w') \<Rightarrow> sync_all env d w'
      | (Inl e, w') \<Rightarrow> if e = Enoent then (Inr (), w') else (Inl (StoreIo p e), w'))"

definition rename_no_replace ::
  "env \<Rightarrow> artifact_directory \<Rightarrow> string \<Rightarrow> artifact_directory \<Rightarrow> string \<Rightarrow> unit act" where
  "rename_no_replace env from_directory from to_directory to =
     (let p = dir_path from_directory @ [from]; q = dir_path to_directory @ [to] in
      act_bind (c_name from p) (\<lambda>_.
      act_bind (c_name to q) (\<lambda>_ w.
      case syscall env (sys_rename p q) w of
        (Inr _, w') \<Rightarrow> (Inr (), w')
      | (Inl Eexist, w') \<Rightarrow> (Inl (DestinationExists q), w')
      | (Inl Einval, w') \<Rightarrow> (Inl (AtomicRenameUnavailable q), w')
      | (Inl e, w') \<Rightarrow> (Inl (StoreIo q e), w'))))"

section \<open>Reading and verifying\<close>

text \<open>
  The read loop shared by the three verifications: the pieces are counted in 64 bits and bounded
  before they are used. An empty piece is the end of the file.
\<close>

fun measure_reads :: "u64 \<Rightarrow> u64 \<Rightarrow> string \<Rightarrow> (unit + string) list \<Rightarrow> verification_error + u64 \<times> string" where
  "measure_reads maximum n acc [] = Ok (n, acc)"
| "measure_reads maximum n acc (Inl _ # rest) = Err ReadFailed"
| "measure_reads maximum n acc (Inr piece # rest) =
     (if piece = [] then Ok (n, acc)
      else
        and_then (ok_or SizeOverflow (checked_add n (of_nat (length piece)))) (\<lambda>actual.
        if maximum < actual then Err (TooLarge actual maximum)
        else measure_reads maximum actual (acc @ piece) rest))"

definition check_descriptor ::
  "(string \<Rightarrow> sha256_digest) \<Rightarrow> local_input_artifact \<Rightarrow> u64 \<Rightarrow> string \<Rightarrow> verification_error + unit" where
  "check_descriptor sha256 artifact actual bytes =
     (if actual \<noteq> ad_size_bytes (li_descriptor artifact)
      then Err (SizeMismatch (ad_size_bytes (li_descriptor artifact)) actual)
      else if sha256 bytes \<noteq> ad_digest (li_descriptor artifact) then Err DigestMismatch
      else Ok ())"

definition verify_input ::
  "(string \<Rightarrow> sha256_digest) \<Rightarrow> local_input_artifact \<Rightarrow> u64 \<Rightarrow> (unit + string) list \<Rightarrow> verification_error + unit" where
  "verify_input sha256 artifact maximum reads =
     (if maximum < ad_size_bytes (li_descriptor artifact)
      then Err (TooLarge (ad_size_bytes (li_descriptor artifact)) maximum)
      else and_then (measure_reads maximum 0 [] reads) (\<lambda>(actual, bytes).
        check_descriptor sha256 artifact actual bytes))"

text \<open>The copying loop: as above, each accepted piece is written to the snapshot.\<close>

fun copy_pieces :: "env \<Rightarrow> path \<Rightarrow> u64 \<Rightarrow> u64 \<Rightarrow> string \<Rightarrow> (unit + string) list \<Rightarrow> (u64 \<times> string) act" where
  "copy_pieces env destination maximum n acc [] = return (n, acc)"
| "copy_pieces env destination maximum n acc (Inl _ # rest) = fail (Verification ReadFailed)"
| "copy_pieces env destination maximum n acc (Inr piece # rest) =
     (if piece = [] then return (n, acc)
      else case checked_add n (of_nat (length piece)) of
        None \<Rightarrow> fail (Verification SizeOverflow)
      | Some actual \<Rightarrow>
          if maximum < actual then fail (Verification (TooLarge actual maximum))
          else act_bind (call env destination (sys_append destination piece)) (\<lambda>_.
            copy_pieces env destination maximum actual (acc @ piece) rest))"

definition lift_verification :: "verification_error + 'a \<Rightarrow> 'a act" where
  "lift_verification r = (case r of Inl e \<Rightarrow> fail (Verification e) | Inr x \<Rightarrow> return x)"

definition copy_and_verify_input ::
  "(string \<Rightarrow> sha256_digest) \<Rightarrow> env \<Rightarrow> local_input_artifact \<Rightarrow> u64 \<Rightarrow> string \<Rightarrow> path \<Rightarrow> unit act" where
  "copy_and_verify_input sha256 env artifact maximum content destination =
     (if maximum < ad_size_bytes (li_descriptor artifact)
      then fail (Verification (TooLarge (ad_size_bytes (li_descriptor artifact)) maximum))
      else (\<lambda>w.
        act_bind (copy_pieces env destination maximum 0 [] (en_reads env (w_tick w) content)) (\<lambda>(actual, bytes).
        act_bind (lift_verification (check_descriptor sha256 artifact actual bytes)) (\<lambda>_.
        call env destination (\<lambda>m. Inr ((), m)))) w))"

definition verify_output :: "(string \<Rightarrow> sha256_digest) \<Rightarrow> env \<Rightarrow> string \<Rightarrow> u64 \<Rightarrow> (u64 \<times> sha256_digest) act" where
  "verify_output sha256 env content maximum =
     act_bind (call env [] (\<lambda>m. Inr ((), m))) (\<lambda>_ w.
     act_bind (lift_verification (measure_reads maximum 0 [] (en_reads env (w_tick w) content))) (\<lambda>(actual, bytes).
     return (actual, sha256 bytes)) w)"

section \<open>Staging\<close>

record local_store =
  ls_root :: artifact_directory
  ls_maximum_bytes :: u64

record artifact_layout =
  al_preflight :: artifact_directory
  al_staging :: artifact_directory
  al_published :: artifact_directory

definition open_layout :: "env \<Rightarrow> local_store \<Rightarrow> artifact_layout act" where
  "open_layout env store =
     act_bind (open_or_create_child env (ls_root store) ''.taskcage'') (\<lambda>taskcage.
     act_bind (open_or_create_child env taskcage ''preflight'') (\<lambda>preflight.
     act_bind (open_or_create_child env taskcage ''staging'') (\<lambda>staging.
     act_bind (open_or_create_child env (ls_root store) ''tasks'') (\<lambda>published.
     return \<lparr>al_preflight = preflight, al_staging = staging, al_published = published\<rparr>))))"

definition layout_sync_all :: "env \<Rightarrow> artifact_layout \<Rightarrow> unit act" where
  "layout_sync_all env layout =
     act_bind (sync_all env (al_preflight layout)) (\<lambda>_.
     act_bind (sync_all env (al_staging layout)) (\<lambda>_.
     sync_all env (al_published layout)))"

text \<open>
  The components of the configured path as the standard library splits it; a name that is not UTF-8
  is \<open>None\<close>. The errors name the directory reached instead of the configured path.
\<close>

datatype path_component = RootDir | CurDir | ParentDir | NormalComponent "string option"

definition open_child_allowing_mount :: "env \<Rightarrow> artifact_directory \<Rightarrow> string \<Rightarrow> artifact_directory act" where
  "open_child_allowing_mount env d name =
     (let p = dir_path d @ [name] in
      act_bind (c_name name p) (\<lambda>_.
      act_bind (call env p (sys_open_dir p)) (\<lambda>device.
      return \<lparr>dir_path = p, dir_device = device\<rparr>)))"

fun open_components :: "env \<Rightarrow> artifact_directory \<Rightarrow> path_component list \<Rightarrow> artifact_directory act" where
  "open_components env d [] = return d"
| "open_components env d (RootDir # rest) = open_components env d rest"
| "open_components env d (NormalComponent (Some name) # rest) =
     act_bind (open_child_allowing_mount env d name) (\<lambda>sub. open_components env sub rest)"
| "open_components env d (NormalComponent None # rest) = fail (UnsafePath (dir_path d))"
| "open_components env d (CurDir # rest) = fail (InvalidRoot (dir_path d))"
| "open_components env d (ParentDir # rest) = fail (InvalidRoot (dir_path d))"

definition open_absolute :: "env \<Rightarrow> path_component list \<Rightarrow> artifact_directory act" where
  "open_absolute env components =
     (case components of
        RootDir # _ \<Rightarrow>
          act_bind (call env [] (sys_open_dir [])) (\<lambda>device.
          open_components env \<lparr>dir_path = [], dir_device = device\<rparr> components)
      | _ \<Rightarrow> fail (InvalidRoot []))"

text \<open>Owner, effective user and mode bits of the opened directory are arguments.\<close>

definition validate_as_daemon_owned_root :: "env \<Rightarrow> artifact_directory \<Rightarrow> nat \<Rightarrow> nat \<Rightarrow> nat \<Rightarrow> unit act" where
  "validate_as_daemon_owned_root env d owner effective_uid mode =
     act_bind (call env (dir_path d) (\<lambda>m. Inr ((), m))) (\<lambda>_.
     if owner \<noteq> effective_uid then fail (RootOwner (dir_path d) owner)
     else if mode div 2 mod 2 = 1 \<or> mode div 16 mod 2 = 1 then fail (RootMode (dir_path d) mode)
     else return ())"

definition local_store_open ::
  "env \<Rightarrow> path_component list \<Rightarrow> nat \<Rightarrow> nat \<Rightarrow> nat \<Rightarrow> u64 \<Rightarrow> local_store act" where
  "local_store_open env components owner effective_uid mode maximum_bytes =
     (if maximum_bytes = 0 then fail ZeroMaximumBytes
      else
        act_bind (open_absolute env components) (\<lambda>root_directory.
        act_bind (validate_as_daemon_owned_root env root_directory owner effective_uid mode) (\<lambda>_.
        let store = \<lparr>ls_root = root_directory, ls_maximum_bytes = maximum_bytes\<rparr> in
        act_bind (open_layout env store) (\<lambda>layout.
        act_bind (layout_sync_all env layout) (\<lambda>_.
        return store)))))"

definition valid_task_id :: "string \<Rightarrow> bool" where
  "valid_task_id task_id \<longleftrightarrow>
     length task_id = 36 \<and>
     list_all (\<lambda>(index, c). index \<in> {8, 13, 18, 23} \<and> c = CHR ''-'' \<or>
        index \<notin> {8, 13, 18, 23} \<and> is_lower_hex c) (zip [0..<length task_id] task_id)"

record staged_task =
  sg_task_id :: string
  sg_task_directory :: artifact_directory
  sg_output_directory :: artifact_directory
  sg_output :: declared_output_artifact

definition working_directory :: "staged_task \<Rightarrow> path" where
  "working_directory staged = dir_path (sg_task_directory staged)"

definition input_path :: "staged_task \<Rightarrow> path" where
  "input_path staged = dir_path (sg_task_directory staged) @ [''artifacts'', ''in'', ''source'']"

definition output_path :: "staged_task \<Rightarrow> path" where
  "output_path staged = dir_path (sg_output_directory staged) @ [do_file_name (sg_output staged)]"

definition next_preflight_name :: "string \<Rightarrow> string act" where
  "next_preflight_name task_id w =
     (Inr (task_id @ ''-'' @ decimal (unat (w_sequence w))), w\<lparr>w_sequence := w_sequence w + 1\<rparr>)"

text \<open>The parts of the closure of \<open>stage_open_input\<close> before and after the task directory exists.\<close>

definition stage_snapshot ::
  "(string \<Rightarrow> sha256_digest) \<Rightarrow> env \<Rightarrow> local_store \<Rightarrow> local_input_artifact \<Rightarrow> string \<Rightarrow> artifact_directory \<Rightarrow> unit act" where
  "stage_snapshot sha256 env store input content preflight =
     act_bind (create_regular_file env preflight ''source'') (\<lambda>snapshot.
     act_bind (copy_and_verify_input sha256 env input (ls_maximum_bytes store) content snapshot) (\<lambda>_.
     sync_all env preflight))"

definition stage_task ::
  "env \<Rightarrow> artifact_layout \<Rightarrow> artifact_directory \<Rightarrow> string \<Rightarrow> declared_output_artifact \<Rightarrow> artifact_directory \<Rightarrow>
   staged_task act" where
  "stage_task env layout preflight task_id output task_directory =
     act_bind (create_child env task_directory ''artifacts'') (\<lambda>artifacts.
     act_bind (create_child env artifacts ''in'') (\<lambda>input_directory.
     act_bind (create_child env artifacts ''out'') (\<lambda>output_directory.
     act_bind (rename_no_replace env preflight ''source'' input_directory ''source'') (\<lambda>_.
     act_bind (sync_all env input_directory) (\<lambda>_.
     act_bind (sync_all env output_directory) (\<lambda>_.
     act_bind (sync_all env task_directory) (\<lambda>_.
     act_bind (sync_all env (al_staging layout)) (\<lambda>_.
     act_bind (remove_empty_from env preflight (al_preflight layout)) (\<lambda>_.
     act_bind (sync_all env (al_preflight layout)) (\<lambda>_.
     return \<lparr>sg_task_id = task_id, sg_task_directory = task_directory, sg_output_directory = output_directory,
       sg_output = output\<rparr>))))))))))"

definition or_else :: "'a act \<Rightarrow> unit act \<Rightarrow> 'a act" where
  "or_else m undo w = (case m w of (Inl e, w') \<Rightarrow> (Inl e, snd (undo w')) | (Inr x, w') \<Rightarrow> (Inr x, w'))"

definition stage_open_input ::
  "(string \<Rightarrow> sha256_digest) \<Rightarrow> env \<Rightarrow> local_store \<Rightarrow> string \<Rightarrow> local_input_artifact \<Rightarrow> declared_output_artifact \<Rightarrow>
   string \<Rightarrow> staged_task act" where
  "stage_open_input sha256 env store task_id input output content =
     (if \<not> valid_task_id task_id then fail (InvalidTaskId task_id)
      else
        act_bind (open_layout env store) (\<lambda>layout.
        act_bind (next_preflight_name task_id) (\<lambda>preflight_name.
        act_bind (create_child env (al_preflight layout) preflight_name) (\<lambda>preflight.
        (\<lambda>w.
          case act_bind (stage_snapshot sha256 env store input content preflight) (\<lambda>_.
            create_child env (al_staging layout) task_id) w of
            (Inl e, w') \<Rightarrow> (Inl e, snd (remove_tree env preflight w'))
          | (Inr task_directory, w') \<Rightarrow>
              or_else (stage_task env layout preflight task_id output task_directory)
                (act_bind (attempt (remove_tree env preflight)) (\<lambda>_.
                 remove_child_tree env (al_staging layout) task_id)) w')))))"

text \<open>\<open>open_input\<close> walks the segments of the path, opening a directory for each but the last.\<close>

fun open_input_from :: "env \<Rightarrow> artifact_directory \<Rightarrow> string list \<Rightarrow> string act" where
  "open_input_from env d [] = fail (UnsafePath (dir_path d))"
| "open_input_from env d [name] = open_regular_file env d name"
| "open_input_from env d (name # rest) = act_bind (open_child env d name) (\<lambda>sub. open_input_from env sub rest)"

definition open_input :: "env \<Rightarrow> local_store \<Rightarrow> artifact_path \<Rightarrow> string act" where
  "open_input env store p =
     act_bind (call env (dir_path (ls_root store)) (sys_open_dir (dir_path (ls_root store)))) (\<lambda>device.
     if device \<noteq> dir_device (ls_root store) then fail (MountCrossing (dir_path (ls_root store)))
     else open_input_from env (ls_root store) (split_on (CHR ''/'') (path_str p)))"

definition stage_input ::
  "(string \<Rightarrow> sha256_digest) \<Rightarrow> env \<Rightarrow> local_store \<Rightarrow> string \<Rightarrow> local_input_artifact \<Rightarrow> declared_output_artifact \<Rightarrow>
   staged_task act" where
  "stage_input sha256 env store task_id input output =
     act_bind (open_input env store (li_path input)) (\<lambda>content.
     stage_open_input sha256 env store task_id input output content)"

definition stage_daemon_input ::
  "(string \<Rightarrow> sha256_digest) \<Rightarrow> env \<Rightarrow> local_store \<Rightarrow> string \<Rightarrow> local_input_artifact \<Rightarrow> declared_output_artifact \<Rightarrow>
   string \<Rightarrow> staged_task act" where
  "stage_daemon_input sha256 env store task_id input output content =
     stage_open_input sha256 env store task_id input output content"

definition open_published_artifact :: "env \<Rightarrow> local_store \<Rightarrow> artifact_path \<Rightarrow> string act" where
  "open_published_artifact env store p = open_input env store p"

section \<open>Publication\<close>

definition sys_metadata :: "path \<Rightarrow> fs \<Rightarrow> sys_error + node \<times> fs" where
  "sys_metadata p m = (case fmlookup m p of None \<Rightarrow> Inl Enoent | Some n \<Rightarrow> Inr (n, m))"

definition sys_read_dir :: "path \<Rightarrow> fs \<Rightarrow> sys_error + string list \<times> fs" where
  "sys_read_dir p m =
     (case fmlookup m p of
        Some (DirNode _) \<Rightarrow> Inr (sorted_list_of_fset (children p m), m)
      | None \<Rightarrow> Inl Enoent
      | _ \<Rightarrow> Inl Eother)"

fun reject_symlinks :: "env \<Rightarrow> path \<Rightarrow> string list \<Rightarrow> unit act" where
  "reject_symlinks env p [] = return ()"
| "reject_symlinks env p (name # rest) =
     act_bind (call env (p @ [name]) (sys_metadata (p @ [name]))) (\<lambda>n.
     if n = SymlinkNode then fail (UndeclaredOutput (p @ [name])) else reject_symlinks env p rest)"

text \<open>The entries are listed here in the sorted order in which they are compared.\<close>

definition require_exact_children :: "env \<Rightarrow> path \<Rightarrow> string list \<Rightarrow> unit act" where
  "require_exact_children env p expected =
     act_bind (call env p (sys_read_dir p)) (\<lambda>entries.
     act_bind (reject_symlinks env p entries) (\<lambda>_.
     if entries \<noteq> sort expected then fail (UndeclaredOutput p) else return ()))"

definition require_directory :: "env \<Rightarrow> path \<Rightarrow> unit act" where
  "require_directory env p =
     act_bind (call env p (sys_metadata p)) (\<lambda>n. case n of DirNode _ \<Rightarrow> return () | _ \<Rightarrow> fail (UndeclaredOutput p))"

definition require_regular_file :: "env \<Rightarrow> path \<Rightarrow> unit act" where
  "require_regular_file env p =
     act_bind (call env p (sys_metadata p)) (\<lambda>n. case n of FileNode _ _ \<Rightarrow> return () | _ \<Rightarrow> fail (UndeclaredOutput p))"

definition validate_declared_staging :: "env \<Rightarrow> staged_task \<Rightarrow> unit act" where
  "validate_declared_staging env staged =
     (let task = dir_path (sg_task_directory staged);
          artifacts = task @ [''artifacts''];
          input = artifacts @ [''in''];
          output = artifacts @ [''out''];
          file_name = do_file_name (sg_output staged)
      in
      act_bind (require_exact_children env task [''artifacts'']) (\<lambda>_.
      act_bind (require_directory env artifacts) (\<lambda>_.
      act_bind (require_exact_children env artifacts [''in'', ''out'']) (\<lambda>_.
      act_bind (require_directory env input) (\<lambda>_.
      act_bind (require_directory env output) (\<lambda>_.
      act_bind (require_exact_children env input [''source'']) (\<lambda>_.
      act_bind (require_exact_children env output [file_name]) (\<lambda>_.
      act_bind (require_regular_file env (input @ [''source''])) (\<lambda>_.
      require_regular_file env (output @ [file_name]))))))))))"

definition cleanup_staging :: "env \<Rightarrow> local_store \<Rightarrow> staged_task \<Rightarrow> unit act" where
  "cleanup_staging env store staged =
     act_bind (remove_tree env (sg_task_directory staged)) (\<lambda>_.
     act_bind (open_layout env store) (\<lambda>layout.
     sync_all env (al_staging layout)))"

definition publish_destination :: "env \<Rightarrow> artifact_layout \<Rightarrow> string \<Rightarrow> artifact_directory act" where
  "publish_destination env layout task_id w =
     (case create_child env (al_published layout) task_id w of
        (Inl (StoreIo _ Eexist), w') \<Rightarrow> (Inl (DestinationExists (dir_path (al_published layout) @ [task_id])), w')
      | (r, w') \<Rightarrow> (r, w'))"

definition published_text :: "string \<Rightarrow> string \<Rightarrow> string" where
  "published_text task_id file_name = ''tasks/'' @ task_id @ ''/'' @ file_name"

text \<open>The move of the output into its new directory, with its two rollbacks.\<close>

definition publish_move :: "env \<Rightarrow> local_store \<Rightarrow> staged_task \<Rightarrow> unit act" where
  "publish_move env store staged =
     act_bind (open_layout env store) (\<lambda>layout.
     act_bind (publish_destination env layout (sg_task_id staged)) (\<lambda>destination.
     act_bind (or_else
       (rename_no_replace env (sg_output_directory staged) (do_file_name (sg_output staged))
         destination (do_file_name (sg_output staged)))
       (remove_empty_from env destination (al_published layout))) (\<lambda>_.
     or_else
       (act_bind (sync_all env destination) (\<lambda>_.
        act_bind (sync_all env (al_published layout)) (\<lambda>_.
        cleanup_staging env store staged)))
       (act_bind (attempt (remove_regular_file env destination (do_file_name (sg_output staged)))) (\<lambda>_.
        act_bind (attempt (remove_empty_from env destination (al_published layout))) (\<lambda>_.
        sync_all env (al_published layout)))))))"

text \<open>The path of the published artifact is parsed with \<open>expect\<close>: a refusal would be a panic, \<open>None\<close>.\<close>

definition publish_inner ::
  "(string \<Rightarrow> sha256_digest) \<Rightarrow> env \<Rightarrow> local_store \<Rightarrow> staged_task \<Rightarrow> published_artifact option act" where
  "publish_inner sha256 env store staged =
     (let file_name = do_file_name (sg_output staged) in
      act_bind (validate_declared_staging env staged) (\<lambda>_.
      act_bind (open_regular_file env (sg_output_directory staged) file_name) (\<lambda>content.
      act_bind (verify_output sha256 env content
        (min (do_maximum_bytes (sg_output staged)) (ls_maximum_bytes store))) (\<lambda>(size_bytes, digest).
      act_bind (call env (output_path staged) (\<lambda>m. Inr ((), m))) (\<lambda>_.
      act_bind (publish_move env store staged) (\<lambda>_.
      return (case artifact_path_parse (published_text (sg_task_id staged) file_name) of
          Inl _ \<Rightarrow> None
        | Inr relative \<Rightarrow> Some (published_artifact_new relative digest size_bytes
            (do_media_type (sg_output staged))))))))))"

definition path_exists :: "env \<Rightarrow> path \<Rightarrow> world \<Rightarrow> bool \<times> world" where
  "path_exists env p w =
     (case syscall env (sys_metadata p) w of
        (Inl _, w') \<Rightarrow> (False, w')
      | (Inr n, w') \<Rightarrow> (n = SymlinkNode \<longrightarrow> en_target env (w_tick w) p, w'))"

text \<open>
  The outer \<open>Inl\<close> is a failed cleanup, after which the destructor tries once more; the inner one is
  a refused output.
\<close>

definition publish_for_profile ::
  "(string \<Rightarrow> sha256_digest) \<Rightarrow> env \<Rightarrow> local_store \<Rightarrow> staged_task \<Rightarrow> (store_error + published_artifact option) act" where
  "publish_for_profile sha256 env store staged w =
     (case publish_inner sha256 env store staged w of
        (Inr artifact, w') \<Rightarrow> (Inr (Inr artifact), w')
      | (Inl error, w') \<Rightarrow>
          (case path_exists env (dir_path (sg_task_directory staged)) w' of
             (False, w'') \<Rightarrow> (Inr (Inl error), w'')
           | (True, w'') \<Rightarrow>
               (case cleanup_staging env store staged w'' of
                  (Inr _, w3) \<Rightarrow> (Inr (Inl error), w3)
                | (Inl failure, w3) \<Rightarrow> (Inl failure, snd (cleanup_staging env store staged w3)))))"

definition publish ::
  "(string \<Rightarrow> sha256_digest) \<Rightarrow> env \<Rightarrow> local_store \<Rightarrow> staged_task \<Rightarrow> published_artifact option act" where
  "publish sha256 env store staged w =
     (case publish_for_profile sha256 env store staged w of
        (Inl failure, w') \<Rightarrow> (Inl failure, w')
      | (Inr (Inr artifact), w') \<Rightarrow> (Inr artifact, w')
      | (Inr (Inl error), w') \<Rightarrow> (Inl error, w'))"

definition staged_cleanup :: "env \<Rightarrow> local_store \<Rightarrow> staged_task \<Rightarrow> unit act" where
  "staged_cleanup env store staged = or_else (cleanup_staging env store staged) (cleanup_staging env store staged)"

definition staged_drop :: "env \<Rightarrow> local_store \<Rightarrow> staged_task \<Rightarrow> world \<Rightarrow> world" where
  "staged_drop env store staged w = snd (cleanup_staging env store staged w)"

section \<open>What an action may change\<close>

text \<open>
  An action keeps a relation when it relates the file system before to the one after, whatever
  fails. The rules for sequencing hold for every reflexive and transitive relation.
\<close>

definition keeps :: "(fs \<Rightarrow> fs \<Rightarrow> bool) \<Rightarrow> 'a act \<Rightarrow> bool" where
  "keeps R m \<longleftrightarrow> (\<forall>w. R (w_fs w) (w_fs (snd (m w))))"

lemma keepsD: "keeps R m \<Longrightarrow> R (w_fs w) (w_fs (snd (m w)))"
  by (simp add: keeps_def)

lemma syscall_fs:
  "w_fs (snd (syscall env f w)) = w_fs w \<or> (\<exists>x. f (w_fs w) = Inr (x, w_fs (snd (syscall env f w))))"
  by (auto simp: syscall_def split: option.splits sum.splits)

lemma call_world: "snd (call env p f w) = snd (syscall env f w)"
  by (simp add: call_def split: prod.split sum.split)

text \<open>What a successful action returns.\<close>

definition yields :: "'a act \<Rightarrow> ('a \<Rightarrow> bool) \<Rightarrow> bool" where
  "yields m Q \<longleftrightarrow> (\<forall>w x w'. m w = (Inr x, w') \<longrightarrow> Q x)"

lemma act_bind_Inr: "act_bind m f w = (Inr y, w') \<longleftrightarrow> (\<exists>x v. m w = (Inr x, v) \<and> f x v = (Inr y, w'))"
  by (auto simp: act_bind_def split: prod.splits sum.splits)

lemma act_bind_step: "m w = (Inr x, v) \<Longrightarrow> act_bind m f w = f x v"
  by (simp add: act_bind_def)

lemma return_Inr [simp]: "return x w = (Inr y, w') \<longleftrightarrow> y = x \<and> w' = w"
  by (auto simp: return_def)

lemma fail_Inr [simp]: "fail e w \<noteq> (Inr y, w')"
  by (simp add: fail_def)

lemma c_name_Inr [simp]: "c_name name p w = (Inr u, w') \<longleftrightarrow> nul \<notin> set name \<and> w' = w"
  by (auto simp: c_name_def)

lemma yields_bind: "(\<And>x. yields (f x) Q) \<Longrightarrow> yields (act_bind m f) Q"
  by (auto simp: yields_def act_bind_Inr)

lemma yields_open_child: "yields (open_child env d name) (\<lambda>c. dir_path c = dir_path d @ [name])"
  by (auto simp: yields_def open_child_def Let_def act_bind_Inr split: if_splits)

lemma yields_create_child: "yields (create_child env d name) (\<lambda>c. dir_path c = dir_path d @ [name])"
  unfolding create_child_def Let_def by (intro yields_bind yields_open_child)

lemma yields_open_or_create: "yields (open_or_create_child env d name) (\<lambda>c. dir_path c = dir_path d @ [name])"
  using yields_open_child [of env d name]
  by (auto simp: yields_def open_or_create_child_def Let_def act_bind_Inr split: prod.splits sum.splits if_splits)

lemma yields_open_layout:
  "yields (open_layout env store) (\<lambda>l.
     dir_path (al_preflight l) = dir_path (ls_root store) @ [''.taskcage'', ''preflight''] \<and>
     dir_path (al_staging l) = dir_path (ls_root store) @ [''.taskcage'', ''staging''] \<and>
     dir_path (al_published l) = dir_path (ls_root store) @ [''tasks''])"
proof -
  have o': "dir_path c = dir_path d @ [name]" if "open_or_create_child env d name w = (Inr c, w')" for d name w c w'
    using yields_open_or_create [of env d name] that unfolding yields_def by blast
  show ?thesis
    unfolding yields_def open_layout_def act_bind_Inr by (auto dest!: o')
qed

locale fs_frame =
  fixes R :: "fs \<Rightarrow> fs \<Rightarrow> bool"
  assumes frame_refl: "R m m"
    and frame_trans: "R m m' \<Longrightarrow> R m' m'' \<Longrightarrow> R m m''"
begin

lemma keeps_return: "keeps R (return x)"
  by (simp add: keeps_def return_def frame_refl)

lemma keeps_fail: "keeps R (fail e)"
  by (simp add: keeps_def fail_def frame_refl)

lemma keeps_bind: "keeps R m \<Longrightarrow> (\<And>x. keeps R (f x)) \<Longrightarrow> keeps R (act_bind m f)"
  by (auto simp: keeps_def act_bind_def split: prod.splits sum.splits) (metis frame_trans snd_conv)+

lemma keeps_bind_yields:
  assumes "keeps R m" "yields m Q" "\<And>x. Q x \<Longrightarrow> keeps R (f x)"
  shows "keeps R (act_bind m f)"
proof -
  have "R (w_fs w) (w_fs (snd (act_bind m f w)))" for w
  proof -
    obtain r v where r: "m w = (r, v)"
      by force
    have "R (w_fs w) (w_fs v)"
      using keepsD [OF assms(1), of w] r by simp
    then show ?thesis
      using r assms(2,3) keepsD frame_trans by (cases r) (auto simp: act_bind_def yields_def, blast)
  qed
  then show ?thesis
    by (simp add: keeps_def)
qed

lemma keeps_attempt: "keeps R m \<Longrightarrow> keeps R (attempt m)"
  by (simp add: keeps_def attempt_def)

lemma keeps_or_else: "keeps R m \<Longrightarrow> keeps R undo \<Longrightarrow> keeps R (or_else m undo)"
  by (auto simp: keeps_def or_else_def split: prod.splits sum.splits) (metis frame_trans snd_conv)+

lemma keeps_syscall:
  assumes "\<And>m x m'. f m = Inr (x, m') \<Longrightarrow> R m m'"
  shows "R (w_fs w) (w_fs (snd (syscall env f w)))"
  using assms syscall_fs [of env f w] frame_refl by metis

lemma keeps_call: "(\<And>m x m'. f m = Inr (x, m') \<Longrightarrow> R m m') \<Longrightarrow> keeps R (call env p f)"
  unfolding keeps_def call_world by (intro allI keeps_syscall)

lemma keeps_c_name: "keeps R (c_name name p)"
  by (simp add: c_name_def keeps_return keeps_fail)

lemma keeps_lift: "keeps R (lift_verification r)"
  by (simp add: lift_verification_def keeps_return keeps_fail split: sum.split)

lemma keeps_if: "keeps R a \<Longrightarrow> keeps R b \<Longrightarrow> keeps R (if c then a else b)"
  by simp

lemma keeps_dep: "(\<And>v. keeps R (f v)) \<Longrightarrow> keeps R (\<lambda>w. f w w)"
  by (simp add: keeps_def)

lemmas keeps_rules = keeps_return keeps_fail keeps_bind keeps_attempt keeps_or_else keeps_c_name keeps_lift keeps_if

lemma keeps_reading:
  "keeps R (call env p (\<lambda>m. Inr ((), m)))" "keeps R (call env p (sys_open_dir q))"
  "keeps R (call env p (sys_open_file q))" "keeps R (call env p (sys_metadata q))"
  "keeps R (call env p (sys_read_dir q))"
  by (rule keeps_call; auto simp: sys_open_dir_def sys_open_file_def sys_metadata_def sys_read_dir_def frame_refl
      split: option.splits node.splits)+

lemma keeps_sync_all: "keeps R (sync_all env d)"
  unfolding sync_all_def by (intro keeps_rules keeps_reading)

lemma keeps_open_child: "keeps R (open_child env d name)"
  unfolding open_child_def Let_def by (intro keeps_rules keeps_reading)

lemma keeps_open_regular_file: "keeps R (open_regular_file env d name)"
  unfolding open_regular_file_def Let_def
  by (intro keeps_rules keeps_reading) (simp add: keeps_return keeps_fail split: node.split)

lemma keeps_open_input_from: "keeps R (open_input_from env d names)"
  by (induction env d names rule: open_input_from.induct)
    (auto intro: keeps_rules keeps_open_regular_file keeps_open_child)

lemma keeps_open_input: "keeps R (open_input env store p)"
  unfolding open_input_def by (intro keeps_rules keeps_reading keeps_open_input_from)

lemma keeps_create_child:
  assumes "\<And>m d'. fmlookup m (dir_path d @ [name]) = None \<Longrightarrow> R m (fmupd (dir_path d @ [name]) (DirNode d') m)"
  shows "keeps R (create_child env d name)"
  unfolding create_child_def Let_def
  by (intro keeps_rules keeps_call keeps_open_child)
    (auto simp: sys_mkdir_def assms split: if_splits option.splits)

lemma keeps_open_or_create:
  assumes "\<And>m d'. fmlookup m (dir_path d @ [name]) = None \<Longrightarrow> R m (fmupd (dir_path d @ [name]) (DirNode d') m)"
  shows "keeps R (open_or_create_child env d name)"
proof -
  let ?p = "dir_path d @ [name]"
  have "R (w_fs w) (w_fs (snd (case syscall env (sys_mkdir ?p) w of
      (Inl e, w') \<Rightarrow> if e \<noteq> Eexist then fail (StoreIo ?p e) w' else open_child env d name w'
    | (Inr _, w') \<Rightarrow> open_child env d name w')))" for w
  proof -
    obtain r w' where r: "syscall env (sys_mkdir ?p) w = (r, w')"
      by force
    have "R (w_fs w) (w_fs (snd (syscall env (sys_mkdir ?p) w)))"
      by (rule keeps_syscall) (auto simp: sys_mkdir_def assms split: if_splits option.splits)
    then show ?thesis
      using frame_trans [OF _ keepsD [OF keeps_open_child]] r by (cases r) (auto simp: fail_def)
  qed
  then have "keeps R (\<lambda>w. case syscall env (sys_mkdir ?p) w of
      (Inl e, w') \<Rightarrow> if e \<noteq> Eexist then fail (StoreIo ?p e) w' else open_child env d name w'
    | (Inr _, w') \<Rightarrow> open_child env d name w')"
    by (simp add: keeps_def)
  then show ?thesis
    unfolding open_or_create_child_def Let_def by (intro keeps_rules)
qed

lemma keeps_reject_symlinks: "keeps R (reject_symlinks env p names)"
  by (induction names) (simp_all add: keeps_return, intro keeps_rules keeps_reading)

lemma keeps_require:
  "keeps R (require_exact_children env p names)" "keeps R (require_directory env p)" "keeps R (require_regular_file env p)"
  unfolding require_exact_children_def require_directory_def require_regular_file_def
  by (intro keeps_rules keeps_reading keeps_reject_symlinks;
      simp add: keeps_return keeps_fail split: node.split)+

lemma keeps_validate_declared_staging: "keeps R (validate_declared_staging env staged)"
  unfolding validate_declared_staging_def Let_def by (intro keeps_rules keeps_require)

lemma keeps_verify_output: "keeps R (verify_output sha256 env content maximum)"
  unfolding verify_output_def
proof (intro keeps_bind keeps_reading)
  fix x
  have "keeps R (act_bind (lift_verification r) (\<lambda>(actual, bytes). return (actual, sha256 bytes)))" for r
    by (intro keeps_rules) (simp add: keeps_return split: prod.split)
  then show "keeps R (\<lambda>w. act_bind (lift_verification (measure_reads maximum 0 [] (en_reads env (w_tick w) content)))
      (\<lambda>(actual, bytes). return (actual, sha256 bytes)) w)"
    by (rule keeps_dep)
qed

end

section \<open>Existing entries stay\<close>

definition stays :: "path \<Rightarrow> fs \<Rightarrow> fs \<Rightarrow> bool" where
  "stays p m m' \<longleftrightarrow> (\<forall>n. fmlookup m p = Some n \<longrightarrow> fmlookup m' p = Some n)"

interpretation stay: fs_frame "stays p"
  by unfold_locales (auto simp: stays_def)

lemma stays_mkdir: "fmlookup m q = None \<Longrightarrow> stays p m (fmupd q n m)"
  by (auto simp: stays_def)

lemma stay_layout: "keeps (stays p) (open_layout env store)"
  unfolding open_layout_def by (intro stay.keeps_rules stay.keeps_open_or_create stays_mkdir)

lemma stay_create_child: "keeps (stays p) (create_child env d name)"
  by (intro stay.keeps_create_child stays_mkdir)

lemma stay_create_file: "keeps (stays p) (create_regular_file env d name)"
  unfolding create_regular_file_def Let_def
  by (intro stay.keeps_rules stay.keeps_call)
    (auto simp: sys_create_def intro: stays_mkdir split: if_splits option.splits)

lemma stay_remove_tree:
  assumes "\<not> prefix (dir_path d) p"
  shows "keeps (stays p) (remove_tree env d)"
  using assms
  by (auto simp: keeps_def remove_tree_def sys_remove_tree_def Let_def stays_def remove_below_def
      split: option.splits node.splits)

lemma stay_remove_child_tree:
  assumes "\<not> prefix (dir_path d @ [name]) p"
  shows "keeps (stays p) (remove_child_tree env d name)"
proof -
  have "stays p (w_fs w) (w_fs (snd (remove_child_tree env d name w)))" for w
  proof -
    obtain r v where r: "sys_remove_tree env (dir_path d @ [name]) w = (r, v)"
      by force
    then have "stays p (w_fs w) (w_fs v)"
      using assms by (auto simp: sys_remove_tree_def Let_def stays_def remove_below_def split: option.splits node.splits)
    then show ?thesis
      using r stay.frame_trans [OF _ keepsD [OF stay.keeps_sync_all]]
      by (cases r) (simp_all add: remove_child_tree_def Let_def)
  qed
  then show ?thesis
    by (simp add: keeps_def)
qed

lemma stay_remove_empty:
  "dir_path parent @ [last (dir_path d)] \<noteq> p \<Longrightarrow> keeps (stays p) (remove_empty_from env d parent)"
  unfolding remove_empty_from_def Let_def
  by (intro stay.keeps_rules stay.keeps_call stay.keeps_sync_all)
    (auto simp: sys_rmdir_def stays_def split: option.splits node.splits if_splits)

lemma stay_remove_file: "dir_path d @ [name] \<noteq> p \<Longrightarrow> keeps (stays p) (remove_regular_file env d name)"
  unfolding remove_regular_file_def Let_def
  by (intro stay.keeps_rules stay.keeps_call stay.keeps_sync_all)
    (auto simp: sys_unlink_def stays_def split: option.splits node.splits)

lemma stay_rename:
  assumes "dir_path d @ [name] \<noteq> p"
  shows "keeps (stays p) (rename_no_replace env d name d' name')"
proof -
  let ?c = "sys_rename (dir_path d @ [name]) (dir_path d' @ [name'])"
  have "stays p (w_fs w) (w_fs (snd (syscall env ?c w)))" for w
    by (rule stay.keeps_syscall)
      (use assms in \<open>auto simp: sys_rename_def stays_def split: option.splits node.splits if_splits\<close>)
  moreover have "w_fs (snd (case syscall env ?c w of
        (Inr _, w') \<Rightarrow> (Inr (), w')
      | (Inl Eexist, w') \<Rightarrow> (Inl (DestinationExists q), w')
      | (Inl Einval, w') \<Rightarrow> (Inl (AtomicRenameUnavailable q), w')
      | (Inl e, w') \<Rightarrow> (Inl (StoreIo q e), w'))) = w_fs (snd (syscall env ?c w))" for w q
    by (simp split: prod.split sum.split sys_error.split)
  ultimately show ?thesis
    unfolding rename_no_replace_def Let_def by (intro stay.keeps_rules) (simp add: keeps_def)
qed

lemma stay_append: "q \<noteq> p \<Longrightarrow> keeps (stays p) (call env q (sys_append q bytes))"
  by (intro stay.keeps_call) (auto simp: sys_append_def stays_def split: option.splits node.splits)

lemma stay_copy_pieces: "q \<noteq> p \<Longrightarrow> keeps (stays p) (copy_pieces env q maximum n acc reads)"
proof (induction env q maximum n acc reads rule: copy_pieces.induct)
  case (3 env q maximum n acc piece rest)
  then show ?case
    by (auto intro!: stay.keeps_rules stay_append split: option.split)
qed (simp_all add: stay.keeps_return stay.keeps_fail)

lemma stay_copy_and_verify:
  assumes "q \<noteq> p"
  shows "keeps (stays p) (copy_and_verify_input sha256 env artifact maximum content q)"
proof -
  have "keeps (stays p) (act_bind (copy_pieces env q maximum 0 [] reads) (\<lambda>(actual, bytes).
        act_bind (lift_verification (check_descriptor sha256 artifact actual bytes)) (\<lambda>_.
        call env q (\<lambda>m. Inr ((), m)))))" for reads
    by (intro stay.keeps_bind stay_copy_pieces assms) (clarify, intro stay.keeps_rules stay.keeps_reading)
  then show ?thesis
    unfolding copy_and_verify_input_def by (intro stay.keeps_if stay.keeps_fail) (rule stay.keeps_dep)
qed

text \<open>Every entry has its parent directory; then nothing exists below a missing entry.\<close>

definition rooted :: "fs \<Rightarrow> bool" where
  "rooted m \<longleftrightarrow> (\<forall>q name n. fmlookup m (q @ [name]) = Some n \<longrightarrow> (\<exists>d. fmlookup m q = Some (DirNode d)))"

lemma rooted_above:
  assumes "rooted m" "fmlookup m q \<noteq> None" "prefix p q"
  shows "fmlookup m p \<noteq> None"
proof -
  obtain r where r: "q = p @ r"
    using assms(3) by (auto simp: prefix_def)
  have "fmlookup m (p @ r) \<noteq> None \<Longrightarrow> fmlookup m p \<noteq> None"
  proof (induction r rule: rev_induct)
    case (snoc x xs)
    then show ?case
      using assms(1) unfolding rooted_def append_assoc [symmetric] by blast
  qed simp
  then show ?thesis
    using assms(2) r by simp
qed

lemma staysD: "stays p m m' \<Longrightarrow> fmlookup m p \<noteq> None \<Longrightarrow> fmlookup m' p \<noteq> None"
  by (auto simp: stays_def)

lemma create_child_exists:
  assumes "fmlookup (w_fs w) (dir_path d @ [name]) \<noteq> None"
  shows "\<exists>e w'. create_child env d name w = (Inl e, w') \<and> w_fs w' = w_fs w"
  using assms
  by (auto simp: create_child_def Let_def act_bind_def c_name_def return_def fail_def call_def syscall_def sys_mkdir_def
      split: option.splits)

lemma stay_stage_snapshot:
  assumes "\<not> prefix (dir_path preflight) p"
  shows "keeps (stays p) (stage_snapshot sha256 env store input content preflight)"
proof -
  have created: "yields (create_regular_file env preflight ''source'') (\<lambda>q. q = dir_path preflight @ [''source''])"
    by (auto simp: yields_def create_regular_file_def Let_def act_bind_Inr)
  have "dir_path preflight @ [''source''] \<noteq> p"
    using assms by auto
  then show ?thesis
    unfolding stage_snapshot_def
    by (intro stay.keeps_bind_yields [OF stay_create_file created] stay.keeps_bind stay.keeps_sync_all)
      (simp add: stay_copy_and_verify)
qed

lemma stay_stage_task:
  assumes "\<not> prefix (dir_path preflight) p" "dir_path preflight = dir_path (al_preflight layout) @ [name]"
  shows "keeps (stays p) (stage_task env layout preflight task_id out task_directory)"
proof -
  have "dir_path preflight @ [''source''] \<noteq> p" "dir_path (al_preflight layout) @ [last (dir_path preflight)] \<noteq> p"
    using assms by auto
  then show ?thesis
    unfolding stage_task_def
    by (intro stay.keeps_rules stay_create_child stay_rename stay.keeps_sync_all stay_remove_empty)
qed

lemma next_preflight_fs: "w_fs (snd (next_preflight_name task_id w)) = w_fs w"
  by (simp add: next_preflight_name_def)

text \<open>The part of \<open>stage_open_input\<close> that runs once the snapshot directory has been created.\<close>

lemma stay_stage_rest:
  assumes "fmlookup (w_fs w) p = Some n" "\<not> prefix (dir_path preflight) p"
    and pre: "dir_path preflight = dir_path (al_preflight layout) @ [name]"
    and task: "prefix (dir_path (al_staging layout) @ [task_id]) p \<Longrightarrow>
      fmlookup (w_fs w) (dir_path (al_staging layout) @ [task_id]) \<noteq> None"
    and apart: "\<not> prefix (dir_path preflight) (dir_path (al_staging layout) @ [task_id])"
  shows "fmlookup (w_fs (snd (case act_bind (stage_snapshot sha256 env store input content preflight) (\<lambda>_.
            create_child env (al_staging layout) task_id) w of
            (Inl e, w') \<Rightarrow> (Inl e, snd (remove_tree env preflight w'))
          | (Inr task_directory, w') \<Rightarrow>
              or_else (stage_task env layout preflight task_id out task_directory)
                (act_bind (attempt (remove_tree env preflight)) (\<lambda>_.
                 remove_child_tree env (al_staging layout) task_id)) w'))) p = Some n"
proof -
  let ?S = "dir_path (al_staging layout) @ [task_id]"
  let ?first = "act_bind (stage_snapshot sha256 env store input content preflight) (\<lambda>_. create_child env (al_staging layout) task_id)"
  obtain r v where r: "?first w = (r, v)"
    by force
  have "keeps (stays p) ?first"
    by (intro stay.keeps_bind stay_stage_snapshot assms(2) stay_create_child)
  then have kept: "stays p (w_fs w) (w_fs v)"
    using keepsD [of "stays p" ?first w] r by simp
  show ?thesis
  proof (cases r)
    case (Inl e)
    have "stays p (w_fs v) (w_fs (snd (remove_tree env preflight v)))"
      by (intro keepsD stay_remove_tree assms(2))
    with kept assms(1) r Inl show ?thesis
      by (simp add: stays_def)
  next
    case (Inr td)
    have "\<not> prefix ?S p"
    proof
      assume "prefix ?S p"
      then have "fmlookup (w_fs w) ?S \<noteq> None"
        by (rule task)
      moreover obtain x v' where "stage_snapshot sha256 env store input content preflight w = (Inr x, v')"
          "create_child env (al_staging layout) task_id v' = (Inr td, v)"
        using r Inr by (auto simp: act_bind_Inr)
      moreover from this have "stays ?S (w_fs w) (w_fs v')"
        using keepsD [OF stay_stage_snapshot [OF apart, of sha256 env store input content], of w] by simp
      ultimately show False
        using create_child_exists [of v' "al_staging layout" task_id env] by (auto simp: stays_def)
    qed
    then have "keeps (stays p) (or_else (stage_task env layout preflight task_id out td)
        (act_bind (attempt (remove_tree env preflight)) (\<lambda>_. remove_child_tree env (al_staging layout) task_id)))"
      by (intro stay.keeps_rules stay_stage_task [OF assms(2) pre] stay_remove_tree assms(2) stay_remove_child_tree)
    from keepsD [OF this, of v] kept assms(1) r Inr show ?thesis
      by (simp add: stays_def)
  qed
qed

lemma stage_open_input_stays:
  assumes "rooted (w_fs w)" "fmlookup (w_fs w) p = Some n"
  shows "fmlookup (w_fs (snd (stage_open_input sha256 env store task_id input out content w))) p = Some n"
proof (cases "valid_task_id task_id")
  case True
  obtain r v where r: "open_layout env store w = (r, v)"
    by force
  have kept: "stays q (w_fs w) (w_fs v)" for q
    using keepsD [OF stay_layout [of q env store], of w] r by simp
  show ?thesis
  proof (cases r)
    case (Inl e)
    with True r kept [of p] assms(2) show ?thesis
      by (simp add: stage_open_input_def act_bind_def stays_def)
  next
    case (Inr layout)
    have paths: "dir_path (al_preflight layout) = dir_path (ls_root store) @ [''.taskcage'', ''preflight'']"
        "dir_path (al_staging layout) = dir_path (ls_root store) @ [''.taskcage'', ''staging'']"
      using yields_open_layout [of env store] r Inr unfolding yields_def by blast+
    obtain name v1 where v1: "next_preflight_name task_id v = (Inr name, v1)" "w_fs v1 = w_fs v"
      by (simp add: next_preflight_name_def)
    obtain r2 v2 where r2: "create_child env (al_preflight layout) name v1 = (r2, v2)"
      by force
    have up: "fmlookup (w_fs v1) q \<noteq> None" if "prefix q p" for q
      using rooted_above [OF assms(1) _ that] assms(2) staysD [OF kept] v1(2) by simp
    have at: "fmlookup (w_fs v2) q = Some n'" if "fmlookup (w_fs v1) q = Some n'" for q n'
      using keepsD [OF stay_create_child [of q env "al_preflight layout" name], of v1] r2 that by (simp add: stays_def)
    have here: "fmlookup (w_fs v1) p = Some n"
      using kept [of p] assms(2) v1(2) by (simp add: stays_def)
    show ?thesis
    proof (cases r2)
      case (Inl e)
      with True r Inr v1 r2 at [OF here] show ?thesis
        by (simp add: stage_open_input_def act_bind_def)
    next
      case made: (Inr preflight)
      then have "fmlookup (w_fs v1) (dir_path (al_preflight layout) @ [name]) = None"
        using create_child_exists [of v1 "al_preflight layout" name env] r2
        by (cases "fmlookup (w_fs v1) (dir_path (al_preflight layout) @ [name])") auto
      then have "\<not> prefix (dir_path (al_preflight layout) @ [name]) p"
        using up by blast
      moreover have pre: "dir_path preflight = dir_path (al_preflight layout) @ [name]"
        using yields_create_child [of env "al_preflight layout" name] r2 made unfolding yields_def by blast
      moreover have "fmlookup (w_fs v2) (dir_path (al_staging layout) @ [task_id]) \<noteq> None"
        if "prefix (dir_path (al_staging layout) @ [task_id]) p"
        using up [OF that] at by blast
      moreover have "\<not> prefix (dir_path preflight) (dir_path (al_staging layout) @ [task_id])"
        by (simp add: pre paths)
      ultimately show ?thesis
        using True
        by (simp only: stage_open_input_def if_not_P not_not act_bind_step [of "open_layout env store", OF r [unfolded Inr]]
            act_bind_step [of "next_preflight_name task_id", OF v1(1)]
            act_bind_step [of "create_child env (al_preflight layout) name", OF r2 [unfolded made]]) (rule stay_stage_rest [OF at [OF here]]; simp)
    qed
  qed
qed (use assms(2) in \<open>simp add: stage_open_input_def fail_def\<close>)

lemma publish_destination_exists:
  assumes "fmlookup (w_fs w) (dir_path (al_published layout) @ [task_id]) \<noteq> None"
  shows "\<exists>e w'. publish_destination env layout task_id w = (Inl e, w') \<and> w_fs w' = w_fs w"
  using create_child_exists [OF assms, of env]
  by (auto simp: publish_destination_def split: store_error.split sys_error.split)

lemma yields_publish_destination:
  "yields (publish_destination env layout task_id) (\<lambda>c. dir_path c = dir_path (al_published layout) @ [task_id])"
proof -
  have "create_child env (al_published layout) task_id w = (Inr x, w') \<Longrightarrow> dir_path x = dir_path (al_published layout) @ [task_id]"
    for w x w'
    using yields_create_child [of env "al_published layout" task_id] unfolding yields_def by blast
  then show ?thesis
    unfolding yields_def publish_destination_def
    by (auto split: prod.splits sum.splits store_error.splits sys_error.splits)
qed

lemma stay_publish_destination: "keeps (stays p) (publish_destination env layout task_id)"
proof -
  have "snd (publish_destination env layout task_id w) = snd (create_child env (al_published layout) task_id w)" for w
    by (simp add: publish_destination_def split: prod.split sum.split store_error.split sys_error.split)
  then show ?thesis
    using stay_create_child by (simp add: keeps_def)
qed

lemma stay_cleanup:
  "\<not> prefix (dir_path (sg_task_directory staged)) p \<Longrightarrow> keeps (stays p) (cleanup_staging env store staged)"
  unfolding cleanup_staging_def by (intro stay.keeps_rules stay_remove_tree stay_layout stay.keeps_sync_all)

text \<open>A staged task lies in its own directory below the staging directory of the store.\<close>

definition staged_in :: "local_store \<Rightarrow> staged_task \<Rightarrow> bool" where
  "staged_in store staged \<longleftrightarrow>
     dir_path (sg_task_directory staged) = dir_path (ls_root store) @ [''.taskcage'', ''staging'', sg_task_id staged] \<and>
     dir_path (sg_output_directory staged) = dir_path (sg_task_directory staged) @ [''artifacts'', ''out'']"

lemma publish_move_stays:
  assumes "staged_in store staged" "\<not> prefix (dir_path (sg_task_directory staged)) p"
    and "rooted (w_fs w)" "fmlookup (w_fs w) p = Some n"
  shows "fmlookup (w_fs (snd (publish_move env store staged w))) p = Some n"
proof (cases "prefix (dir_path (ls_root store) @ [''tasks'', sg_task_id staged]) p")
  case True
  let ?D = "dir_path (ls_root store) @ [''tasks'', sg_task_id staged]"
  obtain r v where r: "open_layout env store w = (r, v)"
    by force
  have kept: "stays q (w_fs w) (w_fs v)" for q
    using keepsD [OF stay_layout [of q env store], of w] r by simp
  show ?thesis
  proof (cases r)
    case (Inr layout)
    have "dir_path (al_published layout) = dir_path (ls_root store) @ [''tasks'']"
      using yields_open_layout [of env store] r Inr unfolding yields_def by blast
    moreover have "fmlookup (w_fs v) ?D \<noteq> None"
      using rooted_above [OF assms(3) _ True] assms(4) staysD [OF kept] by simp
    ultimately obtain e v' where "publish_destination env layout (sg_task_id staged) v = (Inl e, v')" "w_fs v' = w_fs v"
      using publish_destination_exists [of v layout "sg_task_id staged" env] by auto
    with r Inr kept [of p] assms(4) show ?thesis
      by (simp add: publish_move_def act_bind_def stays_def)
  qed (use r kept [of p] assms(4) in \<open>simp add: publish_move_def act_bind_def stays_def\<close>)
next
  case False
  have out: "dir_path (sg_output_directory staged) @ [do_file_name (sg_output staged)] \<noteq> p"
    using assms(1,2) by (auto simp: staged_in_def)
  have dest: "dir_path c @ [x] \<noteq> p \<and> dir_path (al_published layout) @ [last (dir_path c)] \<noteq> p"
    if "dir_path (al_published layout) = dir_path (ls_root store) @ [''tasks'']"
      "dir_path c = dir_path (al_published layout) @ [sg_task_id staged]" for c :: artifact_directory and layout :: artifact_layout and x
    using False that by auto
  have "keeps (stays p) (publish_move env store staged)"
    unfolding publish_move_def
  proof (rule stay.keeps_bind_yields [OF stay_layout yields_open_layout],
      rule stay.keeps_bind_yields [OF stay_publish_destination yields_publish_destination])
    fix layout :: artifact_layout and destination :: artifact_directory
    assume "dir_path (al_preflight layout) = dir_path (ls_root store) @ [''.taskcage'', ''preflight''] \<and>
        dir_path (al_staging layout) = dir_path (ls_root store) @ [''.taskcage'', ''staging''] \<and>
        dir_path (al_published layout) = dir_path (ls_root store) @ [''tasks'']"
      "dir_path destination = dir_path (al_published layout) @ [sg_task_id staged]"
    then have "dir_path destination @ [x] \<noteq> p" "dir_path (al_published layout) @ [last (dir_path destination)] \<noteq> p" for x
      using dest [of layout destination x] by blast+
    then show "keeps (stays p) (act_bind (or_else
         (rename_no_replace env (sg_output_directory staged) (do_file_name (sg_output staged))
           destination (do_file_name (sg_output staged)))
         (remove_empty_from env destination (al_published layout))) (\<lambda>_.
       or_else
         (act_bind (sync_all env destination) (\<lambda>_.
          act_bind (sync_all env (al_published layout)) (\<lambda>_.
          cleanup_staging env store staged)))
         (act_bind (attempt (remove_regular_file env destination (do_file_name (sg_output staged)))) (\<lambda>_.
          act_bind (attempt (remove_empty_from env destination (al_published layout))) (\<lambda>_.
          sync_all env (al_published layout))))))"
      by (intro stay.keeps_rules stay_rename out stay_remove_empty stay.keeps_sync_all stay_cleanup assms(2) stay_remove_file)
  qed
  from keepsD [OF this, of w] assms(4) show ?thesis
    by (simp add: stays_def)
qed

lemma stay_path_exists: "w_fs (snd (path_exists env p w)) = w_fs w"
proof -
  have "w_fs (snd (syscall env (sys_metadata p) w)) = w_fs w"
    by (simp add: syscall_def sys_metadata_def split: option.split sum.split)
  then show ?thesis
    by (cases "syscall env (sys_metadata p) w") (simp add: path_exists_def split: sum.split)
qed

interpretation same: fs_frame "(=)"
  by unfold_locales auto

lemma publish_prefix_same:
  "keeps (=) (act_bind (validate_declared_staging env staged) (\<lambda>_.
     act_bind (open_regular_file env (sg_output_directory staged) file_name) (\<lambda>content.
     act_bind (verify_output sha256 env content maximum) (\<lambda>(size_bytes, digest).
     act_bind (call env q (\<lambda>m. Inr ((), m))) (\<lambda>_. return (content, size_bytes, digest))))))"
  by (intro same.keeps_bind same.keeps_validate_declared_staging same.keeps_open_regular_file same.keeps_verify_output)
    (clarify, intro same.keeps_rules same.keeps_reading)

text \<open>The publication as the checks before the move, which only read, and the move.\<close>

lemma publish_inner_split:
  "publish_inner sha256 env store staged =
     act_bind (act_bind (validate_declared_staging env staged) (\<lambda>_.
       act_bind (open_regular_file env (sg_output_directory staged) (do_file_name (sg_output staged))) (\<lambda>content.
       act_bind (verify_output sha256 env content (min (do_maximum_bytes (sg_output staged)) (ls_maximum_bytes store)))
         (\<lambda>(size_bytes, digest).
       act_bind (call env (output_path staged) (\<lambda>m. Inr ((), m))) (\<lambda>_. return (content, size_bytes, digest))))))
     (\<lambda>(content, size_bytes, digest).
       act_bind (publish_move env store staged) (\<lambda>_.
       return (case artifact_path_parse (published_text (sg_task_id staged) (do_file_name (sg_output staged))) of
           Inl _ \<Rightarrow> None
         | Inr relative \<Rightarrow> Some (published_artifact_new relative digest size_bytes (do_media_type (sg_output staged))))))"
  by (rule ext) (simp add: publish_inner_def Let_def act_bind_def return_def split: prod.split sum.split)

lemma publish_inner_stays:
  assumes "staged_in store staged" "\<not> prefix (dir_path (sg_task_directory staged)) p"
    and "rooted (w_fs w)" "fmlookup (w_fs w) p = Some n"
  shows "fmlookup (w_fs (snd (publish_inner sha256 env store staged w))) p = Some n"
proof -
  let ?checks = "act_bind (validate_declared_staging env staged) (\<lambda>_.
       act_bind (open_regular_file env (sg_output_directory staged) (do_file_name (sg_output staged))) (\<lambda>content.
       act_bind (verify_output sha256 env content (min (do_maximum_bytes (sg_output staged)) (ls_maximum_bytes store)))
         (\<lambda>(size_bytes, digest).
       act_bind (call env (output_path staged) (\<lambda>m. Inr ((), m))) (\<lambda>_. return (content, size_bytes, digest)))))"
  obtain r v where r: "?checks w = (r, v)"
    by force
  have v: "w_fs v = w_fs w"
    using keepsD [OF publish_prefix_same, of w env staged "do_file_name (sg_output staged)" sha256
        "min (do_maximum_bytes (sg_output staged)) (ls_maximum_bytes store)" "output_path staged"] r by simp
  have move: "fmlookup (w_fs (snd (publish_move env store staged v))) p = Some n"
    by (rule publish_move_stays) (use assms v in simp_all)
  have after: "snd (act_bind (publish_move env store staged) (\<lambda>_. return z) v) = snd (publish_move env store staged v)"
    for z :: "published_artifact option"
    by (simp add: act_bind_def return_def split: prod.split sum.split)
  show ?thesis
    unfolding publish_inner_split
    using r v move assms(4) after by (cases r) (auto simp: act_bind_def [of ?checks])
qed

lemma publish_for_profile_stays:
  assumes "staged_in store staged" "\<not> prefix (dir_path (sg_task_directory staged)) p"
    and "rooted (w_fs w)" "fmlookup (w_fs w) p = Some n"
  shows "fmlookup (w_fs (snd (publish_for_profile sha256 env store staged w))) p = Some n"
proof -
  obtain r v where r: "publish_inner sha256 env store staged w = (r, v)"
    by force
  have here: "fmlookup (w_fs v) p = Some n"
    using publish_inner_stays [OF assms, of sha256 env] r by simp
  obtain b v' where b: "path_exists env (dir_path (sg_task_directory staged)) v = (b, v')"
    by force
  then have here': "fmlookup (w_fs v') p = Some n"
    using stay_path_exists [of env "dir_path (sg_task_directory staged)" v] here by simp
  have clean: "fmlookup (w_fs (snd (cleanup_staging env store staged u))) p = Some n" if "fmlookup (w_fs u) p = Some n" for u
    using keepsD [OF stay_cleanup [OF assms(2)], of u env store] that by (simp add: stays_def)
  obtain c v3 where c: "cleanup_staging env store staged v' = (c, v3)"
    by force
  then have "fmlookup (w_fs v3) p = Some n"
    using clean [OF here'] by simp
  with clean show ?thesis
    using r b c here here' by (cases r; cases b; cases c) (simp_all add: publish_for_profile_def)
qed

section \<open>What a successful operation leaves\<close>

lemma or_else_Inr: "or_else m undo w = (Inr x, w') \<longleftrightarrow> m w = (Inr x, w')"
  by (auto simp: or_else_def split: prod.splits sum.splits)

lemma call_Inr:
  "call env p f w = (Inr x, w') \<longleftrightarrow>
   en_fault env (w_tick w) = None \<and> (\<exists>m. f (w_fs w) = Inr (x, m) \<and> w' = w\<lparr>w_fs := m, w_tick := Suc (w_tick w)\<rparr>)"
  by (auto simp: call_def syscall_def split: option.splits sum.splits)

lemma sync_all_Inr: "sync_all env d w = (Inr u, w') \<Longrightarrow> w_fs w' = w_fs w"
  by (auto simp: sync_all_def act_bind_Inr call_Inr)

lemma open_child_Inr: "open_child env d name w = (Inr c, w') \<Longrightarrow> w_fs w' = w_fs w"
  by (auto simp: open_child_def Let_def act_bind_Inr call_Inr sys_open_dir_def split: if_splits option.splits node.splits)

lemma create_child_Inr:
  assumes "create_child env d name w = (Inr c, w')"
  shows "fmlookup (w_fs w) (dir_path d @ [name]) = None" "dir_path c = dir_path d @ [name]"
    "\<exists>k. w_fs w' = fmupd (dir_path d @ [name]) (DirNode k) (w_fs w)"
proof -
  obtain v where v: "call env (dir_path d @ [name]) (sys_mkdir (dir_path d @ [name])) w = (Inr (), v)"
      "open_child env d name v = (Inr c, w')"
    using assms by (auto simp: create_child_def Let_def act_bind_Inr)
  show "fmlookup (w_fs w) (dir_path d @ [name]) = None" "\<exists>k. w_fs w' = fmupd (dir_path d @ [name]) (DirNode k) (w_fs w)"
    using v(1) open_child_Inr [OF v(2)] by (auto simp: call_Inr sys_mkdir_def split: if_splits option.splits)
  show "dir_path c = dir_path d @ [name]"
    using yields_create_child assms unfolding yields_def by blast
qed

lemma rename_Inr:
  assumes "rename_no_replace env d name d' name' w = (Inr u, w')"
  shows "\<exists>k c. fmlookup (w_fs w) (dir_path d @ [name]) = Some (FileNode k c) \<and>
    w_fs w' = fmupd (dir_path d' @ [name']) (FileNode k c) (fmdrop (dir_path d @ [name]) (w_fs w))"
proof -
  have "call env [] (sys_rename (dir_path d @ [name]) (dir_path d' @ [name'])) w = (Inr (), w')"
    using assms
    by (auto simp: rename_no_replace_def Let_def act_bind_Inr call_def split: prod.splits sum.splits sys_error.splits)
  then show ?thesis
    by (auto simp: call_Inr sys_rename_def split: option.splits node.splits if_splits)
qed

lemma remove_tree_Inr:
  "remove_tree env d w = (Inr u, w') \<Longrightarrow> w_fs w' = remove_below (dir_path d) (w_fs w)"
  by (auto simp: remove_tree_def sys_remove_tree_def Let_def split: option.splits node.splits)

text \<open>Nothing is created below a directory that is gone.\<close>

definition gone :: "path \<Rightarrow> fs \<Rightarrow> bool" where
  "gone p m \<longleftrightarrow> (\<forall>q. prefix p q \<longrightarrow> fmlookup m q = None)"

interpretation gone: fs_frame "\<lambda>m m'. gone p m \<longrightarrow> gone p m'"
  by unfold_locales auto

lemma gone_remove_below: "gone p (remove_below p m)"
  by (simp add: gone_def remove_below_def)

lemma gone_layout:
  assumes "dir_path (ls_root store) @ [''.taskcage'', ''staging'', task_id] = p"
  shows "keeps (\<lambda>m m'. gone p m \<longrightarrow> gone p m') (open_layout env store)"
proof -
  have outside: "gone p m \<longrightarrow> gone p (fmupd q n m)" if "\<not> prefix p q" for q n m
    using that by (auto simp: gone_def)
  have "\<not> prefix p (dir_path (ls_root store) @ [''.taskcage''])" "\<not> prefix p (dir_path (ls_root store) @ [''tasks''])"
      "\<not> prefix p (dir_path (ls_root store) @ [''.taskcage'', x])" for x
    using assms by auto
  then show ?thesis
    unfolding open_layout_def
    by (intro gone.keeps_bind_yields [OF gone.keeps_open_or_create yields_open_or_create] gone.keeps_return outside)
      (auto simp: assms)
qed

lemma cleanup_Inr:
  assumes "cleanup_staging env store staged w = (Inr u, w')" "staged_in store staged"
  shows "gone (dir_path (sg_task_directory staged)) (w_fs w')"
proof -
  let ?S = "dir_path (sg_task_directory staged)"
  obtain v layout v' where v: "remove_tree env (sg_task_directory staged) w = (Inr (), v)"
      "open_layout env store v = (Inr layout, v')" "sync_all env (al_staging layout) v' = (Inr u, w')"
    using assms(1) by (auto simp: cleanup_staging_def act_bind_Inr)
  have "gone ?S (w_fs v)"
    using remove_tree_Inr [OF v(1)] gone_remove_below by simp
  then have "gone ?S (w_fs v')"
    using keepsD [OF gone_layout [of store "sg_task_id staged" ?S env], of v] assms(2) v(2) by (simp add: staged_in_def)
  then show ?thesis
    using sync_all_Inr [OF v(3)] by simp
qed

lemma publish_move_Inr:
  assumes "publish_move env store staged w = (Inr u, w')" "staged_in store staged"
    and "fmlookup (w_fs w) (output_path staged) = Some n"
  shows "fmlookup (w_fs w) (dir_path (ls_root store) @ [''tasks'', sg_task_id staged]) = None"
    and "fmlookup (w_fs w') (dir_path (ls_root store) @ [''tasks'', sg_task_id staged, do_file_name (sg_output staged)]) = Some n"
    and "gone (dir_path (sg_task_directory staged)) (w_fs w')"
proof -
  let ?S = "dir_path (sg_task_directory staged)" and ?f = "do_file_name (sg_output staged)"
    and ?D = "dir_path (ls_root store) @ [''tasks'', sg_task_id staged]"
  obtain layout v destination v1 v2 v3 v4 where
    l: "open_layout env store w = (Inr layout, v)"
    and d: "publish_destination env layout (sg_task_id staged) v = (Inr destination, v1)"
    and r: "rename_no_replace env (sg_output_directory staged) ?f destination ?f v1 = (Inr (), v2)"
    and s: "sync_all env destination v2 = (Inr (), v3)" "sync_all env (al_published layout) v3 = (Inr (), v4)"
    and c: "cleanup_staging env store staged v4 = (Inr u, w')"
    using assms(1) by (auto simp: publish_move_def act_bind_Inr or_else_Inr)
  have published: "dir_path (al_published layout) = dir_path (ls_root store) @ [''tasks'']"
    using yields_open_layout [of env store] l unfolding yields_def by blast
  have "create_child env (al_published layout) (sg_task_id staged) v = (Inr destination, v1)"
    using d by (auto simp: publish_destination_def split: prod.splits sum.splits store_error.splits sys_error.splits)
  note made = create_child_Inr [OF this]
  have kept: "stays q (w_fs w) (w_fs v)" for q
    using keepsD [OF stay_layout [of q env store], of w] l by simp
  show "fmlookup (w_fs w) ?D = None"
    using made(1) published kept [of ?D] by (cases "fmlookup (w_fs w) ?D") (auto simp: stays_def)
  have out: "output_path staged \<noteq> ?D" "\<not> prefix ?S (?D @ [?f])"
    using assms(2) by (auto simp: staged_in_def output_path_def)
  have "fmlookup (w_fs v1) (output_path staged) = Some n"
    using kept [of "output_path staged"] assms(3) made(3) out(1) published by (auto simp: stays_def)
  then have "fmlookup (w_fs v2) (?D @ [?f]) = Some n"
    using rename_Inr [OF r] made(2) published by (auto simp: output_path_def)
  then have "fmlookup (w_fs v4) (?D @ [?f]) = Some n"
    using s sync_all_Inr by metis
  then show "fmlookup (w_fs w') (dir_path (ls_root store) @ [''tasks'', sg_task_id staged, ?f]) = Some n"
    using keepsD [OF stay_cleanup [OF out(2)], of v4 env store] c by (simp add: stays_def)
  show "gone ?S (w_fs w')"
    by (rule cleanup_Inr [OF c assms(2)])
qed

text \<open>
  What \<open>read\<close> promises: the pieces of the content in order, none of them empty or longer than the
  buffer, up to the end or to a failed read.
\<close>

fun reads_of :: "string \<Rightarrow> (unit + string) list \<Rightarrow> bool" where
  "reads_of c [] \<longleftrightarrow> c = []"
| "reads_of c (Inl _ # rest) \<longleftrightarrow> True"
| "reads_of c (Inr piece # rest) \<longleftrightarrow> piece \<noteq> [] \<and> length piece \<le> 16384 \<and>
     (case strip_prefix piece c of None \<Rightarrow> False | Some c' \<Rightarrow> reads_of c' rest)"

definition honest_reads :: "env \<Rightarrow> bool" where
  "honest_reads env \<longleftrightarrow> (\<forall>t c. reads_of c (en_reads env t c))"

lemma unat_piece: "length (piece :: string) \<le> 16384 \<Longrightarrow> unat (of_nat (length piece) :: u64) = length piece"
  by (simp add: unat_of_nat)

lemma measure_reads_Ok:
  assumes "measure_reads maximum n acc reads = Inr (k, bytes)" "reads_of c reads" "n \<le> maximum"
  shows "bytes = acc @ c" "unat k = unat n + length c" "k \<le> maximum"
proof -
  have "bytes = acc @ c \<and> unat k = unat n + length c \<and> k \<le> maximum"
    using assms
  proof (induction maximum n acc reads arbitrary: c rule: measure_reads.induct)
    case (3 maximum n acc piece rest)
    then obtain c' actual where c': "c = piece @ c'" "reads_of c' rest" "length piece \<le> 16384" "piece \<noteq> []"
        "checked_add n (of_nat (length piece)) = Some actual" "actual \<le> maximum"
        "measure_reads maximum actual (acc @ piece) rest = Inr (k, bytes)"
      by (auto simp: strip_prefix_Some result_simps not_less split: option.splits if_splits)
    with "3.IH" [of actual c'] show ?case
      using checked_add_Some [OF c'(5)] unat_piece [OF c'(3)] by auto
  qed auto
  then show "bytes = acc @ c" "unat k = unat n + length c" "k \<le> maximum"
    by blast+
qed

lemma open_regular_file_Inr:
  assumes "open_regular_file env d name w = (Inr content, w')"
  shows "w_fs w' = w_fs w" "\<exists>k. fmlookup (w_fs w) (dir_path d @ [name]) = Some (FileNode k content)"
proof -
  obtain n v where n: "call env (dir_path d @ [name]) (sys_open_file (dir_path d @ [name])) w = (Inr n, v)"
      "(case n of FileNode device content \<Rightarrow>
          if device \<noteq> dir_device d then fail (MountCrossing (dir_path d @ [name])) else return content
        | _ \<Rightarrow> fail (NotRegularFile (dir_path d @ [name]))) v = (Inr content, w')"
    using assms by (auto simp: open_regular_file_def Let_def act_bind_Inr)
  then have "fmlookup (w_fs w) (dir_path d @ [name]) = Some n" "w_fs v = w_fs w"
    by (auto simp: call_Inr sys_open_file_def split: option.splits node.splits)
  with n(2) show "w_fs w' = w_fs w" "\<exists>k. fmlookup (w_fs w) (dir_path d @ [name]) = Some (FileNode k content)"
    by (cases n; auto split: if_splits)+
qed

lemma lift_verification_Inr: "lift_verification r w = (Inr x, w') \<longleftrightarrow> r = Inr x \<and> w' = w"
  by (auto simp: lift_verification_def split: sum.splits)

lemma verify_output_Inr:
  assumes "verify_output sha256 env content maximum w = (Inr (k, digest), w')" "honest_reads env"
  shows "digest = sha256 content" "unat k = length content" "k \<le> maximum" "w_fs w' = w_fs w"
proof -
  obtain t bytes where "measure_reads maximum 0 [] (en_reads env t content) = Inr (k, bytes)" "digest = sha256 bytes"
    using assms(1) that by (auto simp: verify_output_def act_bind_Inr lift_verification_Inr)
  moreover have "reads_of content (en_reads env t content)"
    using assms(2) by (simp add: honest_reads_def)
  ultimately show "digest = sha256 content" "unat k = length content" "k \<le> maximum"
    using measure_reads_Ok [of maximum 0 "[]"] by auto
  show "w_fs w' = w_fs w"
    using keepsD [OF same.keeps_verify_output, of w sha256 env content maximum] assms(1) by simp
qed

lemma copy_pieces_Inr:
  assumes "copy_pieces env q maximum n acc reads w = (Inr (k, bytes), w')" "reads_of c reads" "n \<le> maximum"
    and "fmlookup (w_fs w) q = Some (FileNode d c0)"
  shows "bytes = acc @ c \<and> unat k = unat n + length c \<and> k \<le> maximum \<and>
    fmlookup (w_fs w') q = Some (FileNode d (c0 @ c))"
  using assms
proof (induction env q maximum n acc reads arbitrary: w c c0 rule: copy_pieces.induct)
  case (3 env q maximum n acc piece rest)
  then obtain c' where c': "c = piece @ c'" "reads_of c' rest" "length piece \<le> 16384" "piece \<noteq> []"
    by (auto simp: strip_prefix_Some split: option.splits)
  with "3.prems"(1) obtain actual v where a: "checked_add n (of_nat (length piece)) = Some actual" "actual \<le> maximum"
      "call env q (sys_append q piece) w = (Inr (), v)"
      "copy_pieces env q maximum actual (acc @ piece) rest v = (Inr (k, bytes), w')"
    by (auto simp: act_bind_Inr not_less split: option.splits if_splits)
  have "fmlookup (w_fs v) q = Some (FileNode d (c0 @ piece))"
    using a(3) "3.prems"(4) by (auto simp: call_Inr sys_append_def)
  from "3.IH" [OF c'(4) a(1) _ a(4) c'(2) a(2) this] show ?case
    using a(2) c'(1) checked_add_Some [OF a(1)] unat_piece [OF c'(3)] by (simp add: not_less)
qed auto

lemma copy_and_verify_Inr:
  assumes "copy_and_verify_input sha256 env artifact maximum content q w = (Inr u, w')" "honest_reads env"
    and "fmlookup (w_fs w) q = Some (FileNode d [])"
  shows "sha256 content = ad_digest (li_descriptor artifact)"
    "length content = unat (ad_size_bytes (li_descriptor artifact))"
    "ad_size_bytes (li_descriptor artifact) \<le> maximum" "fmlookup (w_fs w') q = Some (FileNode d content)"
proof -
  obtain k bytes v where v: "copy_pieces env q maximum 0 [] (en_reads env (w_tick w) content) w = (Inr (k, bytes), v)"
      "check_descriptor sha256 artifact k bytes = Inr ()" "call env q (\<lambda>m. Inr ((), m)) v = (Inr u, w')"
      "\<not> maximum < ad_size_bytes (li_descriptor artifact)"
    using assms(1)
    by (auto simp: copy_and_verify_input_def act_bind_Inr lift_verification_Inr split: if_splits prod.splits)
  have "reads_of content (en_reads env (w_tick w) content)"
    using assms(2) by (simp add: honest_reads_def)
  from copy_pieces_Inr [OF v(1) this _ assms(3)] have c: "bytes = content" "unat k = length content"
      "fmlookup (w_fs v) q = Some (FileNode d content)"
    by simp_all
  with v(2-) show "sha256 content = ad_digest (li_descriptor artifact)"
    "length content = unat (ad_size_bytes (li_descriptor artifact))"
    "ad_size_bytes (li_descriptor artifact) \<le> maximum" "fmlookup (w_fs w') q = Some (FileNode d content)"
    by (auto simp: check_descriptor_def call_Inr split: if_splits)
qed

lemma stage_snapshot_Inr:
  assumes "stage_snapshot sha256 env store input content preflight w = (Inr u, w')" "honest_reads env"
  shows "sha256 content = ad_digest (li_descriptor input)"
    "length content = unat (ad_size_bytes (li_descriptor input))"
    "ad_size_bytes (li_descriptor input) \<le> ls_maximum_bytes store"
    "\<exists>d. fmlookup (w_fs w') (dir_path preflight @ [''source'']) = Some (FileNode d content)"
proof -
  let ?q = "dir_path preflight @ [''source'']"
  obtain v v' where v: "call env ?q (sys_create ?q) w = (Inr (), v)"
      "copy_and_verify_input sha256 env input (ls_maximum_bytes store) content ?q v = (Inr (), v')"
      "sync_all env preflight v' = (Inr u, w')"
    using assms(1) by (auto simp: stage_snapshot_def create_regular_file_def Let_def act_bind_Inr)
  obtain d where "fmlookup (w_fs v) ?q = Some (FileNode d [])"
    using v(1) by (auto simp: call_Inr sys_create_def split: if_splits option.splits)
  from copy_and_verify_Inr [OF v(2) assms(2) this] sync_all_Inr [OF v(3)]
  show "sha256 content = ad_digest (li_descriptor input)"
    "length content = unat (ad_size_bytes (li_descriptor input))"
    "ad_size_bytes (li_descriptor input) \<le> ls_maximum_bytes store"
    "\<exists>d. fmlookup (w_fs w') ?q = Some (FileNode d content)"
    by simp_all
qed

lemma stage_task_Inr:
  assumes "stage_task env layout preflight task_id out td w = (Inr staged, w')"
    and "fmlookup (w_fs w) (dir_path preflight @ [''source'']) = Some (FileNode d c)"
    and "dir_path preflight = dir_path (al_preflight layout) @ [name]"
    and "\<not> prefix (dir_path preflight) (dir_path td)" "\<not> prefix (dir_path td) (dir_path preflight)"
  shows "staged = \<lparr>sg_task_id = task_id, sg_task_directory = td, sg_output_directory = sg_output_directory staged,
      sg_output = out\<rparr>"
    and "dir_path (sg_output_directory staged) = dir_path td @ [''artifacts'', ''out'']"
    and "fmlookup (w_fs w') (input_path staged) = Some (FileNode d c)"
proof -
  let ?src = "dir_path preflight @ [''source'']" and ?in = "dir_path td @ [''artifacts'', ''in'', ''source'']"
  obtain a i o' w1 w2 w3 w4 w5 w6 w7 w8 w9 where
    a: "create_child env td ''artifacts'' w = (Inr a, w1)" and i: "create_child env a ''in'' w1 = (Inr i, w2)"
    and o': "create_child env a ''out'' w2 = (Inr o', w3)"
    and r: "rename_no_replace env preflight ''source'' i ''source'' w3 = (Inr (), w4)"
    and s: "sync_all env i w4 = (Inr (), w5)" "sync_all env o' w5 = (Inr (), w6)" "sync_all env td w6 = (Inr (), w7)"
      "sync_all env (al_staging layout) w7 = (Inr (), w8)"
    and e: "remove_empty_from env preflight (al_preflight layout) w8 = (Inr (), w9)"
      "sync_all env (al_preflight layout) w9 = (Inr (), w')"
    and staged: "staged = \<lparr>sg_task_id = task_id, sg_task_directory = td, sg_output_directory = o', sg_output = out\<rparr>"
    using assms(1) by (auto simp: stage_task_def act_bind_Inr)
  note paths = create_child_Inr(2) [OF a] create_child_Inr(2) [OF i] create_child_Inr(2) [OF o']
  have "stays ?src (w_fs w) (w_fs w3)"
    using keepsD [OF stay_create_child [of ?src env td "''artifacts''"], of w] a
      keepsD [OF stay_create_child [of ?src env a "''in''"], of w1] i
      keepsD [OF stay_create_child [of ?src env a "''out''"], of w2] o' by (simp add: stays_def)
  then have "fmlookup (w_fs w3) ?src = Some (FileNode d c)"
    using assms(2) by (simp add: stays_def)
  then have "fmlookup (w_fs w4) ?in = Some (FileNode d c)"
    using rename_Inr [OF r] paths by auto
  then have "fmlookup (w_fs w8) ?in = Some (FileNode d c)"
    using s sync_all_Inr by metis
  moreover have "dir_path (al_preflight layout) @ [last (dir_path preflight)] \<noteq> ?in"
    using assms(3,5) by (metis append_is_Nil_conv last_snoc not_Cons_self2 prefixI)
  ultimately have "fmlookup (w_fs w') ?in = Some (FileNode d c)"
    using keepsD [OF stay_remove_empty [of "al_preflight layout" preflight ?in env], of w8] e(1) sync_all_Inr [OF e(2)]
    by (simp add: stays_def)
  with staged paths show "staged = \<lparr>sg_task_id = task_id, sg_task_directory = td,
      sg_output_directory = sg_output_directory staged, sg_output = out\<rparr>"
    and "dir_path (sg_output_directory staged) = dir_path td @ [''artifacts'', ''out'']"
    and "fmlookup (w_fs w') (input_path staged) = Some (FileNode d c)"
    by (simp_all add: input_path_def)
qed


section \<open>Properties\<close>

lemma undo_Inr:
  "(case r of (Inl e, w') \<Rightarrow> (Inl e, h w') | (Inr x, w') \<Rightarrow> f x w') = (Inr y, w'') \<longleftrightarrow>
   (\<exists>x v. r = (Inr x, v) \<and> f x v = (Inr y, w''))"
  by (auto split: prod.splits sum.splits)

lemma staged_at:
  assumes "stage_open_input sha256 env store task_id input out content w = (Inr staged, w')" "honest_reads env"
  shows "valid_task_id task_id" "staged_in store staged" "sg_task_id staged = task_id" "sg_output staged = out"
    "sha256 content = ad_digest (li_descriptor input)" "length content = unat (ad_size_bytes (li_descriptor input))"
    "ad_size_bytes (li_descriptor input) \<le> ls_maximum_bytes store"
    "\<exists>d. fmlookup (w_fs w') (input_path staged) = Some (FileNode d content)"
proof -
  obtain layout name preflight td v v1 v2 v3 v4 where l: "open_layout env store w = (Inr layout, v)"
    and n: "next_preflight_name task_id v = (Inr name, v1)"
    and p: "create_child env (al_preflight layout) name v1 = (Inr preflight, v2)"
    and snap: "stage_snapshot sha256 env store input content preflight v2 = (Inr (), v3)"
    and td: "create_child env (al_staging layout) task_id v3 = (Inr td, v4)"
    and st: "stage_task env layout preflight task_id out td v4 = (Inr staged, w')" and id: "valid_task_id task_id"
    using assms(1)
    by (auto simp: stage_open_input_def act_bind_Inr or_else_Inr undo_Inr split: if_splits)
  have paths: "dir_path (al_preflight layout) = dir_path (ls_root store) @ [''.taskcage'', ''preflight'']"
      "dir_path (al_staging layout) = dir_path (ls_root store) @ [''.taskcage'', ''staging'']"
    using yields_open_layout [of env store] l unfolding yields_def by blast+
  note pre = create_child_Inr(2) [OF p] and tdp = create_child_Inr(2) [OF td]
  note verified = stage_snapshot_Inr [OF snap assms(2)]
  obtain d where d: "fmlookup (w_fs v3) (dir_path preflight @ [''source'']) = Some (FileNode d content)"
    using verified(4) by blast
  then have "fmlookup (w_fs v4) (dir_path preflight @ [''source'']) = Some (FileNode d content)"
    using keepsD [OF stay_create_child [of "dir_path preflight @ [''source'']" env "al_staging layout" task_id], of v3] td
    by (simp add: stays_def)
  note done' = stage_task_Inr [OF st this pre]
  have apart: "\<not> prefix (dir_path preflight) (dir_path td)" "\<not> prefix (dir_path td) (dir_path preflight)"
    by (simp_all add: pre tdp paths)
  show "staged_in store staged" "sg_task_id staged = task_id" "sg_output staged = out"
    using done'(1,2) [OF apart] tdp paths by (auto simp: staged_in_def) (metis staged_task.select_convs)+
  show "\<exists>d. fmlookup (w_fs w') (input_path staged) = Some (FileNode d content)"
    using done'(3) [OF apart] by blast
  show "valid_task_id task_id" "sha256 content = ad_digest (li_descriptor input)"
    "length content = unat (ad_size_bytes (li_descriptor input))"
    "ad_size_bytes (li_descriptor input) \<le> ls_maximum_bytes store"
    by (fact id verified)+
qed

lemma open_input_from_Inr:
  "open_input_from env d names w = (Inr content, w') \<Longrightarrow>
   w_fs w' = w_fs w \<and> (\<exists>k. fmlookup (w_fs w) (dir_path d @ names) = Some (FileNode k content))"
proof (induction env d names arbitrary: w rule: open_input_from.induct)
  case (2 env d name)
  then show ?case
    using open_regular_file_Inr [of env d name w content w'] by simp
next
  case (3 env d name name' rest)
  then obtain sub v where v: "open_child env d name w = (Inr sub, v)"
      "open_input_from env sub (name' # rest) v = (Inr content, w')"
    by (auto simp: act_bind_Inr)
  moreover have "dir_path sub = dir_path d @ [name]"
    using yields_open_child [of env d name] v(1) unfolding yields_def by blast
  ultimately show ?case
    using "3.IH" [OF v(2)] open_child_Inr [OF v(1)] by simp
qed simp

lemma open_input_Inr:
  assumes "open_input env store p w = (Inr content, w')"
  shows "w_fs w' = w_fs w"
    "\<exists>k. fmlookup (w_fs w) (dir_path (ls_root store) @ split_on (CHR ''/'') (path_str p)) = Some (FileNode k content)"
proof -
  obtain k v where v: "call env (dir_path (ls_root store)) (sys_open_dir (dir_path (ls_root store))) w = (Inr k, v)"
      "open_input_from env (ls_root store) (split_on (CHR ''/'') (path_str p)) v = (Inr content, w')"
    using assms by (auto simp: open_input_def act_bind_Inr split: if_splits)
  then have "w_fs v = w_fs w"
    by (auto simp: call_Inr sys_open_dir_def split: option.splits node.splits)
  with open_input_from_Inr [OF v(2)] show "w_fs w' = w_fs w"
    "\<exists>k. fmlookup (w_fs w) (dir_path (ls_root store) @ split_on (CHR ''/'') (path_str p)) = Some (FileNode k content)"
    by simp_all
qed


text \<open>The path reported for a published artifact: the task id and the declared name make it valid.\<close>

lemma valid_task_id_chars: "valid_task_id task_id \<Longrightarrow> c \<in> set task_id \<Longrightarrow> c = CHR ''-'' \<or> is_lower_hex c"
  by (force simp: valid_task_id_def list_all_iff set_zip in_set_conv_nth)

lemma published_path:
  assumes "valid_task_id task_id" "declared_output_new f media maximum = Inr out" "length f \<le> 255"
  shows "artifact_path_parse (published_text task_id f) = Inr (ArtifactPath (published_text task_id f))"
    "split_on (CHR ''/'') (published_text task_id f) = [''tasks'', task_id, f]"
proof -
  have f: "f \<noteq> []" "f \<noteq> ''.''" "f \<noteq> ''..''" "CHR ''/'' \<notin> set f"
      "\<forall>c \<in> set f. c \<noteq> nul \<and> c \<noteq> backslash \<and> \<not> is_ascii_control c"
    using assms(2) by (auto simp: declared_output_new_def list_ex_iff split: if_splits)
  have hex: "is_lower_hex c \<Longrightarrow> c \<noteq> CHR ''/'' \<and> c \<noteq> nul \<and> c \<noteq> backslash \<and> \<not> is_ascii_control c" for c
    by (auto simp: is_lower_hex_def ascii_defs byte_def nul_char backslash_char)
  have dash: "CHR ''-'' \<noteq> nul" "CHR ''-'' \<noteq> backslash" "\<not> is_ascii_control (CHR ''-'')"
    by (simp_all add: ascii_defs byte_def nul_char backslash_char)
  have chars: "c \<noteq> CHR ''/'' \<and> c \<noteq> nul \<and> c \<noteq> backslash \<and> \<not> is_ascii_control c" if "c \<in> set task_id" for c
    using valid_task_id_chars [OF assms(1) that] hex [of c] dash by auto
  have id: "length task_id = 36" "CHR ''/'' \<notin> set task_id"
      "\<forall>c \<in> set task_id. c \<noteq> nul \<and> c \<noteq> backslash \<and> \<not> is_ascii_control c"
    using chars assms(1) by (simp add: valid_task_id_def, blast+)
  have "split_on (CHR ''/'') (''tasks'' @ CHR ''/'' # task_id @ CHR ''/'' # f) = [''tasks'', task_id, f]"
    using split_on_append_sep [OF id(2), of f] split_on_absent [OF f(4)] by simp
  then show split: "split_on (CHR ''/'') (published_text task_id f) = [''tasks'', task_id, f]"
    by (simp add: published_text_def)
  have tasks: "check_segments (''tasks'' # segments) = check_segments segments" for segments
    by (simp add: ascii_defs byte_def nul_char backslash_char)
  have "task_id \<noteq> []" "task_id \<noteq> ''.''" "task_id \<noteq> ''..''"
    using id(1) by auto
  then have "check_segments [task_id, f] = Inr ()"
    unfolding check_segments_Ok using f(1-3,5) id(3) by simp
  then have "check_segments [''tasks'', task_id, f] = Inr ()"
    by (simp only: tasks)
  then show "artifact_path_parse (published_text task_id f) = Inr (ArtifactPath (published_text task_id f))"
    unfolding artifact_path_parse_Ok split using id(1) assms(3) by (simp add: published_text_def)
qed

text \<open>
  C11: whatever system calls fail, neither staging an input nor publishing an output changes or
  removes anything that was in the file system before, but for what lies in the directory of the
  task itself: no published artifact, input of a client or staging of another task is lost.
\<close>

theorem store_keeps_existing:
  assumes "rooted (w_fs w)" "fmlookup (w_fs w) p = Some n"
    and "staged_in store staged" "\<not> prefix (dir_path (sg_task_directory staged)) p"
  shows "fmlookup (w_fs (snd (stage_input sha256 env store task_id input out w))) p = Some n \<and>
    fmlookup (w_fs (snd (publish_for_profile sha256 env store staged w))) p = Some n"
proof
  obtain r v where r: "open_input env store (li_path input) w = (r, v)"
    by force
  then have "w_fs v = w_fs w"
    using keepsD [OF same.keeps_open_input, of w env store "li_path input"] by simp
  then show "fmlookup (w_fs (snd (stage_input sha256 env store task_id input out w))) p = Some n"
    using r assms(1,2) stage_open_input_stays [of v p n] by (cases r) (simp_all add: stage_input_def act_bind_def)
  show "fmlookup (w_fs (snd (publish_for_profile sha256 env store staged w))) p = Some n"
    by (rule publish_for_profile_stays [OF assms(3,4,1,2)])
qed

text \<open>
  C13: a staged input is an exact snapshot. The bytes were read at the declared path below the root
  of the store, they have the declared digest and size, and the file that the target is given holds
  exactly them.
\<close>

theorem staged_input_is_snapshot:
  assumes "stage_input sha256 env store task_id input out w = (Inr staged, w')" "honest_reads env"
  shows "staged_in store staged \<and> valid_task_id task_id \<and> sg_task_id staged = task_id \<and> sg_output staged = out \<and>
    (\<exists>content d d'.
      fmlookup (w_fs w) (dir_path (ls_root store) @ split_on (CHR ''/'') (path_str (li_path input))) =
        Some (FileNode d content) \<and>
      sha256 content = ad_digest (li_descriptor input) \<and>
      length content = unat (ad_size_bytes (li_descriptor input)) \<and>
      ad_size_bytes (li_descriptor input) \<le> ls_maximum_bytes store \<and>
      fmlookup (w_fs w') (input_path staged) = Some (FileNode d' content))"
proof -
  obtain content v where v: "open_input env store (li_path input) w = (Inr content, v)"
      "stage_open_input sha256 env store task_id input out content v = (Inr staged, w')"
    using assms(1) by (auto simp: stage_input_def act_bind_Inr)
  show ?thesis
    using open_input_Inr(2) [OF v(1)] staged_at [OF v(2) assms(2)] by blast
qed


text \<open>
  C12: a published output is exactly what the target wrote. Its directory did not exist before, the
  file at the reported path holds the staged bytes, the reported digest and size are those of the
  bytes and within both limits, and nothing is left of the staging directory. The path of the result
  never fails to parse, so the publication does not panic.
\<close>

theorem published_exactly:
  assumes "publish_for_profile sha256 env store staged w = (Inr (Inr result), w')"
    and "staged_in store staged" "honest_reads env" "valid_task_id (sg_task_id staged)"
    and "declared_output_new f media maximum = Inr (sg_output staged)" "length f \<le> 255"
  shows "\<exists>artifact d content. result = Some artifact \<and>
    fmlookup (w_fs w) (output_path staged) = Some (FileNode d content) \<and>
    fmlookup (w_fs w) (dir_path (ls_root store) @ [''tasks'', sg_task_id staged]) = None \<and>
    fmlookup (w_fs w') (dir_path (ls_root store) @ split_on (CHR ''/'') (path_str (pa_path artifact))) =
      Some (FileNode d content) \<and>
    ad_digest (pa_descriptor artifact) = sha256 content \<and>
    unat (ad_size_bytes (pa_descriptor artifact)) = length content \<and>
    ad_size_bytes (pa_descriptor artifact) \<le> min maximum (ls_maximum_bytes store) \<and>
    ad_media_type (pa_descriptor artifact) = Some media \<and>
    gone (dir_path (sg_task_directory staged)) (w_fs w')"
proof -
  have out: "sg_output staged = \<lparr>do_file_name = f, do_media_type = media, do_maximum_bytes = maximum\<rparr>"
    using assms(5) by (auto simp: declared_output_new_def split: if_splits)
  have inner: "publish_inner sha256 env store staged w = (Inr result, w')"
    using assms(1) by (auto simp: publish_for_profile_def split: prod.splits sum.splits bool.splits)
  note path = published_path [OF assms(4-6)]
  obtain v1 content v2 size digest v3 v4 where
    v1: "validate_declared_staging env staged w = (Inr (), v1)"
    and v2: "open_regular_file env (sg_output_directory staged) f v1 = (Inr content, v2)"
    and v3: "verify_output sha256 env content (min maximum (ls_maximum_bytes store)) v2 = (Inr (size, digest), v3)"
    and v4: "call env (output_path staged) (\<lambda>m. Inr ((), m)) v3 = (Inr (), v4)"
    and m: "publish_move env store staged v4 = (Inr (), w')"
    and res: "result = Some (published_artifact_new (ArtifactPath (published_text (sg_task_id staged) f)) digest size media)"
    using inner path(1) by (auto simp: publish_inner_def Let_def act_bind_Inr out)
  note same = open_regular_file_Inr(1) [OF v2] verify_output_Inr(4) [OF v3 assms(3)]
  have "w_fs v1 = w_fs w"
    using keepsD [OF same.keeps_validate_declared_staging, of w env staged] v1 by simp
  with same v4 have w: "w_fs v4 = w_fs w" "w_fs v1 = w_fs w"
    by (auto simp: call_Inr)
  obtain d where d: "fmlookup (w_fs w) (output_path staged) = Some (FileNode d content)"
    using open_regular_file_Inr(2) [OF v2] w(2) by (auto simp: output_path_def out)
  note moved = publish_move_Inr [OF m assms(2), unfolded w(1), OF d]
  show ?thesis
    by (rule exI [of _ "published_artifact_new (ArtifactPath (published_text (sg_task_id staged) f)) digest size media"],
        rule exI [of _ d], rule exI [of _ content])
      (use res d moved path(2) verify_output_Inr(1-3) [OF v3 assms(3)] out in \<open>simp add: published_artifact_new_def\<close>)
qed

text \<open>
  C25: when an output is reported as refused, its staging directory has been removed, except when
  the very query for its existence fails: a failed query counts as absence.
\<close>

theorem refused_output_cleaned:
  assumes "publish_for_profile sha256 env store staged w = (Inr (Inl error), w')" "staged_in store staged"
    and "en_fault env (w_tick (snd (publish_inner sha256 env store staged w))) = None"
  shows "fmlookup (w_fs w') (dir_path (sg_task_directory staged)) \<notin> range (\<lambda>d. Some (DirNode d))"
proof -
  let ?S = "dir_path (sg_task_directory staged)"
  obtain v where v: "publish_inner sha256 env store staged w = (Inl error, v)"
    using assms(1) by (auto simp: publish_for_profile_def split: prod.splits sum.splits bool.splits)
  obtain b v' where b: "path_exists env ?S v = (b, v')"
    by force
  show ?thesis
  proof (cases b)
    case True
    with assms(1) v b have "cleanup_staging env store staged v' = (Inr (), w')"
      by (auto simp: publish_for_profile_def split: prod.splits sum.splits)
    from cleanup_Inr [OF this assms(2)] show ?thesis
      by (auto simp: gone_def)
  next
    case False
    with assms(1) v b have "w' = v'"
      by (simp add: publish_for_profile_def)
    then show ?thesis
      using False b assms(3) v
      by (auto simp: path_exists_def syscall_def sys_metadata_def split: option.splits if_splits)
  qed
qed

section \<open>An example store\<close>

definition sample_sha256 :: "string \<Rightarrow> sha256_digest" where
  "sample_sha256 content = Sha256Digest (map (\<lambda>c. of_nat (byte c)) content)"

definition sample_env :: env where
  "sample_env =
     \<lparr>en_fault = \<lambda>_. None, en_survives = \<lambda>_ _. True,
      en_reads = \<lambda>_ content.
        if content = [] then [] else if length content \<le> 16384 then [Inr content] else [Inl ()],
      en_target = \<lambda>_ _. True\<rparr>"

definition sample_store :: local_store where
  "sample_store = \<lparr>ls_root = \<lparr>dir_path = [''data''], dir_device = 7\<rparr>, ls_maximum_bytes = 100\<rparr>"

definition sample_task :: string where
  "sample_task = ''01234567-89ab-cdef-0123-456789abcdef''"

definition sample_input :: local_input_artifact where
  "sample_input = local_input_artifact_new (ArtifactPath ''in/a'') (sample_sha256 ''xy'') 2"

definition sample_output :: declared_output_artifact where
  "sample_output = \<lparr>do_file_name = ''o'', do_media_type = ''m'', do_maximum_bytes = 50\<rparr>"

definition sample_world :: world where
  "sample_world =
     \<lparr>w_fs = fmap_of_list [([], DirNode 7), ([''data''], DirNode 7), ([''data'', ''in''], DirNode 7),
        ([''data'', ''in'', ''a''], FileNode 7 ''xy'')], w_tick = 0, w_sequence = 0\<rparr>"

definition sample_staged :: staged_task where
  "sample_staged =
     (let d = [''data'', ''.taskcage'', ''staging'', sample_task] in
      \<lparr>sg_task_id = sample_task, sg_task_directory = \<lparr>dir_path = d, dir_device = 7\<rparr>,
       sg_output_directory = \<lparr>dir_path = d @ [''artifacts'', ''out''], dir_device = 7\<rparr>, sg_output = sample_output\<rparr>)"

lemma sample_valid: "valid_task_id sample_task"
  by (simp add: valid_task_id_def sample_task_def is_lower_hex_def ascii_defs byte_def upt_rec)

lemma sample_no_nul: "nul \<notin> set sample_task"
  by (simp add: sample_task_def nul_char)

lemma ok_call: "f (w_fs w) = Inr (x, m) \<Longrightarrow> call sample_env p f w = (Inr x, w\<lparr>w_fs := m, w_tick := Suc (w_tick w)\<rparr>)"
  by (simp add: call_def syscall_def sample_env_def)

lemma ok_open_child:
  "nul \<notin> set name \<Longrightarrow> fmlookup (w_fs w) (dir_path d @ [name]) = Some (DirNode (dir_device d)) \<Longrightarrow>
   open_child sample_env d name w = (Inr \<lparr>dir_path = dir_path d @ [name], dir_device = dir_device d\<rparr>, w\<lparr>w_tick := Suc (w_tick w)\<rparr>)"
  by (simp add: open_child_def Let_def act_bind_def c_name_def return_def call_def syscall_def sample_env_def sys_open_dir_def)

lemma ok_create_child:
  "nul \<notin> set name \<Longrightarrow> fmlookup (w_fs w) (dir_path d @ [name]) = None \<Longrightarrow>
   fmlookup (w_fs w) (dir_path d) = Some (DirNode (dir_device d)) \<Longrightarrow>
   create_child sample_env d name w = (Inr \<lparr>dir_path = dir_path d @ [name], dir_device = dir_device d\<rparr>,
     w\<lparr>w_fs := fmupd (dir_path d @ [name]) (DirNode (dir_device d)) (w_fs w), w_tick := Suc (Suc (w_tick w))\<rparr>)"
  by (simp add: create_child_def Let_def act_bind_def c_name_def return_def call_def syscall_def sample_env_def
    sys_mkdir_def parent_device_def open_child_def sys_open_dir_def)

lemma ok_open_or_create:
  "nul \<notin> set name \<Longrightarrow> fmlookup (w_fs w) (dir_path d @ [name]) = None \<Longrightarrow>
   fmlookup (w_fs w) (dir_path d) = Some (DirNode (dir_device d)) \<Longrightarrow>
   open_or_create_child sample_env d name w = (Inr \<lparr>dir_path = dir_path d @ [name], dir_device = dir_device d\<rparr>,
     w\<lparr>w_fs := fmupd (dir_path d @ [name]) (DirNode (dir_device d)) (w_fs w), w_tick := Suc (Suc (w_tick w))\<rparr>)"
  by (simp add: open_or_create_child_def Let_def act_bind_def c_name_def return_def call_def syscall_def sample_env_def
    sys_mkdir_def parent_device_def open_child_def sys_open_dir_def)

lemma ok_sync: "sync_all sample_env d w = (Inr (), w\<lparr>w_tick := Suc (Suc (w_tick w))\<rparr>)"
  by (simp add: sync_all_def act_bind_def ok_call)

lemma ok_rename:
  "nul \<notin> set a \<Longrightarrow> nul \<notin> set b \<Longrightarrow> fmlookup (w_fs w) (dir_path d @ [a]) = Some (FileNode k c) \<Longrightarrow>
   fmlookup (w_fs w) (dir_path d' @ [b]) = None \<Longrightarrow> fmlookup (w_fs w) (dir_path d') = Some (DirNode k') \<Longrightarrow>
   rename_no_replace sample_env d a d' b w =
     (Inr (), w\<lparr>w_fs := fmupd (dir_path d' @ [b]) (FileNode k c) (fmdrop (dir_path d @ [a]) (w_fs w)), w_tick := Suc (w_tick w)\<rparr>)"
  by (simp add: rename_no_replace_def Let_def act_bind_def c_name_def return_def syscall_def sample_env_def
    sys_rename_def parent_device_def)

definition sample_layout :: artifact_layout where
  "sample_layout =
     \<lparr>al_preflight = \<lparr>dir_path = [''data'', ''.taskcage'', ''preflight''], dir_device = 7\<rparr>,
      al_staging = \<lparr>dir_path = [''data'', ''.taskcage'', ''staging''], dir_device = 7\<rparr>,
      al_published = \<lparr>dir_path = [''data'', ''tasks''], dir_device = 7\<rparr>\<rparr>"

lemma ok_layout:
  "w_fs w = w_fs sample_world \<Longrightarrow>
   open_layout sample_env sample_store w = (Inr sample_layout,
     w\<lparr>w_fs := fmupd [''data'', ''tasks''] (DirNode 7) (fmupd [''data'', ''.taskcage'', ''staging''] (DirNode 7)
       (fmupd [''data'', ''.taskcage'', ''preflight''] (DirNode 7) (fmupd [''data'', ''.taskcage''] (DirNode 7)
       (w_fs sample_world)))), w_tick := 8 + w_tick w\<rparr>)"
  by (simp add: open_layout_def act_bind_def ok_open_or_create return_def nul_char sample_store_def sample_world_def
    sample_layout_def)

lemma ok_open_file:
  "nul \<notin> set name \<Longrightarrow> fmlookup (w_fs w) (dir_path d @ [name]) = Some (FileNode (dir_device d) c) \<Longrightarrow>
   open_regular_file sample_env d name w = (Inr c, w\<lparr>w_tick := Suc (w_tick w)\<rparr>)"
  by (simp add: open_regular_file_def Let_def act_bind_def c_name_def return_def call_def syscall_def sample_env_def
    sys_open_file_def)

lemma ok_create_file:
  "nul \<notin> set name \<Longrightarrow> fmlookup (w_fs w) (dir_path d @ [name]) = None \<Longrightarrow>
   fmlookup (w_fs w) (dir_path d) = Some (DirNode k) \<Longrightarrow>
   create_regular_file sample_env d name w = (Inr (dir_path d @ [name]),
     w\<lparr>w_fs := fmupd (dir_path d @ [name]) (FileNode k []) (w_fs w), w_tick := Suc (w_tick w)\<rparr>)"
  by (simp add: create_regular_file_def Let_def act_bind_def c_name_def return_def call_def syscall_def sample_env_def
    sys_create_def parent_device_def)

lemma ok_remove_empty:
  "nul \<notin> set (last (dir_path d)) \<Longrightarrow> dir_path parent @ [last (dir_path d)] = q \<Longrightarrow>
   fmlookup (w_fs w) q = Some (DirNode k) \<Longrightarrow> \<not> has_child (w_fs w) q \<Longrightarrow>
   remove_empty_from sample_env d parent w = (Inr (), w\<lparr>w_fs := fmdrop q (w_fs w), w_tick := Suc (Suc (Suc (w_tick w)))\<rparr>)"
  by (simp add: remove_empty_from_def Let_def act_bind_def c_name_def return_def ok_call ok_sync sys_rmdir_def)

lemma has_child_upd:
  "has_child (fmupd q n m) p \<longleftrightarrow> strict_prefix p q \<or> has_child m p"
  by (simp add: has_child_def)

lemma ok_copy:
  "fmlookup (w_fs w) q = Some (FileNode k []) \<Longrightarrow>
   copy_and_verify_input sample_sha256 sample_env sample_input 100 ''xy'' q w =
     (Inr (), w\<lparr>w_fs := fmupd q (FileNode k ''xy'') (w_fs w), w_tick := Suc (Suc (w_tick w))\<rparr>)"
  by (simp add: copy_and_verify_input_def act_bind_def ok_call sys_append_def sample_input_def local_input_artifact_new_def
    sample_env_def checked_add_def return_def lift_verification_def check_descriptor_def ok_call [unfolded sample_env_def])

lemma ok_input: "open_input sample_env sample_store (li_path sample_input) sample_world =
  (Inr ''xy'', sample_world\<lparr>w_tick := 3\<rparr>)"
  by (simp add: open_input_def act_bind_def ok_call sys_open_dir_def ok_open_child ok_open_file sample_world_def
    sample_store_def sample_input_def local_input_artifact_new_def nul_char)

definition sample_preflight :: artifact_directory where
  "sample_preflight = \<lparr>dir_path = [''data'', ''.taskcage'', ''preflight'', sample_task @ ''-0''], dir_device = 7\<rparr>"

lemma sample_digit: "digit_char 0 = CHR ''0''"
  by code_simp

lemma ok_preflight:
  "w_sequence w = 0 \<Longrightarrow> next_preflight_name sample_task w = (Inr (sample_task @ ''-0''), w\<lparr>w_sequence := 1\<rparr>)"
  by (simp add: next_preflight_name_def decimal.simps sample_digit)

lemma sample_names: "nul \<notin> set (sample_task @ ''-0'')" "sample_task \<noteq> []"
  by (simp_all add: sample_task_def nul_char)

definition sample_snapshot_fs :: fs where
  "sample_snapshot_fs =
    fmupd [''data'', ''.taskcage'', ''staging'', sample_task] (DirNode 7)
     (fmupd [''data'', ''.taskcage'', ''preflight'', sample_task @ ''-0'', ''source''] (FileNode 7 ''xy'')
     (fmupd [''data'', ''.taskcage'', ''preflight'', sample_task @ ''-0''] (DirNode 7)
     (fmupd [''data'', ''tasks''] (DirNode 7) (fmupd [''data'', ''.taskcage'', ''staging''] (DirNode 7)
       (fmupd [''data'', ''.taskcage'', ''preflight''] (DirNode 7) (fmupd [''data'', ''.taskcage''] (DirNode 7)
       (w_fs sample_world)))))))"

lemma fmupd_same: "fmupd k v (fmupd k v' m) = fmupd k v m"
  by (rule fmap_ext) simp

lemma ok_snapshot:
  assumes "w_fs w = fmupd [''data'', ''.taskcage'', ''preflight'', sample_task @ ''-0''] (DirNode 7)
     (fmupd [''data'', ''tasks''] (DirNode 7) (fmupd [''data'', ''.taskcage'', ''staging''] (DirNode 7)
       (fmupd [''data'', ''.taskcage'', ''preflight''] (DirNode 7) (fmupd [''data'', ''.taskcage''] (DirNode 7)
       (w_fs sample_world)))))"
  shows "act_bind (stage_snapshot sample_sha256 sample_env sample_store sample_input ''xy'' sample_preflight) (\<lambda>_.
    create_child sample_env (al_staging sample_layout) sample_task) w =
    (Inr \<lparr>dir_path = [''data'', ''.taskcage'', ''staging'', sample_task], dir_device = 7\<rparr>,
      w\<lparr>w_fs := sample_snapshot_fs, w_tick := 7 + w_tick w\<rparr>)"
  using sample_names
  by (simp add: stage_snapshot_def act_bind_def ok_create_file ok_copy ok_sync ok_create_child sample_store_def sample_layout_def
   sample_preflight_def assms fmupd_same sample_world_def sample_snapshot_fs_def nul_char)

lemma sample_drop: "fmdrop q (fmupd k v m) = (if q = k then fmdrop q m else fmupd k v (fmdrop q m))"
  by (rule fmap_ext) simp

lemma sample_drop_none: "fmlookup m q = None \<Longrightarrow> fmdrop q m = m"
  by (rule fmap_ext) simp

lemma sample_absent: "length q > 3 \<Longrightarrow> fmlookup (w_fs sample_world) q = None"
  by (auto simp: sample_world_def)

lemma sample_drop_world: "length q > 3 \<Longrightarrow> fmdrop q (w_fs sample_world) = w_fs sample_world"
  by (rule sample_drop_none) (rule sample_absent)

lemma sample_childless: "length q > 3 \<Longrightarrow> \<not> has_child (w_fs sample_world) q"
  by (auto simp: sample_world_def has_child_def strict_prefix_def dest!: prefix_length_le)

lemma ok_task:
  assumes "w_fs w = sample_snapshot_fs"
  shows "fst (stage_task sample_env sample_layout sample_preflight sample_task sample_output 
     \<lparr>dir_path = [''data'', ''.taskcage'', ''staging'', sample_task], dir_device = 7\<rparr> w) = Inr sample_staged"
  using sample_names
  by (simp add: stage_task_def act_bind_def ok_create_child ok_rename ok_sync ok_remove_empty [OF _ refl] return_def 
   sample_layout_def sample_preflight_def assms fmupd_same sample_snapshot_fs_def nul_char has_child_upd
   sample_drop sample_drop_world sample_childless sample_staged_def sample_absent)

lemma or_else_fst: "fst (or_else m undo w) = fst (m w)"
  by (simp add: or_else_def split: prod.split sum.split)

lemma ok_stage:
  "fst (stage_input sample_sha256 sample_env sample_store sample_task sample_input sample_output sample_world) =
   Inr sample_staged"
proof -
  let ?fs = "fmupd [''data'', ''tasks''] (DirNode 7) (fmupd [''data'', ''.taskcage'', ''staging''] (DirNode 7)
       (fmupd [''data'', ''.taskcage'', ''preflight''] (DirNode 7) (fmupd [''data'', ''.taskcage''] (DirNode 7)
       (w_fs sample_world))))"
  let ?w = "\<lparr>w_fs = ?fs, w_tick = 11, w_sequence = 1\<rparr>"
  let ?v = "\<lparr>w_fs = fmupd [''data'', ''.taskcage'', ''preflight'', sample_task @ ''-0''] (DirNode 7) ?fs, w_tick = 13, w_sequence = 1\<rparr>"
  have layout: "open_layout sample_env sample_store (sample_world\<lparr>w_tick := 3\<rparr>) =
      (Inr sample_layout, \<lparr>w_fs = ?fs, w_tick = 11, w_sequence = 0\<rparr>)"
    by (simp add: ok_layout) (simp add: sample_world_def)
  have name: "next_preflight_name sample_task \<lparr>w_fs = ?fs, w_tick = 11, w_sequence = 0\<rparr> = (Inr (sample_task @ ''-0''), ?w)"
    by (simp add: ok_preflight)
  have "create_child sample_env (al_preflight sample_layout) (sample_task @ ''-0'') ?w = (Inr sample_preflight, ?v)"
    using ok_create_child [OF sample_names(1), of ?w "al_preflight sample_layout"]
    by (simp add: sample_layout_def sample_absent sample_preflight_def)
  then show ?thesis
    unfolding stage_input_def act_bind_step [of "open_input sample_env sample_store (li_path sample_input)", OF ok_input]
    by (simp add: stage_open_input_def sample_valid act_bind_step [of "open_layout sample_env sample_store", OF layout]
        act_bind_step [of "next_preflight_name sample_task", OF name]
        act_bind_step [of "create_child sample_env (al_preflight sample_layout) (sample_task @ ''-0'')"] ok_snapshot
        or_else_fst ok_task)
qed

definition sample_tree :: fs where
  "sample_tree =
     (let s = [''data'', ''.taskcage'', ''staging''] in
      fmupd (s @ [sample_task, ''artifacts'', ''in'', ''source'']) (FileNode 7 ''xy'')
      (fmupd (s @ [sample_task, ''artifacts'', ''out'']) (DirNode 7)
      (fmupd (s @ [sample_task, ''artifacts'', ''in'']) (DirNode 7)
      (fmupd (s @ [sample_task, ''artifacts'']) (DirNode 7)
      (fmupd (s @ [sample_task]) (DirNode 7)
      (fmupd s (DirNode 7) (fmupd [''data'', ''.taskcage'', ''preflight''] (DirNode 7)
      (fmupd [''data'', ''.taskcage''] (DirNode 7) (fmupd [''data'', ''tasks''] (DirNode 7)
      (fmupd [''data''] (DirNode 7) fmempty))))))))))"

definition sample_finished :: fs where
  "sample_finished =
     fmupd [''data'', ''.taskcage'', ''staging'', sample_task, ''artifacts'', ''out'', ''o''] (FileNode 7 ''ab'') sample_tree"

lemma ok_open_existing:
  "nul \<notin> set name \<Longrightarrow> fmlookup (w_fs w) (dir_path d @ [name]) = Some (DirNode (dir_device d)) \<Longrightarrow>
   open_or_create_child sample_env d name w = (Inr \<lparr>dir_path = dir_path d @ [name], dir_device = dir_device d\<rparr>,
     w\<lparr>w_tick := Suc (Suc (w_tick w))\<rparr>)"
  by (simp add: open_or_create_child_def Let_def act_bind_def c_name_def return_def call_def syscall_def sample_env_def
    sys_mkdir_def parent_device_def open_child_def sys_open_dir_def)

lemma children_upd:
  "children p (fmupd q n m) = (if q \<noteq> [] \<and> butlast q = p then finsert (last q) (children p m) else children p m)"
  by (auto simp: children_def)

lemma children_empty: "children p fmempty = {||}"
  by (auto simp: children_def)

lemma ok_existing_layout:
  assumes "fmlookup (w_fs w) [''data'', ''.taskcage''] = Some (DirNode 7)"
    "fmlookup (w_fs w) [''data'', ''.taskcage'', ''preflight''] = Some (DirNode 7)"
    "fmlookup (w_fs w) [''data'', ''.taskcage'', ''staging''] = Some (DirNode 7)"
    "fmlookup (w_fs w) [''data'', ''tasks''] = Some (DirNode 7)"
  shows "open_layout sample_env sample_store w = (Inr sample_layout, w\<lparr>w_tick := 8 + w_tick w\<rparr>)"
  using assms
  by (simp add: open_layout_def act_bind_def ok_open_existing return_def nul_char sample_store_def sample_layout_def)

lemma ok_cleanup:
  assumes "fmlookup (w_fs w) [''data'', ''.taskcage''] = Some (DirNode 7)"
    "fmlookup (w_fs w) [''data'', ''.taskcage'', ''preflight''] = Some (DirNode 7)"
    "fmlookup (w_fs w) [''data'', ''.taskcage'', ''staging''] = Some (DirNode 7)"
    "fmlookup (w_fs w) [''data'', ''tasks''] = Some (DirNode 7)"
    "fmlookup (w_fs w) [''data'', ''.taskcage'', ''staging'', sample_task] = Some (DirNode 7)"
  shows "\<exists>w'. cleanup_staging sample_env sample_store sample_staged w = (Inr (), w')"
proof -
  obtain v where v: "remove_tree sample_env (sg_task_directory sample_staged) w = (Inr (), v)"
      "w_fs v = remove_below [''data'', ''.taskcage'', ''staging'', sample_task] (w_fs w)"
    using assms(5) by (simp add: remove_tree_def sys_remove_tree_def sample_env_def sample_staged_def)
  have "open_layout sample_env sample_store v = (Inr sample_layout, v\<lparr>w_tick := 8 + w_tick v\<rparr>)"
    by (rule ok_existing_layout) (use assms v(2) in \<open>simp_all add: remove_below_def\<close>)
  with v(1) show ?thesis
    by (simp add: cleanup_staging_def act_bind_def ok_sync)
qed

definition quiet :: "fs \<Rightarrow> unit act \<Rightarrow> bool" where
  "quiet m a \<longleftrightarrow> (\<forall>w. w_fs w = m \<longrightarrow> (\<exists>t. a w = (Inr (), w\<lparr>w_tick := t\<rparr>)))"

lemma quiet_bind: "quiet m a \<Longrightarrow> quiet m b \<Longrightarrow> quiet m (act_bind a (\<lambda>_. b))"
proof -
  assume q: "quiet m a" "quiet m b"
  have "\<exists>t. act_bind a (\<lambda>_. b) w = (Inr (), w\<lparr>w_tick := t\<rparr>)" if "w_fs w = m" for w
  proof -
    obtain t where t: "a w = (Inr (), w\<lparr>w_tick := t\<rparr>)"
      using q(1) \<open>w_fs w = m\<close> unfolding quiet_def by blast
    obtain t' where "b (w\<lparr>w_tick := t\<rparr>) = (Inr (), w\<lparr>w_tick := t\<rparr>\<lparr>w_tick := t'\<rparr>)"
      using q(2) [unfolded quiet_def, rule_format, of "w\<lparr>w_tick := t\<rparr>"] \<open>w_fs w = m\<close> by auto
    with t show ?thesis
      by (auto simp: act_bind_def)
  qed
  then show ?thesis
    by (simp add: quiet_def)
qed

lemma quiet_links:
  "list_all (\<lambda>name. fmlookup m (p @ [name]) \<notin> {None, Some SymlinkNode}) names \<Longrightarrow>
   quiet m (reject_symlinks sample_env p names)"
proof (induction names)
  case Nil
  have "return () w = (Inr (), w\<lparr>w_tick := w_tick w\<rparr>)" for w
    by (simp add: return_def)
  then show ?case
    unfolding quiet_def reject_symlinks.simps by blast
next
  case (Cons name names)
  then have "\<exists>t. reject_symlinks sample_env p (name # names) w = (Inr (), w\<lparr>w_tick := t\<rparr>)" if "w_fs w = m" for w
    using Cons.IH [unfolded quiet_def, rule_format, of "w\<lparr>w_tick := Suc (w_tick w)\<rparr>"] that
    by (auto simp: act_bind_def ok_call sys_metadata_def)
  then show ?case
    by (simp add: quiet_def)
qed

lemma quiet_exact:
  assumes "fmlookup m p = Some (DirNode k)" "sorted_list_of_fset (children p m) = sort expected"
    and "list_all (\<lambda>name. fmlookup m (p @ [name]) \<notin> {None, Some SymlinkNode}) (sort expected)"
  shows "quiet m (require_exact_children sample_env p expected)"
proof -
  have "\<exists>t. require_exact_children sample_env p expected w = (Inr (), w\<lparr>w_tick := t\<rparr>)" if "w_fs w = m" for w
    using quiet_links [OF assms(3), unfolded quiet_def, rule_format, of "w\<lparr>w_tick := Suc (w_tick w)\<rparr>"] assms(1,2) that
    by (auto simp: require_exact_children_def act_bind_def ok_call sys_read_dir_def return_def)
  then show ?thesis
    by (simp add: quiet_def)
qed

lemma quiet_require:
  "fmlookup m p = Some (DirNode k) \<Longrightarrow> quiet m (require_directory sample_env p)"
  "fmlookup m p = Some (FileNode k c) \<Longrightarrow> quiet m (require_regular_file sample_env p)"
  by (auto simp: quiet_def require_directory_def require_regular_file_def act_bind_def ok_call sys_metadata_def return_def)

lemma sample_children:
  "children [''data'', ''.taskcage'', ''staging'', sample_task] sample_tree = {|''artifacts''|}"
  "children [''data'', ''.taskcage'', ''staging'', sample_task, ''artifacts''] sample_tree = {|''in'', ''out''|}"
  "children [''data'', ''.taskcage'', ''staging'', sample_task, ''artifacts'', ''in''] sample_tree = {|''source''|}"
  "children [''data'', ''.taskcage'', ''staging'', sample_task, ''artifacts'', ''out''] sample_tree = {||}"
  by (auto simp: sample_tree_def Let_def children_upd children_empty)

lemma sample_lookups:
  "fmlookup sample_tree [''data'', ''.taskcage''] = Some (DirNode 7)"
  "fmlookup sample_tree [''data'', ''.taskcage'', ''preflight''] = Some (DirNode 7)"
  "fmlookup sample_tree [''data'', ''.taskcage'', ''staging''] = Some (DirNode 7)"
  "fmlookup sample_tree [''data'', ''tasks''] = Some (DirNode 7)"
  "fmlookup sample_tree [''data'', ''.taskcage'', ''staging'', sample_task] = Some (DirNode 7)"
  "fmlookup sample_tree [''data'', ''.taskcage'', ''staging'', sample_task, ''artifacts''] = Some (DirNode 7)"
  "fmlookup sample_tree [''data'', ''.taskcage'', ''staging'', sample_task, ''artifacts'', ''in''] = Some (DirNode 7)"
  "fmlookup sample_tree [''data'', ''.taskcage'', ''staging'', sample_task, ''artifacts'', ''out''] = Some (DirNode 7)"
  "fmlookup sample_tree [''data'', ''.taskcage'', ''staging'', sample_task, ''artifacts'', ''in'', ''source''] = Some (FileNode 7 ''xy'')"
  "fmlookup sample_tree [''data'', ''tasks'', q] = None"
  by (simp_all add: sample_tree_def)

lemma sample_output_path:
  "output_path sample_staged = [''data'', ''.taskcage'', ''staging'', sample_task, ''artifacts'', ''out'', ''o'']"
  by (simp add: output_path_def sample_staged_def sample_output_def)

lemma quiet_validate: "quiet sample_finished (validate_declared_staging sample_env sample_staged)"
  unfolding validate_declared_staging_def Let_def
  by (intro quiet_bind quiet_exact quiet_require)
    (simp_all add: sample_finished_def sample_lookups sample_output_path sample_staged_def sample_output_def
      children_upd sample_children sorted_list_of_fset.rep_eq less_eq_char_def less_char_def)

definition sample_done :: world where
  "sample_done = \<lparr>w_fs = sample_finished, w_tick = 0, w_sequence = 0\<rparr>"

lemma sample_selectors:
  "sg_task_id sample_staged = sample_task" "sg_output sample_staged = sample_output"
  "dir_path (sg_task_directory sample_staged) = [''data'', ''.taskcage'', ''staging'', sample_task]"
  "sg_output_directory sample_staged =
     \<lparr>dir_path = [''data'', ''.taskcage'', ''staging'', sample_task, ''artifacts'', ''out''], dir_device = 7\<rparr>"
  "do_file_name sample_output = ''o''" "do_media_type sample_output = ''m''" "do_maximum_bytes sample_output = 50"
  "ls_maximum_bytes sample_store = 100" "dir_path (ls_root sample_store) = [''data'']"
  by (simp_all add: sample_staged_def sample_output_def sample_store_def)

lemma ok_move:
  assumes "w_fs w = sample_finished"
  shows "\<exists>w'. publish_move sample_env sample_store sample_staged w = (Inr (), w')"
proof -
  let ?d = "\<lparr>dir_path = [''data'', ''tasks'', sample_task], dir_device = 7\<rparr>"
  let ?v = "w\<lparr>w_tick := 8 + w_tick w\<rparr>"
  have layout: "open_layout sample_env sample_store w = (Inr sample_layout, ?v)"
    by (rule ok_existing_layout) (simp_all add: assms sample_finished_def sample_lookups)
  let ?v1 = "w\<lparr>w_fs := fmupd [''data'', ''tasks'', sample_task] (DirNode 7) sample_finished, w_tick := 10 + w_tick w\<rparr>"
  have "create_child sample_env (al_published sample_layout) sample_task ?v = (Inr ?d, ?v1)"
    using ok_create_child [OF sample_no_nul, of ?v "al_published sample_layout"]
    by (simp add: sample_layout_def assms sample_finished_def sample_lookups)
  then have destination: "publish_destination sample_env sample_layout sample_task ?v = (Inr ?d, ?v1)"
    by (simp add: publish_destination_def)
  obtain v2 where v2: "rename_no_replace sample_env (sg_output_directory sample_staged) ''o'' ?d ''o'' ?v1 = (Inr (), v2)"
      "w_fs v2 = fmupd [''data'', ''tasks'', sample_task, ''o''] (FileNode 7 ''ab'')
        (fmdrop [''data'', ''.taskcage'', ''staging'', sample_task, ''artifacts'', ''out'', ''o'']
        (fmupd [''data'', ''tasks'', sample_task] (DirNode 7) sample_finished))"
    using ok_rename [of "''o''" "''o''" ?v1 "sg_output_directory sample_staged" 7 "''ab''" ?d 7]
    by (simp add: nul_char sample_selectors sample_finished_def sample_tree_def)
  have "\<exists>w'. cleanup_staging sample_env sample_store sample_staged (v2\<lparr>w_tick := Suc (Suc (Suc (Suc (w_tick v2))))\<rparr>) =
      (Inr (), w')"
    by (rule ok_cleanup) (simp_all add: v2(2) sample_finished_def sample_lookups)
  with layout destination v2(1) show ?thesis
    by (auto simp: publish_move_def act_bind_def sample_selectors or_else_def ok_sync)
qed

lemma ok_publish:
  "\<exists>a w'. publish_for_profile sample_sha256 sample_env sample_store sample_staged sample_done = (Inr (Inr a), w')"
proof -
  obtain t where v: "validate_declared_staging sample_env sample_staged sample_done = (Inr (), sample_done\<lparr>w_tick := t\<rparr>)"
    using quiet_validate [unfolded quiet_def, rule_format, of sample_done] by (auto simp: sample_done_def)
  have o': "open_regular_file sample_env (sg_output_directory sample_staged) ''o'' w = (Inr ''ab'', w\<lparr>w_tick := Suc (w_tick w)\<rparr>)"
    if "w_fs w = sample_finished" for w
    by (rule ok_open_file) (simp_all add: nul_char that sample_finished_def sample_selectors)
  have r: "verify_output sample_sha256 sample_env ''ab'' 50 w = (Inr (2, sample_sha256 ''ab''), w\<lparr>w_tick := Suc (w_tick w)\<rparr>)" for w
    by (simp add: verify_output_def act_bind_def ok_call lift_verification_def return_def sample_env_def checked_add_def
      result_simps ok_call [unfolded sample_env_def])
  have done_fs: "w_fs sample_done = sample_finished"
    by (simp add: sample_done_def)
  show ?thesis
    using ok_move [of "sample_done\<lparr>w_tick := Suc (Suc (Suc t))\<rparr>"]
    by (auto simp: publish_for_profile_def publish_inner_def Let_def act_bind_def sample_selectors v o' [unfolded sample_selectors] r
      ok_call return_def done_fs)
qed

definition sample_unfinished :: world where
  "sample_unfinished =
     \<lparr>w_fs = fmupd [''data'', ''.taskcage'', ''staging'', sample_task] (DirNode 7)
        (fmupd [''data'', ''.taskcage'', ''staging''] (DirNode 7)
        (fmupd [''data'', ''.taskcage'', ''preflight''] (DirNode 7)
        (fmupd [''data'', ''.taskcage''] (DirNode 7) (fmupd [''data'', ''tasks''] (DirNode 7)
        (fmupd [''data''] (DirNode 7) fmempty))))), w_tick = 0, w_sequence = 0\<rparr>"

lemma ok_refuse:
  "\<exists>e w'. publish_for_profile sample_sha256 sample_env sample_store sample_staged sample_unfinished =
     (Inr (Inl e), w')"
proof -
  let ?s = "[''data'', ''.taskcage'', ''staging'', sample_task]" and ?w = "sample_unfinished\<lparr>w_tick := 1\<rparr>"
  have "children ?s (w_fs sample_unfinished) = {||}"
    by (simp add: sample_unfinished_def children_upd children_empty)
  then have "require_exact_children sample_env ?s [''artifacts''] sample_unfinished = (Inl (UndeclaredOutput ?s), ?w)"
    by (simp add: require_exact_children_def act_bind_def ok_call sys_read_dir_def return_def fail_def sample_unfinished_def
        sorted_list_of_fset.rep_eq)
  then have "publish_inner sample_sha256 sample_env sample_store sample_staged sample_unfinished =
      (Inl (UndeclaredOutput ?s), ?w)"
    by (simp add: publish_inner_def validate_declared_staging_def act_bind_def Let_def sample_selectors)
  moreover have "path_exists sample_env ?s ?w = (True, sample_unfinished\<lparr>w_tick := 2\<rparr>)"
    by (simp add: path_exists_def syscall_def sys_metadata_def sample_env_def sample_unfinished_def)
  moreover have "\<exists>w'. cleanup_staging sample_env sample_store sample_staged (sample_unfinished\<lparr>w_tick := 2\<rparr>) = (Inr (), w')"
    by (rule ok_cleanup) (simp_all add: sample_unfinished_def)
  ultimately show ?thesis
    by (auto simp: publish_for_profile_def sample_selectors)
qed

lemma sample_honest: "honest_reads sample_env"
  by (simp add: honest_reads_def sample_env_def strip_prefix_Some split: option.split) (metis append_Nil2 option.distinct(1) strip_prefix_Some)

lemma sample_staged_in: "staged_in sample_store sample_staged"
  by (simp add: staged_in_def sample_selectors)

lemma sample_closed: "rooted (w_fs sample_world)"
proof -
  have "q @ [name] = xs \<longleftrightarrow> xs \<noteq> [] \<and> q = butlast xs \<and> name = last xs" for q xs and name :: string
    by auto
  then show ?thesis
    unfolding rooted_def sample_world_def by (auto split: if_splits)
qed

theorem store_keeps_existing_witness:
  "fmlookup (w_fs (snd (stage_input sample_sha256 sample_env sample_store sample_task sample_input sample_output
      sample_world))) [''data'', ''in'', ''a''] = Some (FileNode 7 ''xy'') \<and>
   fmlookup (w_fs (snd (publish_for_profile sample_sha256 sample_env sample_store sample_staged sample_world)))
     [''data'', ''in'', ''a''] = Some (FileNode 7 ''xy'')"
  by (rule store_keeps_existing [OF sample_closed _ sample_staged_in]) (simp_all add: sample_world_def sample_selectors)

theorem staged_input_is_snapshot_witness:
  "\<exists>w'. stage_input sample_sha256 sample_env sample_store sample_task sample_input sample_output sample_world =
      (Inr sample_staged, w') \<and>
    (\<exists>content d'. sample_sha256 content = ad_digest (li_descriptor sample_input) \<and> length content = 2 \<and>
      fmlookup (w_fs w') (input_path sample_staged) = Some (FileNode d' content))"
proof -
  obtain w' where r: "stage_input sample_sha256 sample_env sample_store sample_task sample_input sample_output
      sample_world = (Inr sample_staged, w')"
    using ok_stage by (metis prod.collapse)
  have "ad_size_bytes (li_descriptor sample_input) = 2"
    by (simp add: sample_input_def local_input_artifact_new_def)
  with r staged_input_is_snapshot [OF r sample_honest] show ?thesis
    by auto
qed

theorem published_exactly_witness:
  "\<exists>result w'. publish_for_profile sample_sha256 sample_env sample_store sample_staged sample_done =
      (Inr (Inr result), w') \<and> result \<noteq> None \<and> gone (dir_path (sg_task_directory sample_staged)) (w_fs w')"
proof -
  obtain result w' where r:
    "publish_for_profile sample_sha256 sample_env sample_store sample_staged sample_done = (Inr (Inr result), w')"
    using ok_publish by blast
  have "declared_output_new ''o'' ''m'' 50 = Inr (sg_output sample_staged)"
    by (simp add: declared_output_new_def sample_selectors sample_output_def ascii_defs byte_def nul_char backslash_char)
  from published_exactly [OF r sample_staged_in sample_honest _ this] r show ?thesis
    by (auto simp: sample_selectors sample_valid)
qed

theorem refused_output_cleaned_witness:
  "\<exists>e w'. publish_for_profile sample_sha256 sample_env sample_store sample_staged sample_unfinished =
      (Inr (Inl e), w') \<and> fmlookup (w_fs w') (dir_path (sg_task_directory sample_staged)) \<notin> range (\<lambda>d. Some (DirNode d))"
proof -
  obtain e w' where r:
    "publish_for_profile sample_sha256 sample_env sample_store sample_staged sample_unfinished = (Inr (Inl e), w')"
    using ok_refuse by blast
  have "en_fault sample_env t = None" for t
    by (simp add: sample_env_def)
  from refused_output_cleaned [OF r sample_staged_in this] r show ?thesis
    by blast
qed

end
