(* ===== verification/Kernel_Events.thy ===== *)
theory Kernel_Events
  imports Prelude
begin

text \<open>
  Kernel event counters and job statistics of \<open>linux-runtime/src/cgroup/events.rs\<close>. The cgroup
  file system is an argument: \<open>read path\<close> is \<open>fs::read_to_string\<close>. The kernel writes these files
  in ASCII, so \<open>split_whitespace\<close> separates at the ASCII white space.
\<close>

record kernel_events =
  ke_memory_oom :: u64
  ke_memory_oom_kill :: u64
  ke_pids_max :: u64

definition delta_from :: "kernel_events \<Rightarrow> kernel_events \<Rightarrow> kernel_events" where
  "delta_from now baseline =
     \<lparr>ke_memory_oom = saturating_sub (ke_memory_oom now) (ke_memory_oom baseline),
      ke_memory_oom_kill = saturating_sub (ke_memory_oom_kill now) (ke_memory_oom_kill baseline),
      ke_pids_max = saturating_sub (ke_pids_max now) (ke_pids_max baseline)\<rparr>"

record job_stats =
  js_cpu_usage_micros :: u64
  js_memory_current_bytes :: u64
  js_memory_peak_bytes :: u64
  js_current_processes :: u64
  js_peak_processes :: "u64 option"
  js_event_delta :: kernel_events

datatype events_error =
    CgroupIo string string string
  | MissingKey string string

type_synonym file_reader = "string \<Rightarrow> string + string"

definition newline :: char where
  "newline = char_of (10 :: nat)"

definition carriage_return :: char where
  "carriage_return = char_of (13 :: nat)"

text \<open>\<open>str::lines\<close>: a final line ending does not start another line.\<close>

definition strip_cr :: "string \<Rightarrow> string" where
  "strip_cr line = (if line \<noteq> [] \<and> last line = carriage_return then butlast line else line)"

definition str_lines :: "string \<Rightarrow> string list" where
  "str_lines s =
     (let parts = split_on newline s
      in map strip_cr (butlast parts) @ (if last parts = [] then [] else [last parts]))"

definition is_whitespace :: "char \<Rightarrow> bool" where
  "is_whitespace c \<longleftrightarrow> 9 \<le> byte c \<and> byte c \<le> 13 \<or> byte c = 32"

fun split_words :: "string \<Rightarrow> string \<Rightarrow> string list" where
  "split_words word [] = (if word = [] then [] else [word])"
| "split_words word (c # cs) =
     (if is_whitespace c
      then (if word = [] then split_words [] cs else word # split_words [] cs)
      else split_words (word @ [c]) cs)"

definition split_whitespace :: "string \<Rightarrow> string list" where
  "split_whitespace s = split_words [] s"

definition trim :: "string \<Rightarrow> string" where
  "trim s = rev (dropWhile is_whitespace (rev (dropWhile is_whitespace s)))"

fun insert_flat_key :: "(string, u64) fmap \<Rightarrow> string list \<Rightarrow> (string, u64) fmap" where
  "insert_flat_key values [key, raw] =
     (case parse_u64 raw of Some v \<Rightarrow> fmupd key v values | None \<Rightarrow> values)"
| "insert_flat_key values _ = values"

definition read_flat_keys ::
  "file_reader \<Rightarrow> string \<Rightarrow> events_error + (string, u64) fmap" where
  "read_flat_keys read path =
     and_then (map_err (CgroupIo ''read entry'' path) (read path)) (\<lambda>contents.
       Ok (foldl (\<lambda>values line. insert_flat_key values (split_whitespace line)) fmempty
            (str_lines contents)))"

definition required_key ::
  "(string, u64) fmap \<Rightarrow> string \<Rightarrow> string \<Rightarrow> events_error + u64" where
  "required_key values path key = ok_or (MissingKey path key) (fmlookup values key)"

definition read_word_set :: "file_reader \<Rightarrow> string \<Rightarrow> events_error + string fset" where
  "read_word_set read path =
     and_then (map_err (CgroupIo ''read controllers'' path) (read path)) (\<lambda>contents.
       Ok (fset_of_list (split_whitespace contents)))"

definition read_u64 :: "file_reader \<Rightarrow> string \<Rightarrow> events_error + u64" where
  "read_u64 read path =
     and_then (map_err (CgroupIo ''read number'' path) (read path)) (\<lambda>contents.
       ok_or (CgroupIo ''convert number'' path ''InvalidData'') (parse_u64 (trim contents)))"

definition read_optional_u64 ::
  "(string \<Rightarrow> bool) \<Rightarrow> file_reader \<Rightarrow> string \<Rightarrow> events_error + u64 option" where
  "read_optional_u64 exists read path =
     (if exists path then and_then (read_u64 read path) (\<lambda>v. Ok (Some v)) else Ok None)"

definition read_kernel_events :: "file_reader \<Rightarrow> string \<Rightarrow> events_error + kernel_events" where
  "read_kernel_events read path =
     (let memory_path = path @ ''/memory.events.local''; pids_path = path @ ''/pids.events'' in
      and_then (read_flat_keys read memory_path) (\<lambda>memory.
      and_then (read_flat_keys read pids_path) (\<lambda>pids.
      and_then (required_key memory memory_path ''oom'') (\<lambda>oom.
      and_then (required_key memory memory_path ''oom_kill'') (\<lambda>oom_kill.
      and_then (required_key pids pids_path ''max'') (\<lambda>pids_max.
        Ok \<lparr>ke_memory_oom = oom, ke_memory_oom_kill = oom_kill, ke_pids_max = pids_max\<rparr>))))))"

section \<open>Reading back what the kernel writes\<close>

text \<open>The flat-keyed format: one \<open>key value\<close> line per counter.\<close>

fun flat_line :: "string \<times> u64 \<Rightarrow> string" where
  "flat_line (key, v) = key @ CHR '' '' # decimal (unat v)"

definition flat_file :: "(string \<times> u64) list \<Rightarrow> string" where
  "flat_file entries = concat (map (\<lambda>e. flat_line e @ [newline]) entries)"

definition plain_key :: "string \<Rightarrow> bool" where
  "plain_key key \<longleftrightarrow> key \<noteq> [] \<and> (\<forall>c \<in> set key. \<not> is_whitespace c)"

lemma whitespace_chars [simp]:
  "is_whitespace (CHR '' '')" "is_whitespace newline" "is_whitespace carriage_return"
  by (simp_all add: is_whitespace_def byte_def newline_def carriage_return_def)

lemma digit_not_whitespace: "is_ascii_digit c \<Longrightarrow> \<not> is_whitespace c"
  by (auto simp: is_whitespace_def is_ascii_digit_def)

lemma plain_decimal: "plain_key (decimal n)"
  by (auto simp: plain_key_def dest: decimal_digits digit_not_whitespace)

lemma split_words_plain:
  "(\<forall>c \<in> set xs. \<not> is_whitespace c) \<Longrightarrow> split_words word (xs @ ys) = split_words (word @ xs) ys"
  by (induction xs arbitrary: word) auto

lemma split_words_flat_line:
  assumes "plain_key key"
  shows "split_whitespace (flat_line (key, v)) = [key, decimal (unat v)]"
proof -
  have "split_words [] (key @ CHR '' '' # decimal (unat v)) = key # split_words [] (decimal (unat v))"
    using assms split_words_plain [of key "[]"] by (simp add: plain_key_def)
  also have "split_words [] (decimal (unat v)) = [decimal (unat v)]"
    using split_words_plain [of "decimal (unat v)" "[]" "[]"] plain_decimal [of "unat v"]
    by (simp add: plain_key_def)
  finally show ?thesis
    by (simp add: split_whitespace_def)
qed

lemma flat_line_no_break:
  assumes "plain_key key"
  shows "newline \<notin> set (flat_line (key, v))" "strip_cr (flat_line (key, v)) = flat_line (key, v)"
proof -
  have "newline \<noteq> CHR '' ''"
    unfolding byte_inj [symmetric] by (simp add: newline_def byte_def)
  moreover have "newline \<notin> set key" "newline \<notin> set (decimal (unat v))"
    using assms plain_decimal [of "unat v"] whitespace_chars(2) by (auto simp: plain_key_def)
  ultimately show "newline \<notin> set (flat_line (key, v))"
    by simp
  have "last (flat_line (key, v)) \<in> set (decimal (unat v))"
    by simp
  then show "strip_cr (flat_line (key, v)) = flat_line (key, v)"
    using plain_decimal [of "unat v"] whitespace_chars(3) unfolding strip_cr_def plain_key_def
    by metis
qed

lemma str_lines_flat_file:
  assumes "\<forall>(key, v) \<in> set entries. plain_key key"
  shows "str_lines (flat_file entries) = map flat_line entries"
proof -
  have "split_on newline (flat_file entries) = map flat_line entries @ [[]]"
    using assms
    by (induction entries)
      (auto simp: flat_file_def split_on_append_sep flat_line_no_break simp del: flat_line.simps)
  moreover have "map strip_cr (map flat_line entries) = map flat_line entries"
    using assms by (auto simp: flat_line_no_break simp del: flat_line.simps)
  ultimately show ?thesis
    by (simp add: str_lines_def butlast_append)
qed

lemma read_flat_keys_file:
  assumes "read path = Inr (flat_file entries)" "\<forall>(key, v) \<in> set entries. plain_key key"
  shows "read_flat_keys read path = Inr (foldl (\<lambda>m (key, v). fmupd key v m) fmempty entries)"
proof -
  have "foldl (\<lambda>values line. insert_flat_key values (split_whitespace line)) m (map flat_line entries) =
        foldl (\<lambda>m (key, v). fmupd key v m) m entries" for m
    using assms(2)
    by (induction entries arbitrary: m)
      (auto simp: split_words_flat_line parse_u64_decimal simp del: flat_line.simps)
  with assms show ?thesis
    by (simp add: read_flat_keys_def str_lines_flat_file)
qed

lemma fmupd_foldl_lookup:
  "fmlookup (foldl (\<lambda>m (key, v). fmupd key v m) m entries) k =
   (case map_of (rev entries) k of Some v \<Rightarrow> Some v | None \<Rightarrow> fmlookup m k)"
  by (induction entries arbitrary: m) (auto simp: map_add_def split: option.splits)

lemma map_of_rev_distinct: "distinct (map fst xs) \<Longrightarrow> map_of (rev xs) = map_of xs"
proof (induction xs)
  case (Cons a xs)
  then have "map_of (rev xs) (fst a) = None"
    by (simp add: map_of_eq_None_iff)
  with Cons show ?case
    by (cases a) (auto simp: map_add_def fun_eq_iff split: option.splits)
qed simp

section \<open>Properties\<close>

text \<open>
  C34: Kernel counters are read back exactly. When the two event files hold one
  \<open>key value\<close> line per counter, in any order and with any other counters beside them, and their
  keys are distinct, reading them yields the written values; a missing required counter is the
  \<open>MissingKey\<close> error of its file.
\<close>

theorem read_kernel_events_exact:
  assumes "read (path @ ''/memory.events.local'') = Inr (flat_file memory)"
    and "read (path @ ''/pids.events'') = Inr (flat_file pids)"
    and "\<forall>(key, v) \<in> set (memory @ pids). plain_key key"
    and "distinct (map fst memory)" and "distinct (map fst pids)"
  shows "read_kernel_events read path =
    (case (map_of memory ''oom'', map_of memory ''oom_kill'', map_of pids ''max'') of
       (Some oom, Some oom_kill, Some pids_max) \<Rightarrow>
         Inr \<lparr>ke_memory_oom = oom, ke_memory_oom_kill = oom_kill, ke_pids_max = pids_max\<rparr>
     | (None, _, _) \<Rightarrow> Inl (MissingKey (path @ ''/memory.events.local'') ''oom'')
     | (_, None, _) \<Rightarrow> Inl (MissingKey (path @ ''/memory.events.local'') ''oom_kill'')
     | (_, _, None) \<Rightarrow> Inl (MissingKey (path @ ''/pids.events'') ''max''))"
proof -
  have rev: "map_of (rev memory) = map_of memory" "map_of (rev pids) = map_of pids"
    using assms(4,5) by (simp_all add: map_of_rev_distinct)
  show ?thesis
    using assms(1-3)
    by (auto simp: read_kernel_events_def read_flat_keys_file [where entries = memory]
        read_flat_keys_file [where entries = pids] required_key_def ok_or_def fmupd_foldl_lookup rev
        split: option.splits)
qed

theorem read_kernel_events_exact_witness:
  "read_kernel_events
     (\<lambda>p. if p = ''/g/memory.events.local''
          then Inr (flat_file [(''low'', 0), (''oom'', 2), (''oom_kill'', 18446744073709551615)])
          else Inr (flat_file [(''max'', 7)])) ''/g'' =
   Inr \<lparr>ke_memory_oom = 2, ke_memory_oom_kill = 18446744073709551615, ke_pids_max = 7\<rparr>"
  by (subst read_kernel_events_exact
      [where memory = "[(''low'', 0), (''oom'', 2), (''oom_kill'', 18446744073709551615)]"
         and pids = "[(''max'', 7)]"])
    (simp_all add: plain_key_def is_whitespace_def byte_def)

end
