(* ===== verification/Lifecycle.thy ===== *)
theory Lifecycle
  imports Output_Capture Kernel_Events
begin

text \<open>
  The lifecycle of one task: \<open>daemon/src/lifecycle.rs\<close>, the decoding of a wait status in
  \<open>linux-runtime/src/executor/wait.rs\<close> and the absolute deadline of
  \<open>linux-runtime/src/deadline.rs\<close>. A running task becomes finished exactly once, with the
  termination reason that the strongest evidence gives.
\<close>

section \<open>Deadlines\<close>

record monotonic_deadline =
  md_at :: instant
  md_budget :: duration

definition deadline_from_start :: "instant \<Rightarrow> duration \<Rightarrow> monotonic_deadline option" where
  "deadline_from_start start budget =
     (if budget = 0 then None
      else map_option (\<lambda>at. \<lparr>md_at = at, md_budget = budget\<rparr>) (instant_checked_add start budget))"

definition deadline_expired_at :: "instant \<Rightarrow> monotonic_deadline" where
  "deadline_expired_at now = \<lparr>md_at = now, md_budget = 0\<rparr>"

definition remaining_at :: "monotonic_deadline \<Rightarrow> instant \<Rightarrow> duration option" where
  "remaining_at deadline now =
     (case checked_duration_since (md_at deadline) now of
        Some left \<Rightarrow> if left = 0 then None else Some left
      | None \<Rightarrow> None)"

section \<open>Evidence\<close>

record process_exit =
  px_exit_code :: "i32 option"
  px_signal :: "i32 option"

record process_evidence =
  pe_exit_code :: "i32 option"
  pe_signal :: "i32 option"

definition process_evidence_from_exit :: "process_exit \<Rightarrow> process_evidence" where
  "process_evidence_from_exit e = \<lparr>pe_exit_code = px_exit_code e, pe_signal = px_signal e\<rparr>"

text \<open>The wait macros of the C library are an argument.\<close>

record wait_macros =
  wifexited :: "i32 \<Rightarrow> bool"
  wexitstatus :: "i32 \<Rightarrow> i32"
  wifsignaled :: "i32 \<Rightarrow> bool"
  wtermsig :: "i32 \<Rightarrow> i32"

definition decode_wait_status :: "wait_macros \<Rightarrow> i32 \<Rightarrow> process_exit" where
  "decode_wait_status c status =
     (if wifexited c status then \<lparr>px_exit_code = Some (wexitstatus c status), px_signal = None\<rparr>
      else if wifsignaled c status then
        \<lparr>px_exit_code = None, px_signal = Some (wtermsig c status)\<rparr>
      else \<lparr>px_exit_code = None, px_signal = None\<rparr>)"

datatype execution_evidence = Started process_evidence | StartFailed i32

datatype control_trigger = TimedOut | Cancelled

type_synonym control_triggers = "control_trigger option"

section \<open>The terminal trigger latch\<close>

type_synonym trigger_latch = u8

definition compare_exchange :: "u8 \<Rightarrow> u8 \<Rightarrow> u8 \<Rightarrow> bool \<times> u8" where
  "compare_exchange cell current new = (if cell = current then (True, new) else (False, cell))"

definition latch_observe :: "trigger_latch \<Rightarrow> control_trigger \<Rightarrow> bool \<times> trigger_latch" where
  "latch_observe cell trigger =
     compare_exchange cell 0 (case trigger of TimedOut \<Rightarrow> 1 | Cancelled \<Rightarrow> 2)"

definition latch_close :: "trigger_latch \<Rightarrow> bool \<times> trigger_latch" where
  "latch_close cell = compare_exchange cell 0 3"

definition latch_snapshot :: "trigger_latch \<Rightarrow> control_triggers" where
  "latch_snapshot cell =
     (if cell = 1 then Some TimedOut else if cell = 2 then Some Cancelled else None)"

section \<open>Classification\<close>

record termination_evidence =
  te_execution :: execution_evidence
  te_control :: control_triggers
  te_event_delta :: kernel_events
  te_daemon_error :: bool

record completion_data =
  cd_evidence :: execution_evidence
  cd_control :: control_triggers
  cd_stats :: job_stats
  cd_output :: captured_output
  cd_daemon_error :: bool

datatype lifecycle_error =
    AlreadyFinished
  | InvalidProcessOutcome
  | UnknownSignal i32
  | FinishedBeforeStarted
  | WallTimeOverflow

definition classify_termination ::
  "termination_evidence \<Rightarrow> lifecycle_error + termination_reason" where
  "classify_termination e =
     (if 0 < ke_memory_oom_kill (te_event_delta e) then Ok MemoryLimitExceeded
      else case te_control e of
        Some TimedOut \<Rightarrow> Ok ReasonTimedOut
      | Some Cancelled \<Rightarrow> Ok ReasonCancelled
      | None \<Rightarrow>
          if 0 < ke_pids_max (te_event_delta e) then Ok ProcessLimitExceeded
          else if 0 < ke_memory_oom (te_event_delta e) then Ok MemoryLimitExceeded
          else if te_daemon_error e then Ok DaemonError
          else case te_execution e of
            StartFailed errno \<Rightarrow> Ok ExecutionFailed
          | Started process \<Rightarrow> Ok Exited)"

definition standard_signal_names :: "string list" where
  "standard_signal_names =
     [''SIGHUP'', ''SIGINT'', ''SIGQUIT'', ''SIGILL'', ''SIGTRAP'', ''SIGABRT'', ''SIGBUS'',
      ''SIGFPE'', ''SIGKILL'', ''SIGUSR1'', ''SIGSEGV'', ''SIGUSR2'', ''SIGPIPE'', ''SIGALRM'',
      ''SIGTERM'', ''SIGSTKFLT'', ''SIGCHLD'', ''SIGCONT'', ''SIGSTOP'', ''SIGTSTP'', ''SIGTTIN'',
      ''SIGTTOU'', ''SIGURG'', ''SIGXCPU'', ''SIGXFSZ'', ''SIGVTALRM'', ''SIGPROF'', ''SIGWINCH'',
      ''SIGIO'', ''SIGPWR'', ''SIGSYS'']"

definition linux_signal_name :: "i32 \<Rightarrow> string option" where
  "linux_signal_name signal =
     (if 1 \<le> signal \<and> signal \<le> 31 then Some (standard_signal_names ! nat (signal - 1))
      else if signal = 34 then Some ''SIGRTMIN''
      else if 35 \<le> signal \<and> signal \<le> 64 then Some (''SIGRTMIN+'' @ decimal (nat (signal - 34)))
      else None)"

fun map_process_result :: "process_evidence \<Rightarrow> lifecycle_error + process_result" where
  "map_process_result e =
     (case (pe_exit_code e, pe_signal e) of
        (Some exit_code, None) \<Rightarrow> Ok \<lparr>pr_exit_code = Some exit_code, pr_signal = None\<rparr>
      | (None, Some signal) \<Rightarrow>
          and_then (ok_or (UnknownSignal signal) (linux_signal_name signal)) (\<lambda>name.
            Ok \<lparr>pr_exit_code = None, pr_signal = Some name\<rparr>)
      | _ \<Rightarrow> Err InvalidProcessOutcome)"

section \<open>The lifecycle\<close>

record running_task =
  rt_task_id :: string
  rt_submitted_at :: string
  rt_started_at :: string
  rt_started_monotonic :: instant

datatype lifecycle_state = LifecycleRunning running_task | LifecycleFinished task_snapshot

definition lifecycle_running ::
  "string \<Rightarrow> string \<Rightarrow> string \<Rightarrow> instant \<Rightarrow> lifecycle_state" where
  "lifecycle_running task_id submitted_at started_at started_monotonic =
     LifecycleRunning \<lparr>rt_task_id = task_id, rt_submitted_at = submitted_at,
       rt_started_at = started_at, rt_started_monotonic = started_monotonic\<rparr>"

fun lifecycle_snapshot :: "lifecycle_state \<Rightarrow> task_snapshot" where
  "lifecycle_snapshot (LifecycleRunning t) =
     Running (rt_task_id t) (rt_submitted_at t) (rt_started_at t)"
| "lifecycle_snapshot (LifecycleFinished payload) = payload"

definition completion_termination :: "completion_data \<Rightarrow> termination_evidence" where
  "completion_termination c =
     \<lparr>te_execution = cd_evidence c, te_control = cd_control c,
      te_event_delta = js_event_delta (cd_stats c), te_daemon_error = cd_daemon_error c\<rparr>"

definition completion_process :: "completion_data \<Rightarrow> lifecycle_error + process_result" where
  "completion_process c =
     (case cd_evidence c of
        Started process \<Rightarrow> map_process_result process
      | StartFailed errno \<Rightarrow> Ok \<lparr>pr_exit_code = None, pr_signal = None\<rparr>)"

text \<open>\<open>complete_inner\<close>: the result together with the new state of the lifecycle.\<close>

fun complete_inner ::
  "lifecycle_state \<Rightarrow> completion_data \<Rightarrow> string \<Rightarrow> instant \<Rightarrow>
   (lifecycle_error + task_snapshot) \<times> lifecycle_state" where
  "complete_inner (LifecycleFinished payload) c finished_at finished_monotonic =
     (Err AlreadyFinished, LifecycleFinished payload)"
| "complete_inner (LifecycleRunning running) c finished_at finished_monotonic =
     (let result =
        and_then (classify_termination (completion_termination c)) (\<lambda>reason.
        and_then (completion_process c) (\<lambda>process.
        and_then (ok_or FinishedBeforeStarted
          (checked_duration_since finished_monotonic (rt_started_monotonic running))) (\<lambda>wall_time.
        and_then (ok_or WallTimeOverflow (u64_try_from (as_millis wall_time))) (\<lambda>wall_time_ms.
          Ok (snapshot_from_result
            \<lparr>tr_task_id = rt_task_id running,
             tr_termination_reason = reason,
             tr_process = process,
             tr_timing = \<lparr>tt_submitted_at = rt_submitted_at running,
               tt_started_at = rt_started_at running, tt_finished_at = finished_at,
               tt_wall_time_ms = wall_time_ms\<rparr>,
             tr_usage = \<lparr>tu_cpu_time_micros = js_cpu_usage_micros (cd_stats c),
               tu_memory_peak_bytes = js_memory_peak_bytes (cd_stats c)\<rparr>,
             tr_output = into_task_output (cd_output c)\<rparr>)))))
      in case result of
           Inr payload \<Rightarrow> (Ok payload, LifecycleFinished payload)
         | Inl e \<Rightarrow> (Err e, LifecycleRunning running))"

section \<open>Lemmas\<close>

lemma deadline_from_start_Some:
  "deadline_from_start start budget = Some d \<longleftrightarrow>
   0 < budget \<and> start + budget < instant_limit \<and> d = \<lparr>md_at = start + budget, md_budget = budget\<rparr>"
  by (auto simp: deadline_from_start_def instant_checked_add_def)

lemma remaining_at_Some:
  "remaining_at d now = Some left \<longleftrightarrow> now < md_at d \<and> left = md_at d - now"
  by (auto simp: remaining_at_def checked_duration_since_def)

lemma remaining_at_None: "remaining_at d now = None \<longleftrightarrow> md_at d \<le> now"
  by (auto simp: remaining_at_def checked_duration_since_def)

text \<open>The latch meets the first-wins contract: \<open>None\<close> is closing it without a trigger.\<close>

definition latch_invar :: "trigger_latch \<Rightarrow> bool" where
  "latch_invar cell \<longleftrightarrow> cell = 0 \<or> cell = 1 \<or> cell = 2 \<or> cell = 3"

definition latch_winner :: "trigger_latch \<Rightarrow> control_trigger option option" where
  "latch_winner cell =
     (if cell = 0 then None else if cell = 3 then Some None else Some (latch_snapshot cell))"

definition latch_offer :: "trigger_latch \<Rightarrow> control_trigger option \<Rightarrow> bool \<times> trigger_latch" where
  "latch_offer cell call =
     (case call of Some trigger \<Rightarrow> latch_observe cell trigger | None \<Rightarrow> latch_close cell)"

lemmas latch_defs = latch_invar_def latch_winner_def latch_offer_def latch_observe_def
  latch_close_def latch_snapshot_def compare_exchange_def

interpretation latch: first_wins latch_invar latch_winner latch_offer
proof
  show "fst (latch_offer s v) \<and> latch_invar (snd (latch_offer s v)) \<and>
      latch_winner (snd (latch_offer s v)) = Some v"
    if "latch_invar s" "latch_winner s = None" for s v
    using that by (auto simp: latch_defs split: option.splits control_trigger.splits if_splits)
  show "latch_offer s v = (False, s)"
    if "latch_invar s" "latch_winner s = Some w" for s v w
    using that by (auto simp: latch_defs split: option.splits control_trigger.splits if_splits)
qed

text \<open>A sequence of calls on a shared latch, with what each caller was told.\<close>

fun latch_calls :: "trigger_latch \<Rightarrow> control_trigger option list \<Rightarrow> bool list \<times> trigger_latch" where
  "latch_calls cell [] = ([], cell)"
| "latch_calls cell (call # calls) =
     (let (won, cell') = latch_offer cell call; (rest, cell'') = latch_calls cell' calls
      in (won # rest, cell''))"

lemma latch_calls_offers: "latch_calls cell calls = latch.offers cell calls"
  by (induction calls arbitrary: cell) auto

text \<open>A sequence of completion attempts on one lifecycle.\<close>

fun complete_all ::
  "lifecycle_state \<Rightarrow> (completion_data \<times> string \<times> instant) list \<Rightarrow>
   (lifecycle_error + task_snapshot) list \<times> lifecycle_state" where
  "complete_all s [] = ([], s)"
| "complete_all s ((c, finished_at, finished_monotonic) # rest) =
     (let (r, s') = complete_inner s c finished_at finished_monotonic;
          (rs, s'') = complete_all s' rest
      in (r # rs, s''))"

lemma complete_all_finished:
  "complete_all (LifecycleFinished p) attempts =
   (map (\<lambda>_. Inl AlreadyFinished) attempts, LifecycleFinished p)"
  by (induction attempts) auto

lemma complete_inner_running_cases:
  obtains (ok) p where "complete_inner (LifecycleRunning t) c fa fm = (Inr p, LifecycleFinished p)"
      "is_finished p" "snapshot_task_id p = rt_task_id t"
  | (err) e where "complete_inner (LifecycleRunning t) c fa fm = (Inl e, LifecycleRunning t)"
proof (cases "fst (complete_inner (LifecycleRunning t) c fa fm)")
  case (Inl e)
  then show thesis
    using err by (auto simp: Let_def split: sum.splits)
next
  case (Inr p)
  then have "complete_inner (LifecycleRunning t) c fa fm = (Inr p, LifecycleFinished p)"
    by (auto simp: Let_def split: sum.splits)
  moreover from Inr have "is_finished p" "snapshot_task_id p = rt_task_id t"
    by (auto simp: Let_def and_then_eq_Inr split: sum.splits)
  ultimately show thesis
    by (rule ok)
qed

declare complete_inner.simps(2) [simp del]

lemma complete_all_running:
  "\<exists>failures rest. fst (complete_all (LifecycleRunning t) attempts) = map Inl failures @ rest \<and>
     (rest = [] \<and> snd (complete_all (LifecycleRunning t) attempts) = LifecycleRunning t \<or>
      (\<exists>p n. rest = Inr p # replicate n (Inl AlreadyFinished) \<and> is_finished p \<and>
         snapshot_task_id p = rt_task_id t \<and>
         snd (complete_all (LifecycleRunning t) attempts) = LifecycleFinished p))"
proof (induction attempts)
  case Nil
  then show ?case by simp
next
  case (Cons a attempts)
  obtain c fa fm where a: "a = (c, fa, fm)"
    by (cases a)
  show ?case
  proof (cases rule: complete_inner_running_cases [of t c fa fm])
    case (ok p)
    then show ?thesis
      unfolding a
      by (intro exI [of _ "[]"] exI [of _ "Inr p # map (\<lambda>_. Inl AlreadyFinished) attempts"])
        (auto simp: complete_all_finished map_replicate_const)
  next
    case (err e)
    from Cons.IH obtain failures rest where IH:
      "fst (complete_all (LifecycleRunning t) attempts) = map Inl failures @ rest"
      "rest = [] \<and> snd (complete_all (LifecycleRunning t) attempts) = LifecycleRunning t \<or>
       (\<exists>p n. rest = Inr p # replicate n (Inl AlreadyFinished) \<and> is_finished p \<and>
         snapshot_task_id p = rt_task_id t \<and>
         snd (complete_all (LifecycleRunning t) attempts) = LifecycleFinished p)"
      by blast
    with err show ?thesis
      unfolding a
      by (intro exI [of _ "e # failures"] exI [of _ rest]) (auto simp: case_prod_beta)
  qed
qed

lemma signal_range:
  "linux_signal_name s \<noteq> None \<longleftrightarrow> 1 \<le> s \<and> s \<le> 31 \<or> 34 \<le> s \<and> s \<le> 64"
  by (auto simp: linux_signal_name_def)

lemma standard_names:
  "distinct standard_signal_names"
  "list_all (\<lambda>name. take 8 name \<noteq> ''SIGRTMIN'') standard_signal_names"
  "length standard_signal_names = 31"
  by (simp_all add: standard_signal_names_def)

lemma standard_name_range:
  assumes "1 \<le> s" "s \<le> 31"
  shows "nat (s - 1) < length standard_signal_names"
    and "take 8 (standard_signal_names ! nat (s - 1)) \<noteq> ''SIGRTMIN''"
proof -
  show "nat (s - 1) < length standard_signal_names"
    using assms by (simp add: standard_names)
  then show "take 8 (standard_signal_names ! nat (s - 1)) \<noteq> ''SIGRTMIN''"
    using standard_names(2) by (simp add: list_all_length)
qed

lemma signal_name_inj:
  assumes "linux_signal_name s = Some n" "linux_signal_name t = Some n"
  shows "s = t"
proof -
  have real_time: "34 \<le> u"
    if "linux_signal_name u = Some n" "take 8 n = ''SIGRTMIN''" for u
    using that standard_name_range(2) [of u] by (auto simp: linux_signal_name_def split: if_splits)
  have standard: "1 \<le> u \<and> u \<le> 31 \<and> n = standard_signal_names ! nat (u - 1)"
    if "linux_signal_name u = Some n" "take 8 n \<noteq> ''SIGRTMIN''" for u
    using that by (auto simp: linux_signal_name_def split: if_splits)
  show ?thesis
  proof (cases "take 8 n = ''SIGRTMIN''")
    case True
    then have "34 \<le> s" "34 \<le> t"
      using assms real_time by blast+
    then show ?thesis
      using assms by (auto simp: linux_signal_name_def dest: decimal_inj split: if_splits)
  next
    case False
    then show ?thesis
      using standard [OF assms(1) False] standard [OF assms(2) False]
        nth_eq_iff_index_eq [OF standard_names(1)] standard_name_range(1) by fastforce
  qed
qed

lemma process_exit_result:
  assumes "wifexited w status \<noteq> wifsignaled w status"
  shows "map_process_result (process_evidence_from_exit (decode_wait_status w status)) =
    (if wifexited w status then Inr \<lparr>pr_exit_code = Some (wexitstatus w status), pr_signal = None\<rparr>
     else case linux_signal_name (wtermsig w status) of
       Some name \<Rightarrow> Inr \<lparr>pr_exit_code = None, pr_signal = Some name\<rparr>
     | None \<Rightarrow> Inl (UnknownSignal (wtermsig w status)))"
  using assms by (auto simp: process_evidence_from_exit_def decode_wait_status_def split: option.splits)

text \<open>What remains of \<open>complete_inner\<close> once the clock is known to be sane.\<close>

lemma complete_inner_on_time:
  assumes "classify_termination (completion_termination c) = Inr reason"
    and "rt_started_monotonic t \<le> finished"
    and "(finished - rt_started_monotonic t) div 10 ^ 6 < 2 ^ 64"
  shows "\<exists>timing usage output.
    unat (tt_wall_time_ms timing) = (finished - rt_started_monotonic t) div 10 ^ 6 \<and>
    complete_inner (LifecycleRunning t) c finished_at finished =
      (case completion_process c of
         Inl e \<Rightarrow> (Inl e, LifecycleRunning t)
       | Inr process \<Rightarrow>
           (Inr (Finished (rt_task_id t) reason process timing usage output),
            LifecycleFinished (Finished (rt_task_id t) reason process timing usage output)))"
proof -
  let ?ms = "of_nat ((finished - rt_started_monotonic t) div 10 ^ 6) :: u64"
  have ms: "u64_try_from (as_millis (finished - rt_started_monotonic t)) = Some ?ms"
    using assms(3) by (simp add: u64_try_from_def as_millis_def)
  have since: "checked_duration_since finished (rt_started_monotonic t) =
      Some (finished - rt_started_monotonic t)"
    using assms(2) by (simp add: checked_duration_since_def)
  have width: "unat ?ms = (finished - rt_started_monotonic t) div 10 ^ 6"
    using u64_try_from_Some [OF ms] by (simp only: as_millis_def)
  show ?thesis
    unfolding complete_inner.simps assms(1) since ms and_then_simps ok_or_simps Let_def
      snapshot_from_result_def
    by (rule exI [of _ "\<lparr>tt_submitted_at = rt_submitted_at t, tt_started_at = rt_started_at t,
          tt_finished_at = finished_at, tt_wall_time_ms = ?ms\<rparr>"],
        rule exI [of _ "\<lparr>tu_cpu_time_micros = js_cpu_usage_micros (cd_stats c),
          tu_memory_peak_bytes = js_memory_peak_bytes (cd_stats c)\<rparr>"],
        rule exI [of _ "into_task_output (cd_output c)"], rule conjI)
      (simp only: task_timing.simps width, simp split: sum.splits)
qed

lemma classify_total: "\<exists>reason. classify_termination e = Inr reason"
  by (auto simp: classify_termination_def
      split: option.splits control_trigger.splits execution_evidence.splits)

lemma delta_from_grown:
  "0 < ke_memory_oom (delta_from n b) \<longleftrightarrow> ke_memory_oom b < ke_memory_oom n"
  "0 < ke_memory_oom_kill (delta_from n b) \<longleftrightarrow> ke_memory_oom_kill b < ke_memory_oom_kill n"
  "0 < ke_pids_max (delta_from n b) \<longleftrightarrow> ke_pids_max b < ke_pids_max n"
  by (simp_all add: delta_from_def saturating_sub_pos)

section \<open>Properties\<close>

text \<open>
  C35: A task finishes at most once and its terminal snapshot is immutable. However often
  completion is attempted on a running task, with whatever evidence and clock values, the
  attempts are failures that leave it running, then at most one success, then only
  \<open>AlreadyFinished\<close>; after the success the snapshot is the returned one for ever, is terminal and
  carries the id of the running task, and without a success it is still the running snapshot.
\<close>

theorem task_finishes_once:
  "\<exists>failures rest. fst (complete_all (LifecycleRunning t) attempts) = map Inl failures @ rest \<and>
     (rest = [] \<and> lifecycle_snapshot (snd (complete_all (LifecycleRunning t) attempts)) =
        Running (rt_task_id t) (rt_submitted_at t) (rt_started_at t) \<or>
      (\<exists>p n. rest = Inr p # replicate n (Inl AlreadyFinished) \<and> is_finished p \<and>
         snapshot_task_id p = rt_task_id t \<and>
         lifecycle_snapshot (snd (complete_all (LifecycleRunning t) attempts)) = p))"
proof -
  obtain failures rest where
    f: "fst (complete_all (LifecycleRunning t) attempts) = map Inl failures @ rest" and
    r: "rest = [] \<and> snd (complete_all (LifecycleRunning t) attempts) = LifecycleRunning t \<or>
     (\<exists>p n. rest = Inr p # replicate n (Inl AlreadyFinished) \<and> is_finished p \<and>
        snapshot_task_id p = rt_task_id t \<and>
        snd (complete_all (LifecycleRunning t) attempts) = LifecycleFinished p)"
    using complete_all_running [of t attempts] by (elim exE conjE) (rule that)
  have "rest = [] \<and> lifecycle_snapshot (snd (complete_all (LifecycleRunning t) attempts)) =
        Running (rt_task_id t) (rt_submitted_at t) (rt_started_at t) \<or>
      (\<exists>p n. rest = Inr p # replicate n (Inl AlreadyFinished) \<and> is_finished p \<and>
         snapshot_task_id p = rt_task_id t \<and>
         lifecycle_snapshot (snd (complete_all (LifecycleRunning t) attempts)) = p)"
    using r by (elim disjE exE conjE) simp_all
  then show ?thesis
    by (intro exI [of _ failures] exI [of _ rest] conjI f)
qed

text \<open>
  C36: A reaped process completes its task exactly when its outcome has a public name. Given
  that the C library classifies the wait status either as exited or as killed by a signal, that
  the clock did not run backwards and that the wall time in milliseconds fits 64 bits, completion
  succeeds with the decoded exit code or signal name, except that a signal without a name is
  the \<open>UnknownSignal\<close> error and leaves the task running.
\<close>

theorem reaped_process_completes:
  assumes status: "wifexited w status \<noteq> wifsignaled w status"
    and evidence: "cd_evidence c = Started (process_evidence_from_exit (decode_wait_status w status))"
    and clock: "rt_started_monotonic t \<le> finished" "(finished - rt_started_monotonic t) div 10 ^ 6 < 2 ^ 64"
  shows "if wifexited w status \<or> linux_signal_name (wtermsig w status) \<noteq> None
    then \<exists>reason timing usage output.
      complete_inner (LifecycleRunning t) c finished_at finished =
        (let p = Finished (rt_task_id t) reason
           (if wifexited w status
            then \<lparr>pr_exit_code = Some (wexitstatus w status), pr_signal = None\<rparr>
            else \<lparr>pr_exit_code = None, pr_signal = linux_signal_name (wtermsig w status)\<rparr>)
           timing usage output
         in (Inr p, LifecycleFinished p)) \<and>
      unat (tt_wall_time_ms timing) = (finished - rt_started_monotonic t) div 10 ^ 6
    else complete_inner (LifecycleRunning t) c finished_at finished =
      (Inl (UnknownSignal (wtermsig w status)), LifecycleRunning t)"
proof -
  obtain reason where reason: "classify_termination (completion_termination c) = Inr reason"
    using classify_total by blast
  from complete_inner_on_time [OF this clock, of finished_at] obtain timing usage out where
    fin: "unat (tt_wall_time_ms timing) = (finished - rt_started_monotonic t) div 10 ^ 6"
    "complete_inner (LifecycleRunning t) c finished_at finished =
      (case completion_process c of
         Inl e \<Rightarrow> (Inl e, LifecycleRunning t)
       | Inr process \<Rightarrow>
           (Inr (Finished (rt_task_id t) reason process timing usage out),
            LifecycleFinished (Finished (rt_task_id t) reason process timing usage out)))"
    by blast
  have process: "completion_process c =
      map_process_result (process_evidence_from_exit (decode_wait_status w status))"
    using evidence by (simp add: completion_process_def)
  show ?thesis
  proof (cases "wifexited w status \<or> linux_signal_name (wtermsig w status) \<noteq> None")
    case True
    then show ?thesis
      unfolding if_P [OF True] Let_def fin(2) process process_exit_result [OF status]
      by (intro exI [of _ reason] exI [of _ timing] exI [of _ usage] exI [of _ out])
        (auto simp only: fin(1) option.case sum.case if_True if_False simp_thms split: if_splits)
  next
    case False
    then show ?thesis
      unfolding if_not_P [OF False] fin(2) process process_exit_result [OF status] by simp
  qed
qed

theorem reaped_process_completes_witness:
  "\<exists>reason timing usage out.
     complete_inner (LifecycleRunning \<lparr>rt_task_id = ''t'', rt_submitted_at = ''s'',
         rt_started_at = ''r'', rt_started_monotonic = 5\<rparr>)
       \<lparr>cd_evidence = Started \<lparr>pe_exit_code = None, pe_signal = Some 9\<rparr>, cd_control = None,
        cd_stats = \<lparr>js_cpu_usage_micros = 1, js_memory_current_bytes = 2, js_memory_peak_bytes = 3,
          js_current_processes = 0, js_peak_processes = None,
          js_event_delta = \<lparr>ke_memory_oom = 0, ke_memory_oom_kill = 0, ke_pids_max = 0\<rparr>\<rparr>,
        cd_output = \<lparr>co_stdout = \<lparr>cs_tail = [], cs_truncated = False\<rparr>,
          co_stderr = \<lparr>cs_tail = [], cs_truncated = False\<rparr>\<rparr>,
        cd_daemon_error = False\<rparr> ''f'' 2000005 =
       (let p = Finished ''t'' reason \<lparr>pr_exit_code = None, pr_signal = linux_signal_name 9\<rparr>
          timing usage out
        in (Inr p, LifecycleFinished p)) \<and> unat (tt_wall_time_ms timing) = 2"
  using reaped_process_completes
    [of "\<lparr>wifexited = (\<lambda>s. s = 0), wexitstatus = (\<lambda>s. s), wifsignaled = (\<lambda>s. s \<noteq> 0),
          wtermsig = (\<lambda>s. s)\<rparr>" 9
      "\<lparr>cd_evidence = Started \<lparr>pe_exit_code = None, pe_signal = Some 9\<rparr>, cd_control = None,
        cd_stats = \<lparr>js_cpu_usage_micros = 1, js_memory_current_bytes = 2, js_memory_peak_bytes = 3,
          js_current_processes = 0, js_peak_processes = None,
          js_event_delta = \<lparr>ke_memory_oom = 0, ke_memory_oom_kill = 0, ke_pids_max = 0\<rparr>\<rparr>,
        cd_output = \<lparr>co_stdout = \<lparr>cs_tail = [], cs_truncated = False\<rparr>,
          co_stderr = \<lparr>cs_tail = [], cs_truncated = False\<rparr>\<rparr>,
        cd_daemon_error = False\<rparr>"
      "\<lparr>rt_task_id = ''t'', rt_submitted_at = ''s'', rt_started_at = ''r'',
        rt_started_monotonic = 5\<rparr>" 2000005 "''f''"] signal_range [of 9]
  by (simp add: decode_wait_status_def process_evidence_from_exit_def)

text \<open>
  C37: The reported reason is that of the strongest evidence. With the event counters read
  before and after the run, a recorded OOM kill is a memory-limit termination whatever else
  happened; without one an explicit trigger wins; without a trigger a process-limit event, then
  an OOM notice, then a daemon error, then a failed start; a task is reported as exited exactly
  when there is no such evidence at all. Classification never fails.
\<close>

theorem classification_follows_strongest_evidence:
  "let oom_kill = ke_memory_oom_kill before < ke_memory_oom_kill after;
       oom = ke_memory_oom before < ke_memory_oom after;
       pids = ke_pids_max before < ke_pids_max after
   in \<exists>reason. classify_termination \<lparr>te_execution = execution, te_control = control,
      te_event_delta = delta_from after before, te_daemon_error = daemon_error\<rparr> = Inr reason \<and>
    (reason = MemoryLimitExceeded \<longleftrightarrow> oom_kill \<or> control = None \<and> \<not> pids \<and> oom) \<and>
    (reason = ReasonTimedOut \<longleftrightarrow> \<not> oom_kill \<and> control = Some TimedOut) \<and>
    (reason = ReasonCancelled \<longleftrightarrow> \<not> oom_kill \<and> control = Some Cancelled) \<and>
    (reason = ProcessLimitExceeded \<longleftrightarrow> \<not> oom_kill \<and> control = None \<and> pids) \<and>
    (reason = DaemonError \<longleftrightarrow> \<not> oom_kill \<and> control = None \<and> \<not> pids \<and> \<not> oom \<and> daemon_error) \<and>
    (reason = ExecutionFailed \<longleftrightarrow> \<not> oom_kill \<and> control = None \<and> \<not> pids \<and> \<not> oom \<and>
       \<not> daemon_error \<and> (\<exists>errno. execution = StartFailed errno)) \<and>
    (reason = Exited \<longleftrightarrow> \<not> oom_kill \<and> control = None \<and> \<not> pids \<and> \<not> oom \<and>
       \<not> daemon_error \<and> (\<exists>process. execution = Started process))"
  unfolding Let_def
  by (simp add: classify_termination_def delta_from_grown
      split: option.split control_trigger.split execution_evidence.split)

text \<open>
  Signal names are unambiguous. A signal has a public name exactly when it is one of
  1 to 31 or 34 to 64, and two signals with the same name are the same signal.
\<close>

theorem signal_names_unambiguous:
  "(linux_signal_name s \<noteq> None \<longleftrightarrow> 1 \<le> s \<and> s \<le> 31 \<or> 34 \<le> s \<and> s \<le> 64) \<and>
   (linux_signal_name s = Some name \<and> linux_signal_name t = Some name \<longrightarrow> s = t)"
  using signal_range signal_name_inj by blast

theorem signal_names_unambiguous_witness:
  "linux_signal_name 35 \<noteq> None \<and> linux_signal_name 33 = None \<and>
   linux_signal_name 35 = Some ''SIGRTMIN+1'' \<and> linux_signal_name (34 + 1) = Some ''SIGRTMIN+1'' \<and>
   (35 :: int) = 34 + 1"
proof -
  have "linux_signal_name 35 = Some ''SIGRTMIN+1''" "linux_signal_name (34 + 1) = Some ''SIGRTMIN+1''"
    by code_simp+
  then show ?thesis
    using signal_names_unambiguous [of 35 "''SIGRTMIN+1''" "34 + 1"]
      signal_names_unambiguous [of 33] by auto
qed

text \<open>
  The first terminal trigger wins. Whatever sequence of timeouts, cancellations and
  closings reaches a fresh latch, exactly the first caller is told that it won, and the control
  trigger that the lifecycle later reads is the first call's for ever: none if the latch was
  closed first because the target had already exited.
\<close>

theorem first_trigger_wins:
  "fst (latch_calls 0 (call # calls)) = True # map (\<lambda>_. False) calls \<and>
   latch_snapshot (snd (latch_calls 0 (call # calls))) = call"
proof -
  have fresh: "latch_invar 0" "latch_winner 0 = None"
    by (simp_all add: latch_invar_def latch_winner_def)
  have "latch_snapshot cell = w" if "latch_winner cell = Some w" for cell w
    using that by (auto simp: latch_winner_def latch_snapshot_def split: if_splits)
  then show ?thesis
    using latch.first_offer_wins [OF fresh, of call calls] unfolding latch_calls_offers by blast
qed

end
