(* ===== verification/Submission.thy ===== *)
theory Submission
  imports Capsule Ordered_Map
begin

text \<open>
  From a submit request to the arguments of \<open>execve\<close>: the wire payload and its validation
  (\<open>daemon/src/protocol.rs\<close>, \<open>daemon/src/adapters/inbound/local_uds/mapper.rs\<close>), the execution plan
  (\<open>daemon/src/execution_plan.rs\<close>), the validated submission
  (\<open>daemon/src/application/task/submit.rs\<close>) and the prepared command
  (\<open>linux-runtime/src/executor/spawn.rs\<close>, \<open>daemon/src/adapters/linux_executor.rs\<close>).
  An open file is its descriptor number.
\<close>

section \<open>Wire payload\<close>

definition PROTOCOL_VERSION :: u32 where
  "PROTOCOL_VERSION = 1"

definition PROFILE_PROTOCOL_VERSION :: u32 where
  "PROFILE_PROTOCOL_VERSION = 2"

record command_spec =
  cs_program :: string
  cs_args :: "string list"
  cs_working_directory :: string
  cs_environment :: "(string, string) btree_map"

record submit_task_payload =
  sp_client_request_id :: string
  sp_command :: command_spec
  sp_limits :: wire_resource_limits
  sp_output :: wire_output_limits

datatype profile_input_value =
    WireString string
  | WireInt64 i64
  | WireBoolean bool
  | WireLocalInput string string u64

record partial_resource_limits =
  pl_cpu_max :: "wire_cpu_max option"
  pl_memory_max_bytes :: "u64 option"
  pl_pids_max :: "u64 option"
  pl_wall_time_limit_ms :: "u64 option"

record partial_output_limits =
  po_stdout_tail_max_bytes :: "u32 option"
  po_stderr_tail_max_bytes :: "u32 option"

record wire_resource_overrides =
  wr_limits :: "partial_resource_limits option"
  wr_output :: "partial_output_limits option"

record profile_request_payload =
  pp_client_request_id :: string
  pp_name :: string
  pp_version :: string
  pp_inputs :: "(string, profile_input_value) btree_map"
  pp_resource_overrides :: "wire_resource_overrides option"

datatype request =
    GetCapabilities u32 string
  | SubmitTask u32 string submit_task_payload
  | GetTask u32 string string
  | CancelTask u32 string string
  | SubmitProfile u32 string profile_request_payload
  | GetProfileResult u32 string string

fun request_protocol_version :: "request \<Rightarrow> u32" where
  "request_protocol_version (GetCapabilities v _) = v"
| "request_protocol_version (SubmitTask v _ _) = v"
| "request_protocol_version (GetTask v _ _) = v"
| "request_protocol_version (CancelTask v _ _) = v"
| "request_protocol_version (SubmitProfile v _ _) = v"
| "request_protocol_version (GetProfileResult v _ _) = v"

fun request_request_id :: "request \<Rightarrow> string" where
  "request_request_id (GetCapabilities _ r) = r"
| "request_request_id (SubmitTask _ r _) = r"
| "request_request_id (GetTask _ r _) = r"
| "request_request_id (CancelTask _ r _) = r"
| "request_request_id (SubmitProfile _ r _) = r"
| "request_request_id (GetProfileResult _ r _) = r"

section \<open>Execution plan\<close>

record raw_command =
  rc_program :: string
  rc_arguments :: "string list"
  rc_working_directory :: string
  rc_environment :: "(string, string) btree_map"

datatype resolved_executable = ExecutablePath string | Pinned nat string

record resolved_command =
  rd_executable :: resolved_executable
  rd_arguments :: "string list"
  rd_working_directory :: string
  rd_environment :: "(string, string) btree_map"

record resolved_execution_plan =
  ep_command :: resolved_command
  ep_budget :: resource_budget

definition resolved_command_from_validated_raw :: "raw_command \<Rightarrow> resolved_command" where
  "resolved_command_from_validated_raw c =
     \<lparr>rd_executable = ExecutablePath (rc_program c), rd_arguments = rc_arguments c,
      rd_working_directory = rc_working_directory c, rd_environment = rc_environment c\<rparr>"

definition plan_from_validated_raw ::
  "raw_command \<Rightarrow> resource_budget \<Rightarrow> resolved_execution_plan" where
  "plan_from_validated_raw c budget =
     \<lparr>ep_command = resolved_command_from_validated_raw c, ep_budget = budget\<rparr>"

definition plan_from_pinned_entrypoint ::
  "nat \<Rightarrow> string \<Rightarrow> string list \<Rightarrow> string \<Rightarrow> (string, string) btree_map \<Rightarrow> resource_budget \<Rightarrow>
   resolved_execution_plan" where
  "plan_from_pinned_entrypoint entrypoint argv0 arguments working_directory environment budget =
     \<lparr>ep_command = \<lparr>rd_executable = Pinned entrypoint argv0, rd_arguments = arguments,
        rd_working_directory = working_directory, rd_environment = environment\<rparr>,
      ep_budget = budget\<rparr>"

section \<open>Validated submissions\<close>

record raw_submission =
  rs_client_request_id :: string
  rs_command :: raw_command
  rs_budget :: resource_budget

datatype submission_identity = RawIdentity raw_submission | ProfileSubmissionIdentity profile_submission

record validated_submit =
  vs_identity :: submission_identity
  vs_plan :: resolved_execution_plan

definition validated_from_raw ::
  "string \<Rightarrow> raw_command \<Rightarrow> resource_budget \<Rightarrow> validated_submit" where
  "validated_from_raw client_request_id command budget =
     \<lparr>vs_identity = RawIdentity \<lparr>rs_client_request_id = client_request_id, rs_command = command,
        rs_budget = budget\<rparr>,
      vs_plan = plan_from_validated_raw command budget\<rparr>"

definition validated_from_profile ::
  "profile_submission \<Rightarrow> resolved_execution_plan \<Rightarrow> validated_submit" where
  "validated_from_profile submission plan =
     \<lparr>vs_identity = ProfileSubmissionIdentity submission, vs_plan = plan\<rparr>"

fun identity_client_request_id :: "submission_identity \<Rightarrow> string" where
  "identity_client_request_id (RawIdentity s) = rs_client_request_id s"
| "identity_client_request_id (ProfileSubmissionIdentity s) = ps_client_request_id s"

definition submit_client_request_id :: "validated_submit \<Rightarrow> string" where
  "submit_client_request_id v = identity_client_request_id (vs_identity v)"

definition submit_budget :: "validated_submit \<Rightarrow> resource_budget" where
  "submit_budget v = ep_budget (vs_plan v)"

section \<open>Validation\<close>

datatype submit_validation_error =
    NotSubmitTask
  | UnsupportedProtocolVersion u32
  | InvalidUuid string
  | ProgramNotAbsolute
  | WorkingDirectoryNotAbsolute
  | InvalidEnvironmentKey
  | NulByte string
  | ResourceBudgetInvalid policy_error

definition is_ascii_hexdigit :: "char \<Rightarrow> bool" where
  "is_ascii_hexdigit c \<longleftrightarrow>
     is_ascii_digit c \<or> 65 \<le> byte c \<and> byte c \<le> 70 \<or> 97 \<le> byte c \<and> byte c \<le> 102"

definition valid_uuid :: "string \<Rightarrow> bool" where
  "valid_uuid value \<longleftrightarrow>
     length value = 36 \<and>
     list_all (\<lambda>(index, c). if index \<in> {8, 13, 18, 23} then c = CHR ''-'' else is_ascii_hexdigit c)
       (zip [0..<length value] value)"

definition validate_uuid :: "string \<Rightarrow> string \<Rightarrow> submit_validation_error + unit" where
  "validate_uuid field value = (if valid_uuid value then Ok () else Err (InvalidUuid field))"

definition reject_nul :: "string \<Rightarrow> string \<Rightarrow> submit_validation_error + unit" where
  "reject_nul field value = (if nul \<in> set value then Err (NulByte field) else Ok ())"

definition starts_with_slash :: "string \<Rightarrow> bool" where
  "starts_with_slash s \<longleftrightarrow> (case s of [] \<Rightarrow> False | c # _ \<Rightarrow> c = CHR ''/'')"

fun validate_arguments :: "string list \<Rightarrow> submit_validation_error + unit" where
  "validate_arguments [] = Ok ()"
| "validate_arguments (a # rest) =
     and_then (reject_nul ''command.args'' a) (\<lambda>_. validate_arguments rest)"

fun validate_environment :: "(string, string) btree_map \<Rightarrow> submit_validation_error + unit" where
  "validate_environment [] = Ok ()"
| "validate_environment ((key, value) # rest) =
     (if key = [] \<or> CHR ''='' \<in> set key then Err InvalidEnvironmentKey
      else and_then (reject_nul ''command.environment key'' key) (\<lambda>_.
           and_then (reject_nul ''command.environment value'' value) (\<lambda>_.
             validate_environment rest)))"

definition validate_command :: "submit_task_payload \<Rightarrow> submit_validation_error + unit" where
  "validate_command payload =
     (let command = sp_command payload in
      if \<not> starts_with_slash (cs_program command) then Err ProgramNotAbsolute
      else if \<not> starts_with_slash (cs_working_directory command) then Err WorkingDirectoryNotAbsolute
      else and_then (reject_nul ''command.program'' (cs_program command)) (\<lambda>_.
           and_then (reject_nul ''command.workingDirectory'' (cs_working_directory command)) (\<lambda>_.
           and_then (validate_arguments (cs_args command)) (\<lambda>_.
             validate_environment (cs_environment command)))))"

definition validated_submit_payload ::
  "submit_task_payload \<Rightarrow> submit_validation_error + validated_submit" where
  "validated_submit_payload payload =
     and_then (validate_uuid ''clientRequestId'' (sp_client_request_id payload)) (\<lambda>_.
     and_then (validate_command payload) (\<lambda>_.
     and_then (map_err ResourceBudgetInvalid
       (resource_budget_from_wire (sp_limits payload) (sp_output payload))) (\<lambda>budget.
       Ok (validated_from_raw (sp_client_request_id payload)
         \<lparr>rc_program = cs_program (sp_command payload), rc_arguments = cs_args (sp_command payload),
          rc_working_directory = cs_working_directory (sp_command payload),
          rc_environment = cs_environment (sp_command payload)\<rparr> budget))))"

fun validated_submit_request :: "request \<Rightarrow> submit_validation_error + string \<times> validated_submit" where
  "validated_submit_request (SubmitTask protocol_version request_id payload) =
     (if protocol_version \<noteq> PROTOCOL_VERSION then
        Err (UnsupportedProtocolVersion protocol_version)
      else and_then (validate_uuid ''requestId'' request_id) (\<lambda>_.
           and_then (validated_submit_payload payload) (\<lambda>submit. Ok (request_id, submit))))"
| "validated_submit_request _ = Err NotSubmitTask"

section \<open>Profile requests\<close>

fun profile_value_from_wire :: "profile_input_value \<Rightarrow> profile_value" where
  "profile_value_from_wire (WireString v) = StringValue v"
| "profile_value_from_wire (WireInt64 v) = Int64Value v"
| "profile_value_from_wire (WireBoolean v) = BooleanValue v"
| "profile_value_from_wire (WireLocalInput path digest size_bytes) =
     LocalInputValue path digest size_bytes"

definition profile_resource_overrides_from_wire ::
  "wire_resource_overrides \<Rightarrow> profile_resource_overrides" where
  "profile_resource_overrides_from_wire ov =
     (let d = (case wr_limits ov of
             None \<Rightarrow> no_overrides
           | Some l \<Rightarrow> no_overrides
               \<lparr>ro_cpu_max := map_option (\<lambda>c. \<lparr>cm_quota_micros = wc_quota_micros c,
                   cm_period_micros = wc_period_micros c\<rparr>) (pl_cpu_max l),
                ro_memory_max_bytes := pl_memory_max_bytes l,
                ro_pids_max := pl_pids_max l,
                ro_wall_time_limit_ms := pl_wall_time_limit_ms l\<rparr>)
      in case wr_output ov of
           None \<Rightarrow> d
         | Some out \<Rightarrow> d\<lparr>ro_stdout_tail_max_bytes := po_stdout_tail_max_bytes out,
                        ro_stderr_tail_max_bytes := po_stderr_tail_max_bytes out\<rparr>)"

definition profile_call_from_wire :: "profile_request_payload \<Rightarrow> profile_call" where
  "profile_call_from_wire r =
     (let call = profile_call_new \<lparr>pi_name = pp_name r, pi_version = pp_version r\<rparr>
            (map (\<lambda>(name, v). (name, profile_value_from_wire v)) (pp_inputs r))
      in case pp_resource_overrides r of
           Some ov \<Rightarrow> with_resource_overrides call (profile_resource_overrides_from_wire ov)
         | None \<Rightarrow> call)"

definition profile_submission_from_wire :: "profile_request_payload \<Rightarrow> profile_submission" where
  "profile_submission_from_wire r =
     \<lparr>ps_client_request_id = pp_client_request_id r, ps_call = profile_call_from_wire r\<rparr>"

section \<open>Prepared commands\<close>

datatype prepare_error =
    EmptyCommand
  | PrepareNulByte
  | PrepareProgramNotAbsolute string
  | PrepareWorkingDirectoryNotAbsolute string
  | PrepareInvalidEnvironmentKey string

datatype prepared_executable = PreparedPath string | PreparedDescriptor nat

record prepared_command =
  pd_executable :: prepared_executable
  pd_argv :: "string list"
  pd_environment :: "string list"
  pd_working_directory :: string

text \<open>\<open>CString::new\<close> refuses an interior NUL.\<close>

definition os_string_to_cstring :: "string \<Rightarrow> prepare_error + string" where
  "os_string_to_cstring s = (if nul \<in> set s then Err PrepareNulByte else Ok s)"

fun collect_results :: "('a \<Rightarrow> 'e + 'b) \<Rightarrow> 'a list \<Rightarrow> 'e + 'b list" where
  "collect_results f [] = Ok []"
| "collect_results f (x # xs) =
     and_then (f x) (\<lambda>y. and_then (collect_results f xs) (\<lambda>ys. Ok (y # ys)))"

definition environment_entry :: "string \<times> string \<Rightarrow> prepare_error + string" where
  "environment_entry = (\<lambda>(key, value).
     if key = [] \<or> CHR ''='' \<in> set key then Err (PrepareInvalidEnvironmentKey key)
     else os_string_to_cstring (key @ CHR ''='' # value))"

definition prepare ::
  "prepared_executable \<Rightarrow> string list \<Rightarrow> string \<Rightarrow> (string, string) btree_map \<Rightarrow>
   prepare_error + prepared_command" where
  "prepare executable command working_directory environment =
     (if \<not> starts_with_slash working_directory then
        Err (PrepareWorkingDirectoryNotAbsolute working_directory)
      else
        and_then (collect_results os_string_to_cstring command) (\<lambda>argv.
        and_then (collect_results environment_entry environment) (\<lambda>env.
        and_then (os_string_to_cstring working_directory) (\<lambda>wd.
          Ok \<lparr>pd_executable = executable, pd_argv = argv, pd_environment = env,
              pd_working_directory = wd\<rparr>))))"

fun prepared_command_new ::
  "string list \<Rightarrow> string \<Rightarrow> (string, string) btree_map \<Rightarrow> prepare_error + prepared_command" where
  "prepared_command_new [] wd env = Err EmptyCommand"
| "prepared_command_new (exe # args) wd env =
     (if \<not> starts_with_slash exe then Err (PrepareProgramNotAbsolute exe)
      else and_then (os_string_to_cstring exe) (\<lambda>c. prepare (PreparedPath c) (exe # args) wd env))"

definition prepared_command_new_pinned ::
  "nat \<Rightarrow> string list \<Rightarrow> string \<Rightarrow> (string, string) btree_map \<Rightarrow> prepare_error + prepared_command" where
  "prepared_command_new_pinned descriptor command wd env =
     (if command = [] then Err EmptyCommand
      else prepare (PreparedDescriptor descriptor) command wd env)"

definition prepare_resolved_command :: "resolved_command \<Rightarrow> prepare_error + prepared_command" where
  "prepare_resolved_command c =
     (case rd_executable c of
        ExecutablePath exe \<Rightarrow>
          prepared_command_new (exe # rd_arguments c) (rd_working_directory c) (rd_environment c)
      | Pinned descriptor argv0 \<Rightarrow>
          prepared_command_new_pinned descriptor (argv0 # rd_arguments c) (rd_working_directory c)
            (rd_environment c))"

section \<open>Lemmas\<close>

lemma reject_nul_Inr: "reject_nul field v = Inr u \<longleftrightarrow> nul \<notin> set v"
  by (auto simp: reject_nul_def)

lemma validate_uuid_Inr: "validate_uuid field v = Inr u \<longleftrightarrow> valid_uuid v"
  by (auto simp: validate_uuid_def)

lemma validate_arguments_Inr: "validate_arguments args = Inr u \<longleftrightarrow> (\<forall>a \<in> set args. nul \<notin> set a)"
  by (induction args) (auto simp: reject_nul_Inr and_then_eq_Inr)

definition safe_entry :: "string \<times> string \<Rightarrow> bool" where
  "safe_entry = (\<lambda>(key, value).
     key \<noteq> [] \<and> CHR ''='' \<notin> set key \<and> nul \<notin> set key \<and> nul \<notin> set value)"

lemma validate_environment_Inr:
  "validate_environment env = Inr u \<longleftrightarrow> (\<forall>e \<in> set env. safe_entry e)"
  by (induction env rule: validate_environment.induct)
    (auto simp: reject_nul_Inr and_then_eq_Inr safe_entry_def)

text \<open>What \<open>execve\<close> needs of a command: no NUL anywhere, absolute paths, proper entries.\<close>

definition exec_safe :: "command_spec \<Rightarrow> bool" where
  "exec_safe c \<longleftrightarrow>
     starts_with_slash (cs_program c) \<and> starts_with_slash (cs_working_directory c) \<and>
     nul \<notin> set (cs_program c) \<and> nul \<notin> set (cs_working_directory c) \<and>
     (\<forall>a \<in> set (cs_args c). nul \<notin> set a) \<and> (\<forall>e \<in> set (cs_environment c). safe_entry e)"

lemma validate_command_Inr:
  "validate_command payload = Inr u \<longleftrightarrow> exec_safe (sp_command payload)"
  by (auto simp: validate_command_def exec_safe_def Let_def and_then_eq_Inr reject_nul_Inr
      validate_arguments_Inr validate_environment_Inr)

definition raw_command_of :: "command_spec \<Rightarrow> raw_command" where
  "raw_command_of c =
     \<lparr>rc_program = cs_program c, rc_arguments = cs_args c,
      rc_working_directory = cs_working_directory c, rc_environment = cs_environment c\<rparr>"

lemma validated_submit_payload_Inr:
  "validated_submit_payload payload = Inr v \<longleftrightarrow>
   valid_uuid (sp_client_request_id payload) \<and> exec_safe (sp_command payload) \<and>
   (\<exists>b. resource_budget_from_wire (sp_limits payload) (sp_output payload) = Inr b \<and>
      v = validated_from_raw (sp_client_request_id payload) (raw_command_of (sp_command payload)) b)"
  by (auto simp: validated_submit_payload_def and_then_eq_Inr map_err_eq_Inr validate_uuid_Inr
      validate_command_Inr raw_command_of_def)

lemma validated_submit_request_Inr:
  "validated_submit_request (SubmitTask version request_id payload) = Inr (rid, v) \<longleftrightarrow>
   version = PROTOCOL_VERSION \<and> rid = request_id \<and> valid_uuid request_id \<and>
   validated_submit_payload payload = Inr v"
  by (auto simp: and_then_eq_Inr validate_uuid_Inr)

lemma collect_results_all:
  "(\<forall>x \<in> set xs. f x = Inr (g x)) \<Longrightarrow> collect_results f xs = Inr (map g xs)"
  by (induction xs) auto

lemma collect_cstrings: "(\<forall>x \<in> set xs. nul \<notin> set x) \<Longrightarrow> collect_results os_string_to_cstring xs = Inr xs"
  using collect_results_all [of xs os_string_to_cstring "\<lambda>x. x"] by (simp add: os_string_to_cstring_def)

definition entry_text :: "string \<times> string \<Rightarrow> string" where
  "entry_text = (\<lambda>(key, value). key @ CHR ''='' # value)"

lemma nul_not_equals: "nul \<noteq> CHR ''=''"
  unfolding byte_inj [symmetric] by (simp add: byte_def nul_def)

lemma environment_entry_safe: "safe_entry e \<Longrightarrow> environment_entry e = Inr (entry_text e)"
  using nul_not_equals
  by (auto simp: safe_entry_def environment_entry_def entry_text_def os_string_to_cstring_def
      split: prod.splits)

lemma prepare_safe:
  assumes "exec_safe c"
  shows "prepare_resolved_command (resolved_command_from_validated_raw (raw_command_of c)) =
    Inr \<lparr>pd_executable = PreparedPath (cs_program c), pd_argv = cs_program c # cs_args c,
      pd_environment = map entry_text (cs_environment c),
      pd_working_directory = cs_working_directory c\<rparr>"
proof -
  have env: "collect_results environment_entry (cs_environment c) =
      Inr (map entry_text (cs_environment c))"
    using assms by (intro collect_results_all) (auto simp: exec_safe_def environment_entry_safe)
  have argv: "collect_results os_string_to_cstring (cs_program c # cs_args c) =
      Inr (cs_program c # cs_args c)"
    using assms by (intro collect_cstrings) (auto simp: exec_safe_def)
  from assms env argv show ?thesis
    by (simp add: exec_safe_def prepare_resolved_command_def resolved_command_from_validated_raw_def
        raw_command_of_def prepare_def os_string_to_cstring_def del: collect_results.simps)
qed

text \<open>An environment entry splits at its first equals sign into the key and the value.\<close>

lemma entry_text_splits:
  "safe_entry (key, value) \<Longrightarrow>
   takeWhile (\<lambda>c. c \<noteq> CHR ''='') (entry_text (key, value)) = key \<and>
   tl (dropWhile (\<lambda>c. c \<noteq> CHR ''='') (entry_text (key, value))) = value"
  by (auto simp: safe_entry_def entry_text_def takeWhile_append dropWhile_append)

section \<open>Properties\<close>

text \<open>
  C39: A submit request is accepted exactly when it is well formed. It must have protocol
  version 1, UUID ids, an absolute program and working directory, no NUL byte in any string,
  environment names that are not empty and have no equals sign, and limits the budget accepts;
  the accepted submission then carries the caller's id, command and budget unchanged, in its
  idempotency identity and in its plan. Every other kind of request is refused.
\<close>

theorem submit_accepted_exactly:
  "validated_submit_request r = Inr (rid, v) \<longleftrightarrow>
   (\<exists>payload b. r = SubmitTask PROTOCOL_VERSION rid payload \<and> valid_uuid rid \<and>
      valid_uuid (sp_client_request_id payload) \<and> exec_safe (sp_command payload) \<and>
      resource_budget_from_wire (sp_limits payload) (sp_output payload) = Inr b \<and>
      submit_client_request_id v = sp_client_request_id payload \<and>
      submit_budget v = b \<and>
      vs_identity v = RawIdentity \<lparr>rs_client_request_id = sp_client_request_id payload,
        rs_command = raw_command_of (sp_command payload), rs_budget = b\<rparr> \<and>
      ep_command (vs_plan v) =
        resolved_command_from_validated_raw (raw_command_of (sp_command payload)))"
proof -
  have v: "v = validated_from_raw cid c b \<longleftrightarrow>
      submit_client_request_id v = cid \<and> submit_budget v = b \<and>
      vs_identity v = RawIdentity \<lparr>rs_client_request_id = cid, rs_command = c, rs_budget = b\<rparr> \<and>
      ep_command (vs_plan v) = resolved_command_from_validated_raw c" for cid c b
    by (cases v; cases "vs_plan v")
      (auto simp: validated_from_raw_def submit_client_request_id_def submit_budget_def
        plan_from_validated_raw_def)
  show ?thesis
    by (cases r) (auto simp: validated_submit_request_Inr validated_submit_payload_Inr v
        simp del: validated_submit_request.simps(1))
qed

text \<open>
  C40: An accepted submission always reaches \<open>execve\<close> as it was asked. Preparing the command of
  an accepted submission never fails: the path executed is the requested program, the argument
  vector is the program followed by the arguments, the environment is exactly the requested
  entries in key order with nothing inherited, and each entry splits at its first equals sign
  into the requested name and value.
\<close>

theorem accepted_submission_prepares:
  assumes "validated_submit_request (SubmitTask version request_id payload) = Inr (rid, v)"
  shows "\<exists>p. prepare_resolved_command (ep_command (vs_plan v)) = Inr p \<and>
    pd_executable p = PreparedPath (cs_program (sp_command payload)) \<and>
    pd_argv p = cs_program (sp_command payload) # cs_args (sp_command payload) \<and>
    pd_working_directory p = cs_working_directory (sp_command payload) \<and>
    map (\<lambda>e. (takeWhile (\<lambda>c. c \<noteq> CHR ''='') e, tl (dropWhile (\<lambda>c. c \<noteq> CHR ''='') e)))
      (pd_environment p) = cs_environment (sp_command payload)"
proof -
  have safe: "exec_safe (sp_command payload)"
    and plan: "ep_command (vs_plan v) =
      resolved_command_from_validated_raw (raw_command_of (sp_command payload))"
    using assms
    by (auto simp: validated_submit_request_Inr validated_submit_payload_Inr validated_from_raw_def
        plan_from_validated_raw_def simp del: validated_submit_request.simps)
  have "map (\<lambda>e. (takeWhile (\<lambda>c. c \<noteq> CHR ''='') e, tl (dropWhile (\<lambda>c. c \<noteq> CHR ''='') e)))
      (map entry_text (cs_environment (sp_command payload))) = cs_environment (sp_command payload)"
    unfolding map_map
    by (rule map_idI) (use safe entry_text_splits in \<open>force simp: exec_safe_def\<close>)
  with prepare_safe [OF safe] show ?thesis
    unfolding plan by simp
qed

theorem accepted_submission_prepares_witness:
  "\<exists>v p. validated_submit_request (SubmitTask 1 ''11111111-1111-4111-8111-111111111111''
      \<lparr>sp_client_request_id = ''22222222-2222-4222-8222-222222222222'',
       sp_command = \<lparr>cs_program = ''/bin/env'', cs_args = [''a''], cs_working_directory = ''/'',
         cs_environment = [(''K'', ''x=y'')]\<rparr>,
       sp_limits = \<lparr>wl_cpu_max = \<lparr>wc_quota_micros = 1, wc_period_micros = 1\<rparr>, wl_memory_max_bytes = 1,
         wl_pids_max = 1, wl_wall_time_limit_ms = 1\<rparr>,
       sp_output = \<lparr>wo_stdout_tail_max_bytes = 1, wo_stderr_tail_max_bytes = 1\<rparr>\<rparr>) =
     Inr (''11111111-1111-4111-8111-111111111111'', v) \<and>
     prepare_resolved_command (ep_command (vs_plan v)) = Inr p \<and> pd_argv p = [''/bin/env'', ''a'']"
  (is "\<exists>v p. validated_submit_request (SubmitTask 1 ?rid ?payload) = _ \<and> _ \<and> _")
proof -
  have uuids: "valid_uuid ?rid" "valid_uuid (sp_client_request_id ?payload)"
    by (simp_all add: valid_uuid_def is_ascii_hexdigit_def is_ascii_digit_def byte_def upt_rec)
  have safe: "exec_safe (sp_command ?payload)"
    by (simp add: exec_safe_def safe_entry_def starts_with_slash_def byte_inj [symmetric] byte_def nul_def)
  obtain b where "resource_budget_from_wire (sp_limits ?payload) (sp_output ?payload) = Inr b"
    by (simp add: resource_budget_from_wire_def resource_budget_try_new_Ok)
  with uuids safe obtain v where accepted:
    "validated_submit_request (SubmitTask 1 ?rid ?payload) = Inr (?rid, v)"
    unfolding validated_submit_request_Inr validated_submit_payload_Inr PROTOCOL_VERSION_def by blast
  from accepted_submission_prepares [OF accepted] obtain p where
    "prepare_resolved_command (ep_command (vs_plan v)) = Inr p" "pd_argv p = [''/bin/env'', ''a'']"
    by auto
  with accepted show ?thesis
    by blast
qed

end
