(* ===== verification/Registry.thy ===== *)
theory Registry
  imports Submission Lifecycle
begin

text \<open>
  The in-memory task registry: \<open>daemon/src/adapters/task_registry.rs\<close> with the port values of
  \<open>daemon/src/application/task/ports.rs\<close> and the cancellation channel of
  \<open>daemon/src/application/task/cancellation.rs\<close>. The mutex makes every operation one atomic step;
  the clock is an argument. Objects shared by \<open>Arc\<close> (submit signals, cancellation states) live in
  lists and are named by their position, so that \<open>Arc::ptr_eq\<close> is equality of names.
\<close>

section \<open>Port values\<close>

datatype registry_error =
    RunningSnapshotRequired
  | FinishedSnapshotRequired
  | TaskAlreadyExists string
  | IdempotencyConflict string
  | TaskNotFound string
  | TaskAlreadyFinished string
  | TaskIdMismatch string string
  | StateUnavailable
  | VerifiedEffectiveLimitsRequired string
  | CapacityExhausted

fun registry_error_code :: "registry_error \<Rightarrow> use_case_error_code option" where
  "registry_error_code (IdempotencyConflict _) = Some IdempotencyConflictCode"
| "registry_error_code (TaskNotFound _) = Some TaskNotFoundCode"
| "registry_error_code (TaskAlreadyFinished _) = Some TaskAlreadyFinishedCode"
| "registry_error_code StateUnavailable = Some InternalError"
| "registry_error_code (VerifiedEffectiveLimitsRequired _) = Some InternalError"
| "registry_error_code CapacityExhausted = Some CapacityExhaustedCode"
| "registry_error_code _ = None"

text \<open>
  A failure message is what it is made from: an error's text, the fixed text of an owner that ended
  without a result, or a given text.
\<close>

datatype failure_message = ErrorText registry_error | OwnerEnded | Message string

record submit_failure =
  sf_code :: use_case_error_code
  sf_message :: failure_message

datatype submit_observation = ObservedTask task_snapshot | ObservedFailure submit_failure

section \<open>Cancellation\<close>

record cancellation_state =
  ca_terminal :: trigger_latch
  ca_finished :: "task_snapshot option"

definition cancellation_new :: cancellation_state where
  "cancellation_new = \<lparr>ca_terminal = 0, ca_finished = None\<rparr>"

text \<open>The flag of \<open>cancellation_request\<close> is the notification of the runner.\<close>

definition cancellation_request :: "cancellation_state \<Rightarrow> bool \<times> cancellation_state" where
  "cancellation_request c =
     (let (first, cell) = latch_observe (ca_terminal c) Cancelled
      in (first, c\<lparr>ca_terminal := cell\<rparr>))"

definition cancellation_observe_timeout :: "cancellation_state \<Rightarrow> bool \<times> cancellation_state" where
  "cancellation_observe_timeout c =
     (let (first, cell) = latch_observe (ca_terminal c) TimedOut
      in (first, c\<lparr>ca_terminal := cell\<rparr>))"

definition cancellation_close :: "cancellation_state \<Rightarrow> bool \<times> cancellation_state" where
  "cancellation_close c =
     (let (first, cell) = latch_close (ca_terminal c) in (first, c\<lparr>ca_terminal := cell\<rparr>))"

definition control_snapshot :: "cancellation_state \<Rightarrow> control_triggers" where
  "control_snapshot c = latch_snapshot (ca_terminal c)"

definition cancellation_complete :: "cancellation_state \<Rightarrow> task_snapshot \<Rightarrow> cancellation_state" where
  "cancellation_complete c finished = c\<lparr>ca_finished := Some finished\<rparr>"

section \<open>State\<close>

definition MIN_FINISHED_RETENTION :: duration where
  "MIN_FINISHED_RETENTION = duration_from_secs (10 * 60)"

datatype registry_settings_error = ZeroMaximumTasks

definition registry_settings_new :: "nat \<Rightarrow> registry_settings_error + nat" where
  "registry_settings_new max_tasks = (if max_tasks = 0 then Err ZeroMaximumTasks else Ok max_tasks)"

record task_record =
  tk_snapshot :: task_snapshot
  tk_effective_limits :: "effective_limits option"
  tk_finished_monotonic :: "instant option"
  tk_cancellation :: "nat option"

record request_record =
  rq_task_id :: string
  rq_identity :: submission_identity
  rq_reservation :: nat

record registry =
  rg_max_tasks :: nat
  rg_poisoned :: bool
  rg_tasks :: "(string, task_record) fmap"
  rg_requests :: "(string, request_record) fmap"
  rg_task_requests :: "(string, string) fmap"
  rg_expirations :: "(string \<times> instant) list"
  rg_signals :: "submit_observation option list"
  rg_cancellations :: "cancellation_state list"

record submit_owner =
  ow_client_request_id :: string
  ow_task_id :: string
  ow_request :: validated_submit
  ow_signal :: nat

record submit_waiter =
  wt_task_id :: string
  wt_signal :: nat

datatype submit_reservation = Owner submit_owner | Existing submit_waiter

record finished_publication =
  fp_snapshot :: task_snapshot
  fp_cancellation :: "nat option"
  fp_signal :: nat

definition registry_new :: "nat \<Rightarrow> registry" where
  "registry_new max_tasks =
     \<lparr>rg_max_tasks = max_tasks, rg_poisoned = False, rg_tasks = fmempty, rg_requests = fmempty,
      rg_task_requests = fmempty, rg_expirations = [], rg_signals = [], rg_cancellations = []\<rparr>"

section \<open>Expiry\<close>

definition expired :: "instant \<Rightarrow> instant \<Rightarrow> bool" where
  "expired now finished =
     (case checked_duration_since now finished of
        Some elapsed \<Rightarrow> elapsed > MIN_FINISHED_RETENTION
      | None \<Rightarrow> False)"

definition remove_expired :: "string \<Rightarrow> registry \<Rightarrow> registry" where
  "remove_expired task_id g =
     (case fmlookup (rg_tasks g) task_id of
        None \<Rightarrow> g
      | Some record \<Rightarrow>
          let g' = g\<lparr>rg_tasks := fmdrop task_id (rg_tasks g)\<rparr> in
          case fmlookup (rg_task_requests g) task_id of
            None \<Rightarrow> g'
          | Some client_request_id \<Rightarrow>
              g'\<lparr>rg_task_requests := fmdrop task_id (rg_task_requests g),
                 rg_requests := fmdrop client_request_id (rg_requests g)\<rparr>)"

fun purge_entries :: "instant \<Rightarrow> (string \<times> instant) list \<Rightarrow> registry \<Rightarrow> registry" where
  "purge_entries now [] g = g\<lparr>rg_expirations := []\<rparr>"
| "purge_entries now ((task_id, finished) # rest) g =
     (if expired now finished then purge_entries now rest (remove_expired task_id g)
      else g\<lparr>rg_expirations := (task_id, finished) # rest\<rparr>)"

definition purge_expired :: "instant \<Rightarrow> registry \<Rightarrow> registry" where
  "purge_expired now g = purge_entries now (rg_expirations g) g"

text \<open>
  Every operation first takes the lock, which fails when it is poisoned, and purges.
\<close>

definition locked ::
  "registry \<Rightarrow> instant \<Rightarrow> (registry \<Rightarrow> (registry_error + 'a) \<times> registry) \<Rightarrow>
   (registry_error + 'a) \<times> registry" where
  "locked g now f = (if rg_poisoned g then (Err StateUnavailable, g) else f (purge_expired now g))"

section \<open>Operations\<close>

definition publish_signal :: "nat \<Rightarrow> submit_observation \<Rightarrow> registry \<Rightarrow> registry" where
  "publish_signal signal observation g =
     g\<lparr>rg_signals := (rg_signals g)[signal := Some observation]\<rparr>"

definition reserve_submit_with ::
  "registry \<Rightarrow> instant \<Rightarrow> validated_submit \<Rightarrow> string \<Rightarrow>
   (registry_error + submit_reservation) \<times> registry" where
  "reserve_submit_with g now request candidate_task_id =
     (let identity = vs_identity request; client_request_id = submit_client_request_id request in
      locked g now (\<lambda>g.
        case fmlookup (rg_requests g) client_request_id of
          Some existing \<Rightarrow>
            if rq_identity existing \<noteq> identity then (Err (IdempotencyConflict client_request_id), g)
            else (Ok (Existing \<lparr>wt_task_id = rq_task_id existing, wt_signal = rq_reservation existing\<rparr>), g)
        | None \<Rightarrow>
            if rg_max_tasks g \<le> fmlen (rg_requests g) then (Err CapacityExhausted, g)
            else if candidate_task_id |\<in>| fmdom (rg_task_requests g)
              then (Err (TaskAlreadyExists candidate_task_id), g)
            else let signal = length (rg_signals g) in
              (Ok (Owner \<lparr>ow_client_request_id = client_request_id, ow_task_id = candidate_task_id,
                     ow_request = request, ow_signal = signal\<rparr>),
               g\<lparr>rg_signals := rg_signals g @ [None],
                 rg_task_requests := fmupd candidate_task_id client_request_id (rg_task_requests g),
                 rg_requests := fmupd client_request_id
                   \<lparr>rq_task_id = candidate_task_id, rq_identity = identity, rq_reservation = signal\<rparr>
                   (rg_requests g)\<rparr>)))"

definition existing_submit ::
  "registry \<Rightarrow> instant \<Rightarrow> validated_submit \<Rightarrow>
   (registry_error + submit_waiter option) \<times> registry" where
  "existing_submit g now request =
     locked g now (\<lambda>g.
       case fmlookup (rg_requests g) (submit_client_request_id request) of
         None \<Rightarrow> (Ok None, g)
       | Some existing \<Rightarrow>
           if rq_identity existing \<noteq> vs_identity request
           then (Err (IdempotencyConflict (submit_client_request_id request)), g)
           else (Ok (Some \<lparr>wt_task_id = rq_task_id existing, wt_signal = rq_reservation existing\<rparr>), g))"

definition registry_snapshot ::
  "registry \<Rightarrow> instant \<Rightarrow> string \<Rightarrow> (registry_error + task_snapshot option) \<times> registry" where
  "registry_snapshot g now task_id =
     locked g now (\<lambda>g. (Ok (map_option tk_snapshot (fmlookup (rg_tasks g) task_id)), g))"

definition snapshot_by_client_request_id ::
  "registry \<Rightarrow> instant \<Rightarrow> string \<Rightarrow> (registry_error + task_snapshot option) \<times> registry" where
  "snapshot_by_client_request_id g now client_request_id =
     locked g now (\<lambda>g.
       case fmlookup (rg_requests g) client_request_id of
         None \<Rightarrow> (Ok None, g)
       | Some request \<Rightarrow>
           (Ok (map_option tk_snapshot (fmlookup (rg_tasks g) (rq_task_id request))), g))"

definition has_client_request_id ::
  "registry \<Rightarrow> instant \<Rightarrow> string \<Rightarrow> (registry_error + bool) \<times> registry" where
  "has_client_request_id g now client_request_id =
     locked g now (\<lambda>g. (Ok (client_request_id |\<in>| fmdom (rg_requests g)), g))"

fun is_running_observation :: "submit_observation \<Rightarrow> bool" where
  "is_running_observation (ObservedTask (Running _ _ _)) = True"
| "is_running_observation _ = False"

definition effective_limits_for ::
  "registry \<Rightarrow> instant \<Rightarrow> string \<Rightarrow> submit_observation \<Rightarrow>
   (registry_error + effective_limits option) \<times> registry" where
  "effective_limits_for g now task_id observation =
     (if \<not> is_running_observation observation then (Ok None, g)
      else locked g now (\<lambda>g.
        (case Option.bind (fmlookup (rg_tasks g) task_id) tk_effective_limits of
           Some limits \<Rightarrow> Ok (Some limits)
         | None \<Rightarrow> Err (VerifiedEffectiveLimitsRequired task_id), g)))"

definition request_cancel ::
  "registry \<Rightarrow> instant \<Rightarrow> string \<Rightarrow> (registry_error + nat) \<times> registry" where
  "request_cancel g now task_id =
     locked g now (\<lambda>g.
       case fmlookup (rg_tasks g) task_id of
         None \<Rightarrow> (Err (TaskNotFound task_id), g)
       | Some record \<Rightarrow>
           if is_finished (tk_snapshot record) then (Err (TaskAlreadyFinished task_id), g)
           else case tk_cancellation record of
             None \<Rightarrow> (Err StateUnavailable, g)
           | Some c \<Rightarrow>
               (Ok c, g\<lparr>rg_cancellations := (rg_cancellations g)
                   [c := snd (cancellation_request (rg_cancellations g ! c))]\<rparr>))"

definition verify_task_id :: "string \<Rightarrow> string \<Rightarrow> registry_error + unit" where
  "verify_task_id expected actual =
     (if expected = actual then Ok () else Err (TaskIdMismatch expected actual))"

definition verify_owner :: "registry \<Rightarrow> submit_owner \<Rightarrow> registry_error + unit" where
  "verify_owner g owner =
     (case fmlookup (rg_requests g) (ow_client_request_id owner) of
        None \<Rightarrow> Err (TaskNotFound (ow_task_id owner))
      | Some request \<Rightarrow>
          if rq_task_id request \<noteq> ow_task_id owner \<or> rq_reservation request \<noteq> ow_signal owner
          then Err (TaskNotFound (ow_task_id owner)) else Ok ())"

definition publish_running ::
  "registry \<Rightarrow> instant \<Rightarrow> submit_owner \<Rightarrow> task_snapshot \<Rightarrow> effective_limits \<Rightarrow> nat \<Rightarrow>
   (registry_error + task_snapshot) \<times> registry" where
  "publish_running g now owner snapshot effective cancellation =
     (if is_finished snapshot then (Err RunningSnapshotRequired, g)
      else case verify_task_id (ow_task_id owner) (snapshot_task_id snapshot) of
        Inl e \<Rightarrow> (Err e, g)
      | Inr _ \<Rightarrow> locked g now (\<lambda>g.
          case verify_owner g owner of
            Inl e \<Rightarrow> (Err e, g)
          | Inr _ \<Rightarrow>
              if ow_task_id owner |\<in>| fmdom (rg_tasks g)
              then (Err (TaskAlreadyExists (ow_task_id owner)), g)
              else (Ok snapshot,
                publish_signal (ow_signal owner) (ObservedTask snapshot)
                  (g\<lparr>rg_tasks := fmupd (ow_task_id owner)
                      \<lparr>tk_snapshot = snapshot, tk_effective_limits = Some effective,
                       tk_finished_monotonic = None, tk_cancellation = Some cancellation\<rparr>
                      (rg_tasks g)\<rparr>))))"

definition finish_snapshot ::
  "registry \<Rightarrow> instant \<Rightarrow> instant \<Rightarrow> submit_owner \<Rightarrow> task_snapshot \<Rightarrow>
   (registry_error + finished_publication) \<times> registry" where
  "finish_snapshot g now finished_at owner snapshot =
     (if is_running snapshot then (Err FinishedSnapshotRequired, g)
      else case verify_task_id (ow_task_id owner) (snapshot_task_id snapshot) of
        Inl e \<Rightarrow> (Err e, g)
      | Inr _ \<Rightarrow> locked g now (\<lambda>g.
          case verify_owner g owner of
            Inl e \<Rightarrow> (Err e, g)
          | Inr _ \<Rightarrow>
              let publication = (\<lambda>cancellation.
                    \<lparr>fp_snapshot = snapshot, fp_cancellation = cancellation,
                     fp_signal = ow_signal owner\<rparr>);
                  store = (\<lambda>record.
                    g\<lparr>rg_tasks := fmupd (ow_task_id owner) record (rg_tasks g),
                      rg_expirations := rg_expirations g @ [(ow_task_id owner, finished_at)]\<rparr>)
              in case fmlookup (rg_tasks g) (ow_task_id owner) of
                   Some record \<Rightarrow>
                     if tk_finished_monotonic record \<noteq> None
                     then (Err (TaskAlreadyFinished (ow_task_id owner)), g)
                     else (Ok (publication (tk_cancellation record)),
                       store (record\<lparr>tk_snapshot := snapshot,
                         tk_finished_monotonic := Some finished_at, tk_cancellation := None\<rparr>))
                 | None \<Rightarrow>
                     (Ok (publication None),
                      store \<lparr>tk_snapshot = snapshot, tk_effective_limits = None,
                        tk_finished_monotonic = Some finished_at, tk_cancellation = None\<rparr>)))"

definition release_failed_owner ::
  "registry \<Rightarrow> instant \<Rightarrow> submit_owner \<Rightarrow>
   (registry_error + task_snapshot option) \<times> registry" where
  "release_failed_owner g now owner =
     locked g now (\<lambda>g.
       case verify_owner g owner of
         Inl e \<Rightarrow> (Err e, g)
       | Inr _ \<Rightarrow>
           (case fmlookup (rg_tasks g) (ow_task_id owner) of
              Some record \<Rightarrow> (Ok (Some (tk_snapshot record)), g)
            | None \<Rightarrow>
                (Ok None,
                 g\<lparr>rg_requests := fmdrop (ow_client_request_id owner) (rg_requests g),
                   rg_task_requests := fmdrop (ow_task_id owner) (rg_task_requests g)\<rparr>)))"

definition publish_completion :: "finished_publication \<Rightarrow> registry \<Rightarrow> task_snapshot \<times> registry" where
  "publish_completion p g =
     (let g1 = (case fp_cancellation p of
            None \<Rightarrow> g
          | Some c \<Rightarrow> g\<lparr>rg_cancellations := (rg_cancellations g)
                [c := cancellation_complete (rg_cancellations g ! c) (fp_snapshot p)]\<rparr>)
      in (fp_snapshot p, publish_signal (fp_signal p) (ObservedTask (fp_snapshot p)) g1))"

text \<open>
  The owner's operations; each consumes the owner. A failing \<open>finish\<close> reads the clock again, at
  \<open>later\<close>, when it releases the owner.
\<close>

definition internal_failure :: "registry_error \<Rightarrow> submit_failure" where
  "internal_failure e = \<lparr>sf_code = InternalError, sf_message = ErrorText e\<rparr>"

definition owner_fail ::
  "registry \<Rightarrow> instant \<Rightarrow> submit_owner \<Rightarrow> submit_failure \<Rightarrow> submit_observation \<times> registry" where
  "owner_fail g now owner failure =
     (case release_failed_owner g now owner of
        (released, g') \<Rightarrow>
          let observation = (case released of
                Inr (Some snapshot) \<Rightarrow> ObservedTask snapshot
              | _ \<Rightarrow> ObservedFailure failure)
          in (observation, publish_signal (ow_signal owner) observation g'))"

definition owner_finish ::
  "registry \<Rightarrow> instant \<Rightarrow> instant \<Rightarrow> instant \<Rightarrow> submit_owner \<Rightarrow> task_snapshot \<Rightarrow>
   (registry_error + finished_publication) \<times> registry" where
  "owner_finish g now finished_at later owner snapshot =
     (case finish_snapshot g now finished_at owner snapshot of
        (Inr publication, g') \<Rightarrow> (Ok publication, g')
      | (Inl e, g') \<Rightarrow> (Err e, snd (owner_fail g' later owner (internal_failure e))))"

definition rollback_before_running ::
  "registry \<Rightarrow> instant \<Rightarrow> submit_owner \<Rightarrow> submit_failure \<Rightarrow>
   (registry_error + submit_observation) \<times> registry" where
  "rollback_before_running g now owner failure =
     (case release_failed_owner g now owner of
        (Inr None, g') \<Rightarrow>
          (Ok (ObservedFailure failure),
           publish_signal (ow_signal owner) (ObservedFailure failure) g')
      | (Inr (Some _), g') \<Rightarrow>
          (Err StateUnavailable,
           publish_signal (ow_signal owner) (ObservedFailure (internal_failure StateUnavailable)) g')
      | (Inl e, g') \<Rightarrow>
          (Err e, publish_signal (ow_signal owner) (ObservedFailure (internal_failure e)) g'))"

text \<open>Dropping an owner that was not consumed.\<close>

definition owner_drop :: "registry \<Rightarrow> instant \<Rightarrow> submit_owner \<Rightarrow> registry" where
  "owner_drop g now owner =
     snd (owner_fail g now owner
       \<lparr>sf_code = InternalError, sf_message = OwnerEnded\<rparr>)"

text \<open>\<open>wait\<close> returns the published observation; \<open>None\<close> is still waiting.\<close>

definition waiter_poll :: "registry \<Rightarrow> submit_waiter \<Rightarrow> submit_observation option" where
  "waiter_poll g w = rg_signals g ! wt_signal w"

definition cancellation_poll :: "registry \<Rightarrow> nat \<Rightarrow> task_snapshot option" where
  "cancellation_poll g c = ca_finished (rg_cancellations g ! c)"

definition cancellation_channel :: "registry \<Rightarrow> nat \<times> registry" where
  "cancellation_channel g =
     (length (rg_cancellations g), g\<lparr>rg_cancellations := rg_cancellations g @ [cancellation_new]\<rparr>)"

section \<open>Invariant\<close>

definition index_ok :: "registry \<Rightarrow> bool" where
  "index_ok g \<longleftrightarrow>
     (\<forall>cid r. fmlookup (rg_requests g) cid = Some r \<longrightarrow>
        fmlookup (rg_task_requests g) (rq_task_id r) = Some cid \<and>
        identity_client_request_id (rq_identity r) = cid \<and>
        rq_reservation r < length (rg_signals g)) \<and>
     (\<forall>tid cid. fmlookup (rg_task_requests g) tid = Some cid \<longrightarrow>
        (\<exists>r. fmlookup (rg_requests g) cid = Some r \<and> rq_task_id r = tid))"

definition signals_ok :: "registry \<Rightarrow> bool" where
  "signals_ok g \<longleftrightarrow>
     (\<forall>cid r cid' r'. fmlookup (rg_requests g) cid = Some r \<and> fmlookup (rg_requests g) cid' = Some r' \<and>
        rq_reservation r = rq_reservation r' \<longrightarrow> cid = cid')"

definition record_ok :: "registry \<Rightarrow> string \<Rightarrow> task_record \<Rightarrow> bool" where
  "record_ok g tid t \<longleftrightarrow>
     snapshot_task_id (tk_snapshot t) = tid \<and>
     (tk_finished_monotonic t \<noteq> None \<longleftrightarrow> is_finished (tk_snapshot t)) \<and>
     (tk_cancellation t = None \<longleftrightarrow> is_finished (tk_snapshot t)) \<and>
     (\<forall>c. tk_cancellation t = Some c \<longrightarrow> c < length (rg_cancellations g))"

definition tasks_ok :: "registry \<Rightarrow> bool" where
  "tasks_ok g \<longleftrightarrow>
     (\<forall>tid t. fmlookup (rg_tasks g) tid = Some t \<longrightarrow>
        fmlookup (rg_task_requests g) tid \<noteq> None \<and> record_ok g tid t)"

definition queue_ok :: "registry \<Rightarrow> bool" where
  "queue_ok g \<longleftrightarrow>
     distinct (map fst (rg_expirations g)) \<and>
     (\<forall>tid f. (tid, f) \<in> set (rg_expirations g) \<longleftrightarrow>
        (\<exists>t. fmlookup (rg_tasks g) tid = Some t \<and> tk_finished_monotonic t = Some f))"

definition registry_invar :: "registry \<Rightarrow> bool" where
  "registry_invar g \<longleftrightarrow>
     index_ok g \<and> signals_ok g \<and> tasks_ok g \<and> queue_ok g \<and> fmlen (rg_requests g) \<le> rg_max_tasks g"

lemmas registry_invar_defs =
  registry_invar_def index_ok_def signals_ok_def tasks_ok_def record_ok_def queue_ok_def

lemma registry_new_invar: "registry_invar (registry_new n)"
  by (simp add: registry_invar_defs registry_new_def)

lemma index_requestD:
  "index_ok g \<Longrightarrow> fmlookup (rg_requests g) cid = Some r \<Longrightarrow>
   fmlookup (rg_task_requests g) (rq_task_id r) = Some cid \<and>
   identity_client_request_id (rq_identity r) = cid \<and> rq_reservation r < length (rg_signals g)"
  by (simp add: index_ok_def)

lemma index_taskD:
  "index_ok g \<Longrightarrow> fmlookup (rg_task_requests g) tid = Some cid \<Longrightarrow>
   \<exists>r. fmlookup (rg_requests g) cid = Some r \<and> rq_task_id r = tid"
  by (simp add: index_ok_def)

lemma task_requests_inj:
  "index_ok g \<Longrightarrow> fmlookup (rg_task_requests g) tid = Some cid \<Longrightarrow>
   fmlookup (rg_task_requests g) tid' = Some cid \<Longrightarrow> tid = tid'"
  using index_taskD [of g tid cid] index_taskD [of g tid' cid] by auto

lemma tasksD:
  "tasks_ok g \<Longrightarrow> fmlookup (rg_tasks g) tid = Some t \<Longrightarrow>
   (\<exists>cid. fmlookup (rg_task_requests g) tid = Some cid) \<and> record_ok g tid t"
  by (auto simp: tasks_ok_def)

lemma queue_entry:
  "queue_ok g \<Longrightarrow>
   (tid, f) \<in> set (rg_expirations g) \<longleftrightarrow>
   (\<exists>t. fmlookup (rg_tasks g) tid = Some t \<and> tk_finished_monotonic t = Some f)"
  by (simp add: queue_ok_def)

lemma invarD:
  assumes "registry_invar g"
  shows "index_ok g" "signals_ok g" "tasks_ok g" "queue_ok g" "fmlen (rg_requests g) \<le> rg_max_tasks g"
  using assms by (simp_all add: registry_invar_def)

lemma queue_head:
  assumes "registry_invar (g\<lparr>rg_expirations := (tid, f) # rest\<rparr>)"
  obtains t cid where "fmlookup (rg_tasks g) tid = Some t" "fmlookup (rg_task_requests g) tid = Some cid"
proof -
  obtain t where t: "fmlookup (rg_tasks g) tid = Some t"
    using queue_entry [OF invarD(4) [OF assms], of tid f] by auto
  obtain cid where "fmlookup (rg_task_requests g) tid = Some cid"
    using tasksD [OF invarD(3) [OF assms], of tid t] t by auto
  with t show thesis
    by (rule that)
qed

text \<open>Removing the head of the expiration queue keeps everything consistent.\<close>

lemma remove_expired_fields [simp]:
  "rg_signals (remove_expired tid g) = rg_signals g"
  "rg_cancellations (remove_expired tid g) = rg_cancellations g"
  "rg_max_tasks (remove_expired tid g) = rg_max_tasks g"
  "rg_poisoned (remove_expired tid g) = rg_poisoned g"
  "rg_expirations (remove_expired tid g) = rg_expirations g"
  "rg_tasks (remove_expired tid g) = fmdrop tid (rg_tasks g)"
  by (auto simp: remove_expired_def Let_def fmdrop_idle fmdom_notI split: option.splits)

lemma remove_expired_indexes:
  assumes "fmlookup (rg_tasks g) tid = Some t" "fmlookup (rg_task_requests g) tid = Some cid"
  shows "rg_requests (remove_expired tid g) = fmdrop cid (rg_requests g)"
    and "rg_task_requests (remove_expired tid g) = fmdrop tid (rg_task_requests g)"
  using assms by (simp_all add: remove_expired_def Let_def)

text \<open>What each part of the invariant depends on.\<close>

lemma index_okI:
  assumes "\<And>cid r. fmlookup (rg_requests g) cid = Some r \<Longrightarrow>
      fmlookup (rg_task_requests g) (rq_task_id r) = Some cid \<and>
      identity_client_request_id (rq_identity r) = cid \<and> rq_reservation r < length (rg_signals g)"
    and "\<And>tid cid. fmlookup (rg_task_requests g) tid = Some cid \<Longrightarrow>
      \<exists>r. fmlookup (rg_requests g) cid = Some r \<and> rq_task_id r = tid"
  shows "index_ok g"
  unfolding index_ok_def using assms by (intro conjI allI impI) simp_all

lemma index_ok_frame:
  assumes "index_ok g" and eq: "rg_requests h = rg_requests g" "rg_task_requests h = rg_task_requests g"
    and len: "length (rg_signals g) \<le> length (rg_signals h)"
  shows "index_ok h"
proof (rule index_okI, goal_cases)
  case (1 cid r)
  then show ?case
    using index_requestD [OF assms(1), of cid r] len by (simp add: eq)
next
  case (2 tid cid)
  then show ?case
    using index_taskD [OF assms(1), of tid cid] by (simp add: eq)
qed

lemma signalsD:
  "signals_ok g \<Longrightarrow> fmlookup (rg_requests g) cid = Some r \<Longrightarrow> fmlookup (rg_requests g) cid' = Some r' \<Longrightarrow>
   rq_reservation r = rq_reservation r' \<Longrightarrow> cid = cid'"
  unfolding signals_ok_def by (elim allE [of _ cid] allE [of _ r] allE [of _ cid'] allE [of _ r']) simp

lemma signals_okI:
  "(\<And>cid r cid' r'. fmlookup (rg_requests g) cid = Some r \<Longrightarrow> fmlookup (rg_requests g) cid' = Some r' \<Longrightarrow>
     rq_reservation r = rq_reservation r' \<Longrightarrow> cid = cid') \<Longrightarrow> signals_ok g"
  unfolding signals_ok_def by (intro allI impI) simp

lemma signals_ok_sub:
  assumes "signals_ok g"
    and "\<And>cid r. fmlookup (rg_requests h) cid = Some r \<Longrightarrow> fmlookup (rg_requests g) cid = Some r"
  shows "signals_ok h"
  by (rule signals_okI) (rule signalsD [OF assms(1) assms(2) assms(2)])

lemma tasks_ok_sub:
  assumes "tasks_ok g"
    and "\<And>tid t. fmlookup (rg_tasks h) tid = Some t \<Longrightarrow> fmlookup (rg_tasks g) tid = Some t"
    and "\<And>tid t cid. fmlookup (rg_tasks h) tid = Some t \<Longrightarrow> fmlookup (rg_task_requests g) tid = Some cid \<Longrightarrow>
      fmlookup (rg_task_requests h) tid = Some cid"
    and "length (rg_cancellations g) \<le> length (rg_cancellations h)"
  shows "tasks_ok h"
  unfolding tasks_ok_def
proof (intro allI impI)
  fix tid t
  assume h: "fmlookup (rg_tasks h) tid = Some t"
  obtain cid where "fmlookup (rg_task_requests g) tid = Some cid" "record_ok g tid t"
    using tasksD [OF assms(1) assms(2) [OF h]] by blast
  with assms(3) [OF h] assms(4)
  show "fmlookup (rg_task_requests h) tid \<noteq> None \<and> record_ok h tid t"
    by (auto simp: record_ok_def)
qed

lemma queue_ok_frame:
  "queue_ok g \<Longrightarrow> rg_tasks h = rg_tasks g \<Longrightarrow> rg_expirations h = rg_expirations g \<Longrightarrow> queue_ok h"
  by (simp add: queue_ok_def)

lemma index_ok_drop:
  assumes "index_ok g" "fmlookup (rg_task_requests g) tid = Some cid"
  shows "index_ok (g\<lparr>rg_requests := fmdrop cid (rg_requests g),
                     rg_task_requests := fmdrop tid (rg_task_requests g)\<rparr>)"
proof -
  have "tid' = tid \<longleftrightarrow> cid' = cid" if "fmlookup (rg_task_requests g) tid' = Some cid'" for tid' cid'
    using that assms task_requests_inj [OF assms(1)] by auto
  note own = this
  show ?thesis
    unfolding index_ok_def
  proof (intro conjI allI impI)
    fix cid' r
    assume "fmlookup (rg_requests (g\<lparr>rg_requests := fmdrop cid (rg_requests g),
      rg_task_requests := fmdrop tid (rg_task_requests g)\<rparr>)) cid' = Some r"
    then have "cid' \<noteq> cid" "fmlookup (rg_requests g) cid' = Some r"
      by (simp_all split: if_splits)
    with index_requestD [OF assms(1)] own
    show "fmlookup (rg_task_requests (g\<lparr>rg_requests := fmdrop cid (rg_requests g),
        rg_task_requests := fmdrop tid (rg_task_requests g)\<rparr>)) (rq_task_id r) = Some cid'"
      and "identity_client_request_id (rq_identity r) = cid'"
      and "rq_reservation r < length (rg_signals (g\<lparr>rg_requests := fmdrop cid (rg_requests g),
        rg_task_requests := fmdrop tid (rg_task_requests g)\<rparr>))"
      by auto
  next
    fix tid' cid'
    assume "fmlookup (rg_task_requests (g\<lparr>rg_requests := fmdrop cid (rg_requests g),
      rg_task_requests := fmdrop tid (rg_task_requests g)\<rparr>)) tid' = Some cid'"
    then have "tid' \<noteq> tid" "fmlookup (rg_task_requests g) tid' = Some cid'"
      by (simp_all split: if_splits)
    with index_taskD [OF assms(1)] own
    show "\<exists>r. fmlookup (rg_requests (g\<lparr>rg_requests := fmdrop cid (rg_requests g),
      rg_task_requests := fmdrop tid (rg_task_requests g)\<rparr>)) cid' = Some r \<and> rq_task_id r = tid'"
      by auto
  qed
qed

lemma queue_ok_tail:
  assumes "queue_ok (g\<lparr>rg_expirations := (tid, f) # rest\<rparr>)"
  shows "queue_ok (g\<lparr>rg_tasks := fmdrop tid (rg_tasks g), rg_expirations := rest\<rparr>)"
proof -
  have d: "distinct (map fst rest)" "tid \<notin> fst ` set rest"
    and q: "(\<exists>t. fmlookup (rg_tasks g) x = Some t \<and> tk_finished_monotonic t = Some y) \<longleftrightarrow>
      (x, y) = (tid, f) \<or> (x, y) \<in> set rest" for x y
    using assms by (simp_all add: queue_ok_def)
  have "(x, y) \<in> set rest \<longleftrightarrow> x \<noteq> tid \<and>
      (\<exists>t. fmlookup (rg_tasks g) x = Some t \<and> tk_finished_monotonic t = Some y)" for x y
    unfolding q using d(2) by (auto simp: image_iff)
  with d(1) show ?thesis
    by (simp add: queue_ok_def)
qed

lemma remove_expired_invar:
  assumes inv: "registry_invar (g\<lparr>rg_expirations := (tid, f) # rest\<rparr>)"
  shows "registry_invar ((remove_expired tid g)\<lparr>rg_expirations := rest\<rparr>)" (is "registry_invar ?h")
proof -
  obtain t cid where t: "fmlookup (rg_tasks g) tid = Some t"
    and cid: "fmlookup (rg_task_requests g) tid = Some cid"
    using queue_head [OF inv] .
  note idx = remove_expired_indexes [OF t cid]
  have "index_ok g"
    by (rule index_ok_frame [OF invarD(1) [OF inv]]) simp_all
  then have "index_ok ?h"
    by (rule index_ok_frame [OF index_ok_drop [OF _ cid]]) (simp_all add: idx)
  moreover have "signals_ok ?h"
    by (rule signals_ok_sub [OF invarD(2) [OF inv]]) (simp add: idx split: if_splits)
  moreover have "tasks_ok ?h"
    by (rule tasks_ok_sub [OF invarD(3) [OF inv]]) (simp_all add: idx split: if_splits)
  moreover have "queue_ok ?h"
    by (rule queue_ok_frame [OF queue_ok_tail [OF invarD(4) [OF inv]]]) simp_all
  moreover have "fmlen (rg_requests ?h) \<le> rg_max_tasks ?h"
    using invarD(5) [OF inv] fmlen_drop_le [of cid "rg_requests g"] by (simp add: idx)
  ultimately show ?thesis
    by (simp add: registry_invar_def)
qed

lemma purge_entries_invar:
  "registry_invar (g\<lparr>rg_expirations := q\<rparr>) \<Longrightarrow> registry_invar (purge_entries now q g)"
  by (induction now q g rule: purge_entries.induct) (simp_all add: remove_expired_invar)

lemma purge_expired_invar [inv_intros]: "registry_invar g \<Longrightarrow> registry_invar (purge_expired now g)"
  unfolding purge_expired_def by (rule purge_entries_invar) simp

lemma purge_entries_fields [simp]:
  "rg_signals (purge_entries now q g) = rg_signals g"
  "rg_cancellations (purge_entries now q g) = rg_cancellations g"
  "rg_max_tasks (purge_entries now q g) = rg_max_tasks g"
  "rg_poisoned (purge_entries now q g) = rg_poisoned g"
  by (induction now q g rule: purge_entries.induct) simp_all

lemma purge_expired_fields [simp]:
  "rg_signals (purge_expired now g) = rg_signals g"
  "rg_cancellations (purge_expired now g) = rg_cancellations g"
  "rg_max_tasks (purge_expired now g) = rg_max_tasks g"
  "rg_poisoned (purge_expired now g) = rg_poisoned g"
  by (simp_all add: purge_expired_def)

text \<open>Which tasks a purge removes: the expired front of the queue.\<close>

fun expired_front :: "instant \<Rightarrow> (string \<times> instant) list \<Rightarrow> string list" where
  "expired_front now [] = []"
| "expired_front now ((task_id, finished) # rest) =
     (if expired now finished then task_id # expired_front now rest else [])"

definition doomed :: "instant \<Rightarrow> registry \<Rightarrow> string set" where
  "doomed now g = set (expired_front now (rg_expirations g))"

lemma expired_front_subset:
  "tid \<in> set (expired_front now q) \<Longrightarrow> \<exists>f. (tid, f) \<in> set q \<and> expired now f"
  by (induction now q rule: expired_front.induct) (auto split: if_splits)

lemma purge_entries_tasks:
  "fmlookup (rg_tasks (purge_entries now q g)) tid =
   (if tid \<in> set (expired_front now q) then None else fmlookup (rg_tasks g) tid)"
  by (induction now q g rule: purge_entries.induct) auto

lemma purge_expired_tasks:
  "fmlookup (rg_tasks (purge_expired now g)) tid =
   (if tid \<in> doomed now g then None else fmlookup (rg_tasks g) tid)"
  by (simp add: purge_expired_def purge_entries_tasks doomed_def)

lemma purge_entries_requests:
  "registry_invar (g\<lparr>rg_expirations := q\<rparr>) \<Longrightarrow>
   fmlookup (rg_requests (purge_entries now q g)) cid =
   (case fmlookup (rg_requests g) cid of
      Some r \<Rightarrow> if rq_task_id r \<in> set (expired_front now q) then None else Some r
    | None \<Rightarrow> None)"
proof (induction now q g rule: purge_entries.induct)
  case (1 now g)
  then show ?case
    by (simp split: option.split)
next
  case (2 now tid f rest g)
  obtain t cid' where t: "fmlookup (rg_tasks g) tid = Some t"
    and c: "fmlookup (rg_task_requests g) tid = Some cid'"
    using queue_head [OF "2.prems"] .
  have "index_ok g"
    by (rule index_ok_frame [OF invarD(1) [OF "2.prems"]]) simp_all
  then have own: "rq_task_id r = tid \<longleftrightarrow> cid = cid'" if "fmlookup (rg_requests g) cid = Some r" for r
    using c that task_requests_inj index_requestD by fastforce
  show ?case
  proof (cases "expired now f")
    case True
    note IH = "2.IH" [OF True remove_expired_invar [OF "2.prems"]]
    show ?thesis
      using own by (simp add: True IH remove_expired_indexes(1) [OF t c] split: option.split)
  next
    case False
    then show ?thesis
      by (simp split: option.split)
  qed
qed

lemma purge_expired_requests:
  "registry_invar g \<Longrightarrow>
   fmlookup (rg_requests (purge_expired now g)) cid =
   (case fmlookup (rg_requests g) cid of
      Some r \<Rightarrow> if rq_task_id r \<in> doomed now g then None else Some r
    | None \<Rightarrow> None)"
  unfolding purge_expired_def doomed_def by (rule purge_entries_requests) simp

lemma expired_iff: "expired now f \<longleftrightarrow> f \<le> now \<and> MIN_FINISHED_RETENTION < now - f"
  by (simp add: expired_def checked_duration_since_def)

lemma doomed_finished:
  assumes "registry_invar g" "tid \<in> doomed now g"
  shows "\<exists>t f. fmlookup (rg_tasks g) tid = Some t \<and> tk_finished_monotonic t = Some f \<and> expired now f"
  using assms expired_front_subset [of tid now "rg_expirations g"] queue_entry [OF invarD(4) [OF assms(1)]]
  unfolding doomed_def by blast

section \<open>What a client request goes through\<close>

text \<open>
  The registry's promise, seen from one client request: absent, reserved by an owner, running,
  finished, and absent again after the retention period.
\<close>

datatype task_phase =
    Reserved
  | Active task_snapshot "effective_limits option" "nat option"
  | Settled task_snapshot instant

datatype request_view = Absent | Present string submission_identity nat task_phase

definition phase_of :: "task_record option \<Rightarrow> task_phase" where
  "phase_of r =
     (case r of
        None \<Rightarrow> Reserved
      | Some t \<Rightarrow>
          (case tk_finished_monotonic t of
             None \<Rightarrow> Active (tk_snapshot t) (tk_effective_limits t) (tk_cancellation t)
           | Some f \<Rightarrow> Settled (tk_snapshot t) f))"

definition view_of :: "(string, task_record) fmap \<Rightarrow> request_record option \<Rightarrow> request_view" where
  "view_of tasks r =
     (case r of
        None \<Rightarrow> Absent
      | Some r \<Rightarrow> Present (rq_task_id r) (rq_identity r) (rq_reservation r)
          (phase_of (fmlookup tasks (rq_task_id r))))"

definition request_view :: "registry \<Rightarrow> string \<Rightarrow> request_view" where
  "request_view g cid = view_of (rg_tasks g) (fmlookup (rg_requests g) cid)"

inductive view_step :: "instant \<Rightarrow> request_view \<Rightarrow> request_view \<Rightarrow> bool" for c where
  reserve: "view_step c Absent (Present tid ident k Reserved)"
| release: "view_step c (Present tid ident k Reserved) Absent"
| run: "is_running s \<Longrightarrow> snapshot_task_id s = tid \<Longrightarrow>
    view_step c (Present tid ident k Reserved) (Present tid ident k (Active s (Some l) (Some x)))"
| finish_early: "is_finished s \<Longrightarrow> snapshot_task_id s = tid \<Longrightarrow> f \<le> c \<Longrightarrow>
    view_step c (Present tid ident k Reserved) (Present tid ident k (Settled s f))"
| finish: "is_finished s \<Longrightarrow> snapshot_task_id s = tid \<Longrightarrow> f \<le> c \<Longrightarrow>
    view_step c (Present tid ident k (Active s' l x)) (Present tid ident k (Settled s f))"
| expire: "f + MIN_FINISHED_RETENTION < c \<Longrightarrow>
    view_step c (Present tid ident k (Settled s f)) Absent"

definition refines :: "instant \<Rightarrow> registry \<Rightarrow> registry \<Rightarrow> bool" where
  "refines c g g' \<longleftrightarrow>
     registry_invar g' \<and> (\<forall>cid. (view_step c)\<^sup>*\<^sup>* (request_view g cid) (request_view g' cid))"

lemma refinesI:
  "registry_invar g' \<Longrightarrow> (\<And>cid. (view_step c)\<^sup>*\<^sup>* (request_view g cid) (request_view g' cid)) \<Longrightarrow>
   refines c g g'"
  by (simp add: refines_def)

lemma refines_refl: "registry_invar g \<Longrightarrow> refines c g g"
  by (simp add: refines_def)

lemma refinesD:
  assumes "refines c g g'"
  shows "registry_invar g'" "(view_step c)\<^sup>*\<^sup>* (request_view g cid) (request_view g' cid)"
  using assms by (simp_all add: refines_def)

lemma refines_trans: "refines c g h \<Longrightarrow> refines c h g' \<Longrightarrow> refines c g g'"
  by (rule refinesI) (auto dest: refinesD intro: rtranclp_trans)

lemma invar_frame:
  assumes inv: "registry_invar g"
    and eq: "rg_requests h = rg_requests g" "rg_task_requests h = rg_task_requests g"
      "rg_tasks h = rg_tasks g" "rg_expirations h = rg_expirations g" "rg_max_tasks h = rg_max_tasks g"
    and len: "length (rg_signals g) \<le> length (rg_signals h)"
      "length (rg_cancellations g) \<le> length (rg_cancellations h)"
  shows "registry_invar h"
proof -
  have "index_ok h"
    by (rule index_ok_frame [OF invarD(1) [OF inv] eq(1,2) len(1)])
  moreover have "signals_ok h"
    by (rule signals_ok_sub [OF invarD(2) [OF inv]]) (simp add: eq)
  moreover have "tasks_ok h"
    by (rule tasks_ok_sub [OF invarD(3) [OF inv]]) (simp_all add: eq len)
  moreover have "queue_ok h"
    by (rule queue_ok_frame [OF invarD(4) [OF inv] eq(3,4)])
  ultimately show ?thesis
    using invarD(5) [OF inv] by (simp add: registry_invar_def eq)
qed

lemma refines_frame:
  assumes "registry_invar g"
    and "rg_requests h = rg_requests g" "rg_task_requests h = rg_task_requests g"
      "rg_tasks h = rg_tasks g" "rg_expirations h = rg_expirations g" "rg_max_tasks h = rg_max_tasks g"
    and "length (rg_signals g) \<le> length (rg_signals h)"
      "length (rg_cancellations g) \<le> length (rg_cancellations h)"
  shows "refines c g h"
  by (rule refinesI [OF invar_frame [OF assms]]) (simp add: request_view_def assms)

lemma refines_purge:
  assumes inv: "registry_invar g" and "now \<le> c"
  shows "refines c g (purge_expired now g)"
proof (rule refinesI [OF purge_expired_invar [OF inv]])
  fix cid
  show "(view_step c)\<^sup>*\<^sup>* (request_view g cid) (request_view (purge_expired now g) cid)"
  proof (cases "fmlookup (rg_requests g) cid")
    case None
    then show ?thesis
      by (simp add: request_view_def view_of_def purge_expired_requests [OF inv])
  next
    case (Some r)
    show ?thesis
    proof (cases "rq_task_id r \<in> doomed now g")
      case True
      then obtain t f where t: "fmlookup (rg_tasks g) (rq_task_id r) = Some t"
        "tk_finished_monotonic t = Some f" "expired now f"
        using doomed_finished [OF inv True] by (elim exE conjE) (rule that)
      have "f + MIN_FINISHED_RETENTION < c"
        using t(3) assms(2) unfolding expired_iff by arith
      with True Some t show ?thesis
        by (simp add: request_view_def view_of_def purge_expired_requests [OF inv] phase_of_def
            r_into_rtranclp view_step.expire)
    next
      case False
      with Some show ?thesis
        by (simp add: request_view_def view_of_def purge_expired_requests [OF inv]
            purge_expired_tasks)
    qed
  qed
qed

lemma refines_locked:
  assumes "registry_invar g" "now \<le> c"
    and "\<And>h. registry_invar h \<Longrightarrow> rg_cancellations h = rg_cancellations g \<Longrightarrow> refines c h (snd (f h))"
  shows "refines c g (snd (locked g now f))"
  using refines_trans [OF refines_purge [OF assms(1,2)] assms(3) [OF purge_expired_invar [OF assms(1)]]]
    refines_refl [OF assms(1)]
  by (simp add: locked_def)

section \<open>Every operation keeps the promise\<close>

lemma refines_publish_signal: "registry_invar g \<Longrightarrow> refines c g (publish_signal k ob g)"
  by (rule refines_frame) (simp_all add: publish_signal_def)

lemma refines_then_signal: "refines c g h \<Longrightarrow> refines c g (publish_signal k ob h)"
  using refines_trans [OF _ refines_publish_signal [OF refinesD(1)]] by blast

lemma fresh_task:
  "registry_invar g \<Longrightarrow> fmlookup (rg_task_requests g) tid = None \<Longrightarrow> fmlookup (rg_tasks g) tid = None"
  using tasksD [OF invarD(3), of g tid] by (cases "fmlookup (rg_tasks g) tid") auto

definition with_reservation :: "registry \<Rightarrow> string \<Rightarrow> string \<Rightarrow> submission_identity \<Rightarrow> registry" where
  "with_reservation g cid tid ident =
     g\<lparr>rg_signals := rg_signals g @ [None],
       rg_task_requests := fmupd tid cid (rg_task_requests g),
       rg_requests := fmupd cid
         \<lparr>rq_task_id = tid, rq_identity = ident, rq_reservation = length (rg_signals g)\<rparr>
         (rg_requests g)\<rparr>"

lemma with_reservation_fields [simp]:
  "rg_tasks (with_reservation g cid tid ident) = rg_tasks g"
  "rg_expirations (with_reservation g cid tid ident) = rg_expirations g"
  "rg_cancellations (with_reservation g cid tid ident) = rg_cancellations g"
  "rg_max_tasks (with_reservation g cid tid ident) = rg_max_tasks g"
  "rg_signals (with_reservation g cid tid ident) = rg_signals g @ [None]"
  "rg_task_requests (with_reservation g cid tid ident) = fmupd tid cid (rg_task_requests g)"
  "rg_requests (with_reservation g cid tid ident) =
     fmupd cid \<lparr>rq_task_id = tid, rq_identity = ident, rq_reservation = length (rg_signals g)\<rparr>
       (rg_requests g)"
  by (simp_all add: with_reservation_def)

lemma with_reservation_index:
  assumes i: "index_ok g" and cid: "fmlookup (rg_requests g) cid = None"
    and tid: "fmlookup (rg_task_requests g) tid = None"
    and ident: "identity_client_request_id ident = cid"
  shows "index_ok (with_reservation g cid tid ident)"
proof (rule index_okI, goal_cases)
  case (1 cid' r)
  show ?case
  proof (cases "cid' = cid")
    case True
    with 1 ident show ?thesis
      by auto
  next
    case False
    with 1 have "fmlookup (rg_requests g) cid' = Some r"
      by simp
    from index_requestD [OF i this] tid False show ?thesis
      by auto
  qed
next
  case (2 tid' cid')
  show ?case
  proof (cases "tid' = tid")
    case True
    with 2 show ?thesis
      by simp
  next
    case False
    with 2 have "fmlookup (rg_task_requests g) tid' = Some cid'"
      by simp
    from index_taskD [OF i this] cid show ?thesis
      by auto
  qed
qed

lemma with_reservation_signals:
  assumes i: "index_ok g" and s: "signals_ok g"
  shows "signals_ok (with_reservation g cid tid ident)"
proof (rule signals_okI, goal_cases)
  case (1 cid' r cid'' r')
  have "rq_reservation x < length (rg_signals g)" if "fmlookup (rg_requests g) y = Some x" for x y
    using index_requestD [OF i that] by simp
  note fresh = this
  show ?case
    using 1 fresh [of cid' r] fresh [of cid'' r'] signalsD [OF s, of cid' r cid'' r']
    by (auto split: if_splits)
qed

lemma refines_reservation:
  assumes inv: "registry_invar g" and cid: "fmlookup (rg_requests g) cid = None"
    and tid: "fmlookup (rg_task_requests g) tid = None" and room: "fmlen (rg_requests g) < rg_max_tasks g"
    and ident: "identity_client_request_id ident = cid"
  shows "refines c g (with_reservation g cid tid ident)" (is "refines c g ?h")
proof (rule refinesI)
  have "tasks_ok ?h"
    by (rule tasks_ok_sub [OF invarD(3) [OF inv]])
      (use fresh_task [OF inv tid] in \<open>auto split: if_splits\<close>)
  moreover have "queue_ok ?h"
    by (rule queue_ok_frame [OF invarD(4) [OF inv]]) simp_all
  ultimately show "registry_invar ?h"
    using room with_reservation_index [OF invarD(1) [OF inv] cid tid ident]
      with_reservation_signals [OF invarD(1,2) [OF inv]]
    by (simp add: registry_invar_def fmlen_upd cid)
  fix cid'
  show "(view_step c)\<^sup>*\<^sup>* (request_view g cid') (request_view ?h cid')"
    using fresh_task [OF inv tid] cid
    by (cases "cid' = cid") (simp_all add: request_view_def view_of_def phase_of_def r_into_rtranclp view_step.reserve)
qed

lemma refines_reserve:
  assumes inv: "registry_invar g" and "now \<le> c"
  shows "refines c g (snd (reserve_submit_with g now request tid))"
  unfolding reserve_submit_with_def Let_def
proof (rule refines_locked [OF assms], goal_cases)
  case (1 h)
  show ?case
  proof (cases "fmlookup (rg_requests h) (submit_client_request_id request)")
    case (Some r)
    then show ?thesis
      by (simp add: refines_refl [OF 1(1)])
  next
    case None
    have "refines c h (with_reservation h (submit_client_request_id request) tid (vs_identity request))"
      if "fmlen (rg_requests h) < rg_max_tasks h" "tid |\<notin>| fmdom (rg_task_requests h)"
      by (rule refines_reservation [OF 1(1) None _ that(1)])
        (use that(2) in \<open>simp_all add: fmdom_notD submit_client_request_id_def\<close>)
    with None show ?thesis
      by (simp add: refines_refl [OF 1(1)] with_reservation_def)
  qed
qed

lemma verify_owner_ok:
  assumes "verify_owner g owner = Inr u"
  obtains r where "fmlookup (rg_requests g) (ow_client_request_id owner) = Some r"
    "rq_task_id r = ow_task_id owner" "rq_reservation r = ow_signal owner"
  using assms by (simp add: verify_owner_def split: option.splits if_splits)

definition with_task :: "registry \<Rightarrow> string \<Rightarrow> task_record \<Rightarrow> (string \<times> instant) list \<Rightarrow> registry" where
  "with_task g tid t q = g\<lparr>rg_tasks := fmupd tid t (rg_tasks g), rg_expirations := q\<rparr>"

lemma with_task_fields [simp]:
  "rg_tasks (with_task g tid t q) = fmupd tid t (rg_tasks g)"
  "rg_expirations (with_task g tid t q) = q"
  "rg_cancellations (with_task g tid t q) = rg_cancellations g"
  "rg_max_tasks (with_task g tid t q) = rg_max_tasks g"
  "rg_signals (with_task g tid t q) = rg_signals g"
  "rg_task_requests (with_task g tid t q) = rg_task_requests g"
  "rg_requests (with_task g tid t q) = rg_requests g"
  by (simp_all add: with_task_def)

lemma with_task_same:
  "g\<lparr>rg_tasks := fmupd tid t (rg_tasks g)\<rparr> = with_task g tid t (rg_expirations g)"
  by (simp add: with_task_def)

lemma with_task_tasks:
  assumes "tasks_ok g" "fmlookup (rg_task_requests g) tid = Some cid" "record_ok g tid t"
  shows "tasks_ok (with_task g tid t q)"
  unfolding tasks_ok_def
proof (intro allI impI)
  fix tid' t'
  assume "fmlookup (rg_tasks (with_task g tid t q)) tid' = Some t'"
  then have "fmlookup (rg_task_requests g) tid' \<noteq> None \<and> record_ok g tid' t'"
    using assms tasksD [OF assms(1), of tid' t'] by (auto split: if_splits)
  then show "fmlookup (rg_task_requests (with_task g tid t q)) tid' \<noteq> None \<and>
      record_ok (with_task g tid t q) tid' t'"
    by (simp add: record_ok_def)
qed

definition unfinished :: "registry \<Rightarrow> string \<Rightarrow> bool" where
  "unfinished g tid \<longleftrightarrow>
     (case fmlookup (rg_tasks g) tid of None \<Rightarrow> True | Some t \<Rightarrow> tk_finished_monotonic t = None)"

definition queue_with :: "registry \<Rightarrow> string \<Rightarrow> task_record \<Rightarrow> (string \<times> instant) list" where
  "queue_with g tid t =
     (case tk_finished_monotonic t of
        None \<Rightarrow> rg_expirations g
      | Some f \<Rightarrow> rg_expirations g @ [(tid, f)])"

lemma with_task_queue:
  assumes q: "queue_ok g" and u: "unfinished g tid"
  shows "queue_ok (with_task g tid t (queue_with g tid t))"
proof -
  have no: "(tid, f) \<notin> set (rg_expirations g)" for f
    using u queue_entry [OF q, of tid f] by (auto simp: unfinished_def split: option.splits)
  have "distinct (map fst (rg_expirations g))"
    using q by (simp add: queue_ok_def)
  then have "distinct (map fst (queue_with g tid t))"
    using no by (auto simp: queue_with_def split: option.splits)
  moreover have "(tid', f) \<in> set (queue_with g tid t) \<longleftrightarrow>
      (\<exists>t'. fmlookup (fmupd tid t (rg_tasks g)) tid' = Some t' \<and> tk_finished_monotonic t' = Some f)" for tid' f
    using no [of f] queue_entry [OF q, of tid' f] by (auto simp: queue_with_def split: option.splits)
  ultimately show ?thesis
    unfolding queue_ok_def by simp
qed

lemma refines_task:
  assumes inv: "registry_invar g" and r: "fmlookup (rg_requests g) cid = Some r" "rq_task_id r = tid"
    and t: "record_ok g tid t" "unfinished g tid"
    and step: "view_step c (Present tid (rq_identity r) (rq_reservation r) (phase_of (fmlookup (rg_tasks g) tid)))
      (Present tid (rq_identity r) (rq_reservation r) (phase_of (Some t)))"
  shows "refines c g (with_task g tid t (queue_with g tid t))" (is "refines c g ?h")
proof (rule refinesI)
  note i = invarD(1) [OF inv]
  have tr: "fmlookup (rg_task_requests g) tid = Some cid"
    using index_requestD [OF i r(1)] r(2) by simp
  have "index_ok ?h"
    by (rule index_ok_frame [OF i]) simp_all
  moreover have "signals_ok ?h"
    by (rule signals_ok_sub [OF invarD(2) [OF inv]]) simp
  ultimately show "registry_invar ?h"
    using with_task_tasks [OF invarD(3) [OF inv] tr t(1)] with_task_queue [OF invarD(4) [OF inv] t(2)]
      invarD(5) [OF inv] by (simp add: registry_invar_def)
  fix cid'
  have other: "rq_task_id r' \<noteq> tid" if "cid' \<noteq> cid" "fmlookup (rg_requests g) cid' = Some r'" for r'
    using index_requestD [OF i that(2)] tr that(1) by auto
  show "(view_step c)\<^sup>*\<^sup>* (request_view g cid') (request_view ?h cid')"
    using step r other
    by (cases "cid' = cid") (auto simp: request_view_def view_of_def split: option.split)
qed

lemma verify_task_id_ok: "verify_task_id a b = Inr u \<longleftrightarrow> a = b"
  by (simp add: verify_task_id_def)

lemma refines_run:
  assumes inv: "registry_invar g" and v: "verify_owner g owner = Inr u" and s: "is_running snapshot"
    "snapshot_task_id snapshot = ow_task_id owner" and c: "x < length (rg_cancellations g)"
    and fresh: "fmlookup (rg_tasks g) (ow_task_id owner) = None"
  shows "refines c g (with_task g (ow_task_id owner)
    \<lparr>tk_snapshot = snapshot, tk_effective_limits = Some l, tk_finished_monotonic = None,
     tk_cancellation = Some x\<rparr> (rg_expirations g))" (is "refines c g (with_task g ?tid ?t _)")
proof -
  obtain r where r: "fmlookup (rg_requests g) (ow_client_request_id owner) = Some r" "rq_task_id r = ?tid"
    using verify_owner_ok [OF v] .
  have "refines c g (with_task g ?tid ?t (queue_with g ?tid ?t))"
    by (rule refines_task [OF inv r])
      (use s c fresh in \<open>simp_all add: record_ok_def is_running_iff unfinished_def phase_of_def view_step.run\<close>)
  then show ?thesis
    by (simp add: queue_with_def)
qed

lemma refines_publish_running:
  assumes inv: "registry_invar g" "now \<le> c" and x: "x < length (rg_cancellations g)"
  shows "refines c g (snd (publish_running g now owner snapshot l x))"
proof (cases "is_finished snapshot \<or> ow_task_id owner \<noteq> snapshot_task_id snapshot")
  case True
  then show ?thesis
    by (auto simp: publish_running_def verify_task_id_def refines_refl [OF inv(1)])
next
  case False
  then have ok: "is_finished snapshot = False"
    "verify_task_id (ow_task_id owner) (snapshot_task_id snapshot) = Ok ()"
    by (simp_all add: verify_task_id_def)
  show ?thesis
    unfolding publish_running_def ok if_False sum.case
  proof (rule refines_locked [OF inv], goal_cases)
    case (1 h)
    show ?case
    proof (cases "verify_owner h owner")
      case (Inl e)
      then show ?thesis
        by (simp add: refines_refl [OF 1(1)])
    next
      case (Inr u)
      show ?thesis
        using False x 1(2) refines_then_signal [OF refines_run [OF 1(1) Inr, of snapshot x c l]]
        by (simp add: Inr refines_refl [OF 1(1)] fmdom_notD is_running_iff with_task_same)
    qed
  qed
qed

lemma refines_finish_record:
  assumes inv: "registry_invar g" and v: "verify_owner g owner = Inr u" and s: "is_finished snapshot"
    "snapshot_task_id snapshot = ow_task_id owner" and f: "f \<le> c"
    and t: "tk_snapshot t = snapshot" "tk_finished_monotonic t = Some f" "tk_cancellation t = None"
    and un: "unfinished g (ow_task_id owner)"
  shows "refines c g (with_task g (ow_task_id owner) t (rg_expirations g @ [(ow_task_id owner, f)]))"
    (is "refines c g (with_task g ?tid t _)")
proof -
  obtain r where r: "fmlookup (rg_requests g) (ow_client_request_id owner) = Some r" "rq_task_id r = ?tid"
    using verify_owner_ok [OF v] .
  have "view_step c (Present ?tid (rq_identity r) (rq_reservation r) (phase_of (fmlookup (rg_tasks g) ?tid)))
      (Present ?tid (rq_identity r) (rq_reservation r) (phase_of (Some t)))"
    using un s f t
    by (cases "fmlookup (rg_tasks g) ?tid")
      (simp_all add: phase_of_def unfinished_def view_step.finish view_step.finish_early)
  from refines_task [OF inv r _ un this] s t show ?thesis
    by (simp add: queue_with_def record_ok_def)
qed

lemma refines_finish:
  assumes inv: "registry_invar g" "now \<le> c" and f: "f \<le> c"
  shows "refines c g (snd (finish_snapshot g now f owner snapshot))"
proof (cases "is_running snapshot \<or> ow_task_id owner \<noteq> snapshot_task_id snapshot")
  case True
  then show ?thesis
    by (auto simp: finish_snapshot_def verify_task_id_def refines_refl [OF inv(1)])
next
  case False
  then have ok: "is_running snapshot = False"
    "verify_task_id (ow_task_id owner) (snapshot_task_id snapshot) = Ok ()"
    by (simp_all add: verify_task_id_def)
  show ?thesis
    unfolding finish_snapshot_def ok if_False sum.case
  proof (rule refines_locked [OF inv], goal_cases)
    case (1 h)
    show ?case
    proof (cases "verify_owner h owner")
      case (Inl e)
      then show ?thesis
        by (simp add: refines_refl [OF 1(1)])
    next
      case (Inr u)
      have s: "is_finished snapshot" "snapshot_task_id snapshot = ow_task_id owner"
        using False by (simp_all add: is_running_iff)
      note stored = refines_finish_record [OF 1(1) Inr s f]
      show ?thesis
        by (cases "fmlookup (rg_tasks h) (ow_task_id owner)")
          (simp_all add: Inr Let_def refines_refl [OF 1(1)] stored unfinished_def
            flip: with_task_def)
    qed
  qed
qed

lemma refines_drop:
  assumes inv: "registry_invar g" and tr: "fmlookup (rg_task_requests g) tid = Some cid"
    and un: "fmlookup (rg_tasks g) tid = None"
    and r: "fmlookup (rg_requests g) cid = Some r" "rq_task_id r = tid"
  shows "refines c g (g\<lparr>rg_requests := fmdrop cid (rg_requests g),
    rg_task_requests := fmdrop tid (rg_task_requests g)\<rparr>)" (is "refines c g ?h")
proof (rule refinesI)
  have "signals_ok ?h"
    by (rule signals_ok_sub [OF invarD(2) [OF inv]]) (simp split: if_splits)
  moreover have "tasks_ok ?h"
    by (rule tasks_ok_sub [OF invarD(3) [OF inv]]) (use un in \<open>auto split: if_splits\<close>)
  moreover have "queue_ok ?h"
    by (rule queue_ok_frame [OF invarD(4) [OF inv]]) simp_all
  ultimately show "registry_invar ?h"
    using index_ok_drop [OF invarD(1) [OF inv] tr] invarD(5) [OF inv] fmlen_drop_le [of cid "rg_requests g"]
    by (simp add: registry_invar_def)
  fix cid'
  show "(view_step c)\<^sup>*\<^sup>* (request_view g cid') (request_view ?h cid')"
    using un r by (cases "cid' = cid")
      (simp_all add: request_view_def view_of_def phase_of_def r_into_rtranclp view_step.release)
qed

lemma refines_release:
  assumes inv: "registry_invar g" "now \<le> c"
  shows "refines c g (snd (release_failed_owner g now owner))"
  unfolding release_failed_owner_def
proof (rule refines_locked [OF inv], goal_cases)
  case (1 h)
  show ?case
  proof (cases "verify_owner h owner")
    case (Inl e)
    then show ?thesis
      by (simp add: refines_refl [OF 1(1)])
  next
    case (Inr u)
    obtain r where r: "fmlookup (rg_requests h) (ow_client_request_id owner) = Some r"
      "rq_task_id r = ow_task_id owner"
      using verify_owner_ok [OF Inr] .
    have "fmlookup (rg_task_requests h) (ow_task_id owner) = Some (ow_client_request_id owner)"
      using index_requestD [OF invarD(1) [OF 1(1)] r(1)] r(2) by simp
    note drop = refines_drop [OF 1(1) this _ r(1)]
    show ?thesis
      using r(2) by (cases "fmlookup (rg_tasks h) (ow_task_id owner)")
        (simp_all add: Inr refines_refl [OF 1(1)] drop)
  qed
qed

lemma refines_owner_fail:
  assumes "registry_invar g" "now \<le> c"
  shows "refines c g (snd (owner_fail g now owner failure))"
  using refines_then_signal [OF refines_release [OF assms]]
  by (simp add: owner_fail_def Let_def split_beta)

lemma refines_owner_finish:
  assumes inv: "registry_invar g" and le: "now \<le> c" "f \<le> c" "later \<le> c"
  shows "refines c g (snd (owner_finish g now f later owner snapshot))"
proof -
  let ?r = "finish_snapshot g now f owner snapshot"
  note fin = refines_finish [OF inv le(1,2), of owner snapshot]
  show ?thesis
  proof (cases "fst ?r")
    case (Inl e)
    have "refines c (snd ?r) (snd (owner_fail (snd ?r) later owner (internal_failure e)))"
      by (rule refines_owner_fail [OF refinesD(1) [OF fin] le(3)])
    from refines_trans [OF fin this] Inl show ?thesis
      by (simp add: owner_finish_def split_beta)
  next
    case (Inr p)
    with fin show ?thesis
      by (simp add: owner_finish_def split_beta)
  qed
qed

lemma refines_rollback:
  assumes "registry_invar g" "now \<le> c"
  shows "refines c g (snd (rollback_before_running g now owner failure))"
  using refines_then_signal [OF refines_release [OF assms]]
  by (simp add: rollback_before_running_def split_beta split: sum.split option.split)

lemma refines_owner_drop:
  "registry_invar g \<Longrightarrow> now \<le> c \<Longrightarrow> refines c g (owner_drop g now owner)"
  unfolding owner_drop_def by (rule refines_owner_fail)

lemma refines_publish_completion:
  "registry_invar g \<Longrightarrow> refines c g (snd (publish_completion p g))"
  by (rule refines_frame)
    (simp_all add: publish_completion_def Let_def publish_signal_def split: option.split)

lemma refines_request_cancel:
  "registry_invar g \<Longrightarrow> now \<le> c \<Longrightarrow> refines c g (snd (request_cancel g now tid))"
  unfolding request_cancel_def
proof (rule refines_locked, assumption, assumption, goal_cases)
  case (1 h)
  then show ?case
    by (auto simp: refines_refl intro!: refines_frame split: option.split)
qed

lemma refines_queries:
  assumes "registry_invar g" "now \<le> c"
  shows "refines c g (snd (existing_submit g now request))"
    and "refines c g (snd (registry_snapshot g now tid))"
    and "refines c g (snd (snapshot_by_client_request_id g now cid))"
    and "refines c g (snd (has_client_request_id g now cid))"
    and "refines c g (snd (effective_limits_for g now tid ob))"
  unfolding existing_submit_def registry_snapshot_def snapshot_by_client_request_id_def
    has_client_request_id_def effective_limits_for_def
  using assms refines_refl
  by (auto intro!: refines_locked split: option.split)

text \<open>
  One step of the registry's life: an operation at a clock reading, the runner's use of its control,
  or a poisoning panic. The clock never goes back; a \<open>CancellationRequester\<close> refers to an
  existing state.
\<close>

inductive registry_step :: "instant \<Rightarrow> registry \<Rightarrow> instant \<Rightarrow> registry \<Rightarrow> bool" where
  "c \<le> now \<Longrightarrow> registry_step c g now (snd (reserve_submit_with g now request tid))"
| "c \<le> now \<Longrightarrow> registry_step c g now (snd (existing_submit g now request))"
| "c \<le> now \<Longrightarrow> registry_step c g now (snd (registry_snapshot g now tid))"
| "c \<le> now \<Longrightarrow> registry_step c g now (snd (snapshot_by_client_request_id g now cid))"
| "c \<le> now \<Longrightarrow> registry_step c g now (snd (has_client_request_id g now cid))"
| "c \<le> now \<Longrightarrow> registry_step c g now (snd (effective_limits_for g now tid ob))"
| "c \<le> now \<Longrightarrow> registry_step c g now (snd (request_cancel g now tid))"
| "c \<le> now \<Longrightarrow> x < length (rg_cancellations g) \<Longrightarrow>
    registry_step c g now (snd (publish_running g now owner snapshot l x))"
| "c \<le> now \<Longrightarrow> now \<le> f \<Longrightarrow> f \<le> later \<Longrightarrow>
    registry_step c g later (snd (owner_finish g now f later owner snapshot))"
| "c \<le> now \<Longrightarrow> registry_step c g now (snd (owner_fail g now owner failure))"
| "c \<le> now \<Longrightarrow> registry_step c g now (snd (rollback_before_running g now owner failure))"
| "c \<le> now \<Longrightarrow> registry_step c g now (owner_drop g now owner)"
| "registry_step c g c (snd (publish_completion p g))"
| "registry_step c g c (snd (cancellation_channel g))"
| "registry_step c g c (g\<lparr>rg_cancellations := (rg_cancellations g)
     [x := snd (cancellation_observe_timeout (rg_cancellations g ! x))]\<rparr>)"
| "registry_step c g c (g\<lparr>rg_cancellations := (rg_cancellations g)
     [x := snd (cancellation_close (rg_cancellations g ! x))]\<rparr>)"
| "registry_step c g c (g\<lparr>rg_poisoned := True\<rparr>)"

lemma step_refines:
  assumes "registry_step c g c' g'" "registry_invar g"
  shows "refines c' g g'"
  using assms
proof (induction rule: registry_step.induct)
  case (9 c now f later g owner snapshot)
  then show ?case
    by (intro refines_owner_finish) simp_all
qed (simp_all add: refines_reserve refines_queries refines_request_cancel refines_publish_running
      refines_owner_fail refines_rollback refines_owner_drop refines_publish_completion
      refines_frame cancellation_channel_def)

inductive registry_run :: "nat \<Rightarrow> instant \<Rightarrow> registry \<Rightarrow> bool" for n where
  start: "registry_run n c (registry_new n)"
| step: "registry_run n c g \<Longrightarrow> registry_step c g c' g' \<Longrightarrow> registry_run n c' g'"

lemma run_invar: "registry_run n c g \<Longrightarrow> registry_invar g"
  by (induction rule: registry_run.induct) (auto intro: registry_new_invar dest: step_refines refinesD(1))

section \<open>The expiration queue in time\<close>

lemma purge_entries_queue: "rg_expirations (purge_entries now q g) = dropWhile (\<lambda>e. expired now (snd e)) q"
  by (induction now q g rule: purge_entries.induct) simp_all

lemma purge_expired_queue:
  "rg_expirations (purge_expired now g) = dropWhile (\<lambda>e. expired now (snd e)) (rg_expirations g)"
  by (simp add: purge_expired_def purge_entries_queue)

definition same_queue :: "instant \<Rightarrow> registry \<Rightarrow> registry \<Rightarrow> bool" where
  "same_queue now g g' \<longleftrightarrow> rg_max_tasks g' = rg_max_tasks g \<and>
     (rg_expirations g' = rg_expirations g \<or> rg_expirations g' = rg_expirations (purge_expired now g))"

lemma same_queue_refl [simp]: "same_queue now g g"
  by (simp add: same_queue_def)

lemma same_queue_locked:
  "(\<And>h. rg_max_tasks (snd (f h)) = rg_max_tasks h \<and> rg_expirations (snd (f h)) = rg_expirations h) \<Longrightarrow>
   same_queue now g (snd (locked g now f))"
  by (simp add: same_queue_def locked_def)

lemma same_queue_signal: "same_queue now g h \<Longrightarrow> same_queue now g (publish_signal k ob h)"
  by (simp add: same_queue_def publish_signal_def)

lemma same_queue_operations:
  "same_queue now g (snd (reserve_submit_with g now request tid))"
  "same_queue now g (snd (existing_submit g now request))"
  "same_queue now g (snd (registry_snapshot g now tid))"
  "same_queue now g (snd (snapshot_by_client_request_id g now cid))"
  "same_queue now g (snd (has_client_request_id g now cid))"
  "same_queue now g (snd (effective_limits_for g now tid ob))"
  "same_queue now g (snd (request_cancel g now tid))"
  "same_queue now g (snd (release_failed_owner g now owner))"
  unfolding reserve_submit_with_def existing_submit_def registry_snapshot_def
    snapshot_by_client_request_id_def has_client_request_id_def effective_limits_for_def
    request_cancel_def release_failed_owner_def Let_def
  by (auto intro!: same_queue_locked split: option.split sum.split)

lemma same_queue_running: "same_queue now g (snd (publish_running g now owner snapshot l x))"
  unfolding publish_running_def
  by (auto intro!: same_queue_locked simp: publish_signal_def split: sum.split)

lemma same_queue_fail: "same_queue now g (snd (owner_fail g now owner failure))"
  using same_queue_signal [OF same_queue_operations(8)]
  by (simp add: owner_fail_def Let_def split_beta)

lemma same_queue_rollback: "same_queue now g (snd (rollback_before_running g now owner failure))"
  using same_queue_signal [OF same_queue_operations(8)]
  by (simp add: rollback_before_running_def split_beta split: sum.split option.split)

lemma same_queue_frame:
  "rg_max_tasks h = rg_max_tasks g \<Longrightarrow> rg_expirations h = rg_expirations g \<Longrightarrow> same_queue now g h"
  by (simp add: same_queue_def)

lemma same_queue_completion: "same_queue now g (snd (publish_completion p g))"
  by (rule same_queue_frame)
    (simp_all add: publish_completion_def Let_def publish_signal_def split: option.split)

lemma finish_queue:
  "rg_max_tasks (snd (finish_snapshot g now f owner snapshot)) = rg_max_tasks g \<and>
   (same_queue now g (snd (finish_snapshot g now f owner snapshot)) \<or>
    rg_expirations (snd (finish_snapshot g now f owner snapshot)) =
      rg_expirations (purge_expired now g) @ [(ow_task_id owner, f)])"
  by (auto simp: finish_snapshot_def locked_def Let_def same_queue_def split: sum.split option.split)

definition timed :: "instant \<Rightarrow> registry \<Rightarrow> bool" where
  "timed c g \<longleftrightarrow>
     sorted (map snd (rg_expirations g)) \<and> (\<forall>f \<in> snd ` set (rg_expirations g). f \<le> c)"

lemma timed_purge:
  assumes "timed c g"
  shows "timed c (purge_expired now g)"
proof -
  have "map snd (rg_expirations (purge_expired now g)) = dropWhile (expired now) (map snd (rg_expirations g))"
    by (simp add: purge_expired_queue dropWhile_map comp_def)
  with assms show ?thesis
    by (auto simp: timed_def sorted_dropWhile purge_expired_queue dest: set_dropWhileD)
qed

lemma timed_mono: "timed c g \<Longrightarrow> c \<le> c' \<Longrightarrow> timed c' g"
  by (auto simp: timed_def)

lemma same_queue_timed: "same_queue now g g' \<Longrightarrow> timed c g \<Longrightarrow> timed c g'"
  using timed_purge [of c g now] by (auto simp: same_queue_def timed_def)

lemma timed_finish:
  assumes "timed c g" "c \<le> f"
  shows "timed f (snd (finish_snapshot g now f owner snapshot))"
  using finish_queue [of g now f owner snapshot]
proof (elim conjE disjE)
  assume "same_queue now g (snd (finish_snapshot g now f owner snapshot))"
  from same_queue_timed [OF this assms(1)] assms(2) show ?thesis
    by (rule timed_mono)
next
  assume "rg_expirations (snd (finish_snapshot g now f owner snapshot)) =
    rg_expirations (purge_expired now g) @ [(ow_task_id owner, f)]"
  with timed_purge [OF assms(1), of now] assms(2) show ?thesis
    by (fastforce simp: timed_def sorted_append)
qed

lemma owner_finish_max:
  "rg_max_tasks (snd (owner_finish g now f later owner snapshot)) = rg_max_tasks g"
  using finish_queue [of g now f owner snapshot]
    same_queue_fail [of later "snd (finish_snapshot g now f owner snapshot)" owner]
  by (simp add: owner_finish_def split_beta same_queue_def split: sum.split)

lemma timed_owner_finish:
  assumes "timed c g" "c \<le> f" "f \<le> later"
  shows "timed later (snd (owner_finish g now f later owner snapshot))"
proof -
  let ?r = "finish_snapshot g now f owner snapshot"
  have "timed later (snd ?r)"
    by (rule timed_mono [OF timed_finish [OF assms(1,2)] assms(3)])
  from same_queue_timed [OF same_queue_fail this] this show ?thesis
    by (simp add: owner_finish_def split_beta split: sum.split)
qed

lemma step_timed:
  assumes "registry_step c g c' g'"
  shows "c \<le> c' \<and> rg_max_tasks g' = rg_max_tasks g \<and> (timed c g \<longrightarrow> timed c' g')"
proof -
  have same: "c \<le> now \<and> rg_max_tasks h = rg_max_tasks g \<and> (timed c g \<longrightarrow> timed now h)"
    if "c \<le> now" "same_queue now g h" for c now g h
    using that same_queue_timed [OF that(2), of c] timed_mono [of c h now] by (simp add: same_queue_def)
  show ?thesis
    using assms
  proof (induction rule: registry_step.induct)
    case (9 c now f later g owner snapshot)
    then show ?case
      by (simp add: owner_finish_max timed_owner_finish)
  qed (rule same; simp add: same_queue_operations same_queue_running same_queue_fail same_queue_rollback
      same_queue_completion same_queue_frame owner_drop_def cancellation_channel_def)+
qed

lemma run_timed: "registry_run n c g \<Longrightarrow> timed c g \<and> rg_max_tasks g = n"
proof (induction rule: registry_run.induct)
  case (start c)
  show ?case
    by (simp add: registry_new_def timed_def)
next
  case (step c g c' g')
  then show ?case
    using step_timed [OF step.hyps(2)] by simp
qed

lemma expired_front_sorted:
  "sorted (map snd q) \<Longrightarrow> (tid, f) \<in> set q \<Longrightarrow> expired now f \<Longrightarrow> tid \<in> set (expired_front now q)"
proof (induction now q rule: expired_front.induct)
  case (2 now tid' f' rest)
  then have "f' \<le> f"
    by force
  with "2.prems"(3) have "expired now f'"
    unfolding expired_iff by arith
  with 2 show ?case
    by auto
qed simp

lemma doomed_iff:
  assumes inv: "registry_invar g" and "timed c g"
    and t: "fmlookup (rg_tasks g) tid = Some t" "tk_finished_monotonic t = Some f"
  shows "tid \<in> doomed now g \<longleftrightarrow> expired now f"
proof
  assume "expired now f"
  then show "tid \<in> doomed now g"
    using assms(2) queue_entry [OF invarD(4) [OF inv], of tid f] t
    by (simp add: doomed_def expired_front_sorted timed_def)
next
  assume "tid \<in> doomed now g"
  from doomed_finished [OF inv this] t show "expired now f"
    by auto
qed

section \<open>Consequences\<close>

lemma card_task_requests:
  assumes "index_ok g"
  shows "fmlen (rg_task_requests g) \<le> fmlen (rg_requests g)"
proof -
  let ?f = "\<lambda>tid. the (fmlookup (rg_task_requests g) tid)"
  have "inj_on ?f (fset (fmdom (rg_task_requests g)))"
    by (rule inj_onI) (auto simp: fmlookup_dom_iff dest: task_requests_inj [OF assms])
  moreover have "?f ` fset (fmdom (rg_task_requests g)) \<subseteq> fset (fmdom (rg_requests g))"
    using index_taskD [OF assms] by (fastforce simp: fmlookup_dom_iff)
  ultimately show ?thesis
    unfolding fmlen_def fcard.rep_eq by (rule card_inj_on_le) simp
qed

lemma card_tasks:
  assumes "tasks_ok g"
  shows "fmlen (rg_tasks g) \<le> fmlen (rg_task_requests g)"
  unfolding fmlen_def using tasksD [OF assms]
  by (intro fcard_mono) (fastforce simp: fmlookup_dom_iff)

lemma length_queue:
  assumes "queue_ok g"
  shows "length (rg_expirations g) \<le> fmlen (rg_tasks g)"
proof -
  have "fst ` set (rg_expirations g) \<subseteq> fset (fmdom (rg_tasks g))"
    using queue_entry [OF assms] by (fastforce simp: fmlookup_dom_iff)
  then have "card (fst ` set (rg_expirations g)) \<le> fmlen (rg_tasks g)"
    unfolding fmlen_def fcard.rep_eq by (intro card_mono) simp_all
  moreover have "distinct (map fst (rg_expirations g))"
    using assms by (simp add: queue_ok_def)
  then have "card (fst ` set (rg_expirations g)) = length (rg_expirations g)"
    using distinct_card [of "map fst (rg_expirations g)"] by simp
  ultimately show ?thesis
    by simp
qed

text \<open>A settled request only leaves by expiry.\<close>

inductive_cases view_step_settledE: "view_step c (Present tid ident k (Settled s f)) v"

lemma settled_stable:
  assumes "(view_step c)\<^sup>*\<^sup>* v v'" "v = Present tid ident k (Settled s f)" "c \<le> f + MIN_FINISHED_RETENTION"
  shows "v' = v"
  using assms by (induction rule: rtranclp_induct) (auto elim: view_step_settledE)

definition registry_steps :: "instant \<times> registry \<Rightarrow> instant \<times> registry \<Rightarrow> bool" where
  "registry_steps = (\<lambda>x y. registry_step (fst x) (snd x) (fst y) (snd y))\<^sup>*\<^sup>*"

lemma steps_settled:
  assumes "registry_steps x y" "registry_invar (snd x)" "fst y \<le> f + MIN_FINISHED_RETENTION"
    and "request_view (snd x) cid = Present tid ident k (Settled s f)"
  shows "registry_invar (snd y) \<and> request_view (snd y) cid = Present tid ident k (Settled s f)"
  using assms unfolding registry_steps_def
proof (induction rule: rtranclp_induct)
  case (step y z)
  note hop = step.hyps(2)
  have "fst y \<le> f + MIN_FINISHED_RETENTION"
    using step_timed [OF hop] step.prems(2) by simp
  with step have y: "registry_invar (snd y)" "request_view (snd y) cid = Present tid ident k (Settled s f)"
    by simp_all
  have r: "refines (fst z) (snd y) (snd z)"
    by (rule step_refines [OF hop y(1)])
  show ?case
    using settled_stable [OF refinesD(2) [OF r, of cid] y(2) step.prems(2)] refinesD(1) [OF r] y(2) by simp
qed simp

text \<open>Reading and reserving, in terms of the view at the time of the call.\<close>

definition lapsed :: "instant \<Rightarrow> task_phase \<Rightarrow> bool" where
  "lapsed now ph \<longleftrightarrow> (\<exists>s f. ph = Settled s f \<and> expired now f)"

lemma lapsed_simps [simp]:
  "\<not> lapsed now Reserved" "\<not> lapsed now (Active s l x)" "lapsed now (Settled s f) \<longleftrightarrow> expired now f"
  by (simp_all add: lapsed_def)

lemma doomed_lapsed:
  assumes "registry_invar g" "timed c g"
  shows "tid \<in> doomed now g \<longleftrightarrow> lapsed now (phase_of (fmlookup (rg_tasks g) tid))"
proof (cases "fmlookup (rg_tasks g) tid")
  case None
  then show ?thesis
    using doomed_finished [OF assms(1), of tid now] by (auto simp: phase_of_def)
next
  case (Some t)
  then show ?thesis
    using doomed_finished [OF assms(1), of tid now] doomed_iff [OF assms Some]
    by (cases "tk_finished_monotonic t") (auto simp: phase_of_def)
qed

lemma purged_request:
  assumes "registry_invar g" "timed c g" "request_view g cid = Present tid ident k ph"
  shows "fmlookup (rg_requests (purge_expired now g)) cid =
    (if lapsed now ph then None else Some \<lparr>rq_task_id = tid, rq_identity = ident, rq_reservation = k\<rparr>)"
  using assms(3) doomed_lapsed [OF assms(1,2), of tid now]
  by (auto simp: purge_expired_requests [OF assms(1)] request_view_def view_of_def split: option.splits)

section \<open>A short history\<close>

text \<open>One request reserved, published and finished, for the examples below.\<close>

definition example_request :: "string \<Rightarrow> validated_submit" where
  "example_request cid =
     validated_from_raw cid
       \<lparr>rc_program = ''/bin/true'', rc_arguments = [], rc_working_directory = ''/'', rc_environment = []\<rparr>
       \<lparr>rb_resources = \<lparr>rp_cpu = \<lparr>cp_quota_micros = 1, cp_period_micros = 1\<rparr>, rp_memory_max_bytes = 1,
          rp_pids_max = 1, rp_wall_time_limit_ms = 1\<rparr>,
        rb_output = \<lparr>op_stdout_tail_max_bytes = 1, op_stderr_tail_max_bytes = 1\<rparr>\<rparr>"

definition example_owner :: submit_owner where
  "example_owner = \<lparr>ow_client_request_id = ''c'', ow_task_id = ''t'', ow_request = example_request ''c'',
     ow_signal = 0\<rparr>"

definition example_limits :: effective_limits where
  "example_limits = VerifiedEffectiveLimits \<lparr>rp_cpu = \<lparr>cp_quota_micros = 1, cp_period_micros = 1\<rparr>,
     rp_memory_max_bytes = 1, rp_pids_max = 1, rp_wall_time_limit_ms = 1\<rparr>"

definition example_finished :: task_snapshot where
  "example_finished = Finished ''t'' Exited \<lparr>pr_exit_code = Some 0, pr_signal = None\<rparr>
     \<lparr>tt_submitted_at = ''s'', tt_started_at = ''r'', tt_finished_at = ''f'', tt_wall_time_ms = 1\<rparr>
     \<lparr>tu_cpu_time_micros = 1, tu_memory_peak_bytes = 1\<rparr>
     \<lparr>to_stdout_tail = [], to_stderr_tail = [], to_stdout_truncated = False, to_stderr_truncated = False\<rparr>"

definition example_reserved :: registry where
  "example_reserved = snd (reserve_submit_with (registry_new 2) 5 (example_request ''c'') ''t'')"

definition example_running :: registry where
  "example_running =
     snd (publish_running (snd (cancellation_channel example_reserved)) 6 example_owner
       (Running ''t'' ''s'' ''r'') example_limits 0)"

definition example_done :: registry where
  "example_done = snd (owner_finish example_running 7 8 8 example_owner example_finished)"

lemma example_request_id [simp]: "submit_client_request_id (example_request cid) = cid"
  by (simp add: example_request_def submit_client_request_id_def validated_from_raw_def)

lemma example_reserved_eq:
  "example_reserved =
     \<lparr>rg_max_tasks = 2, rg_poisoned = False, rg_tasks = fmempty,
      rg_requests = fmupd ''c'' \<lparr>rq_task_id = ''t'', rq_identity = vs_identity (example_request ''c''),
        rq_reservation = 0\<rparr> fmempty,
      rg_task_requests = fmupd ''t'' ''c'' fmempty, rg_expirations = [], rg_signals = [None],
      rg_cancellations = []\<rparr>"
  by (simp add: example_reserved_def reserve_submit_with_def locked_def purge_expired_def registry_new_def
      Let_def)

lemma example_running_eq:
  "example_running = example_reserved\<lparr>
     rg_tasks := fmupd ''t'' \<lparr>tk_snapshot = Running ''t'' ''s'' ''r'',
        tk_effective_limits = Some example_limits, tk_finished_monotonic = None, tk_cancellation = Some 0\<rparr> fmempty,
     rg_signals := [Some (ObservedTask (Running ''t'' ''s'' ''r''))],
     rg_cancellations := [cancellation_new]\<rparr>"
  by (simp add: example_running_def publish_running_def verify_task_id_def verify_owner_def locked_def
      purge_expired_def publish_signal_def cancellation_channel_def example_owner_def example_reserved_eq)

lemma example_done_eq:
  "example_done = example_running\<lparr>
     rg_tasks := fmupd ''t'' \<lparr>tk_snapshot = example_finished, tk_effective_limits = Some example_limits,
        tk_finished_monotonic = Some 8, tk_cancellation = None\<rparr> (rg_tasks example_running),
     rg_expirations := [(''t'', 8)]\<rparr>"
  by (simp add: example_done_def owner_finish_def finish_snapshot_def verify_task_id_def verify_owner_def
      locked_def purge_expired_def example_owner_def example_finished_def example_running_eq
      example_reserved_eq Let_def)

lemmas example_eqs = example_done_eq example_running_eq example_reserved_eq

lemma example_runs:
  "registry_run 2 5 example_reserved" "registry_run 2 6 example_running" "registry_run 2 8 example_done"
proof -
  have "registry_run 2 0 (registry_new 2)"
    by (rule registry_run.start)
  then show r: "registry_run 2 5 example_reserved"
    unfolding example_reserved_def by (rule registry_run.step) (rule registry_step.intros, simp)
  from r have "registry_run 2 5 (snd (cancellation_channel example_reserved))"
    by (rule registry_run.step) (rule registry_step.intros)
  then show p: "registry_run 2 6 example_running"
    unfolding example_running_def
    by (rule registry_run.step) (rule registry_step.intros, simp_all add: cancellation_channel_def)
  from p show "registry_run 2 8 example_done"
    unfolding example_done_def by (rule registry_run.step) (rule registry_step.intros, simp_all)
qed

section \<open>Properties\<close>



text \<open>
  C24: After any history the registry is well formed: requests and tasks index each other, no two
  requests share a submit signal, a task record is finished exactly when it has a finish time and no
  cancellation handle, the expiration queue lists exactly the finished tasks.
\<close>

theorem registry_well_formed:
  assumes "registry_run n c g"
  shows "registry_invar g"
  using assms by (rule run_invar)

theorem registry_well_formed_witness: "registry_invar example_done"
  using registry_well_formed [OF example_runs(3)] .

text \<open>
  The registry's memory is bounded by its configured maximum: after any history neither the
  requests nor the task records nor the expiration queue exceed it.
\<close>

theorem registry_sizes_bounded:
  assumes "registry_run n c g"
  shows "fmlen (rg_requests g) \<le> n \<and> fmlen (rg_tasks g) \<le> n \<and> length (rg_expirations g) \<le> n"
  using run_timed [OF assms] invarD [OF run_invar [OF assms]]
    card_task_requests [of g] card_tasks [of g] length_queue [of g]
  by auto

theorem registry_sizes_bounded_witness: "fmlen (rg_tasks example_done) \<le> 2"
  using registry_sizes_bounded [OF example_runs(3)] by simp

text \<open>
  C22: A finished task keeps its client request, task id and final snapshot through every sequence of
  operations that ends within the ten minutes after it finished.
\<close>

theorem finished_result_retained:
  assumes "registry_run n c g" "request_view g cid = Present tid ident k (Settled s f)"
    and "registry_steps (c, g) (c', g')" "c' \<le> f + duration_from_secs 600"
  shows "request_view g' cid = Present tid ident k (Settled s f)"
  using steps_settled [OF assms(3), of f cid] assms run_invar [OF assms(1)]
  by (simp add: MIN_FINISHED_RETENTION_def)

theorem finished_result_retained_witness:
  "request_view (snd (reserve_submit_with example_done 9 (example_request ''d'') ''u'')) ''c'' =
     Present ''t'' (vs_identity (example_request ''c'')) 0 (Settled example_finished 8)"
proof -
  have "registry_step 8 example_done 9 (snd (reserve_submit_with example_done 9 (example_request ''d'') ''u''))"
    by (rule registry_step.intros) simp
  then have steps: "registry_steps (8, example_done)
      (9, snd (reserve_submit_with example_done 9 (example_request ''d'') ''u''))"
    unfolding registry_steps_def by (intro r_into_rtranclp) simp
  have view: "request_view example_done ''c'' =
      Present ''t'' (vs_identity (example_request ''c'')) 0 (Settled example_finished 8)"
    by (simp add: request_view_def view_of_def phase_of_def example_eqs)
  show ?thesis
    by (rule finished_result_retained [OF example_runs(3) view steps]) (simp add: duration_from_secs_def)
qed

text \<open>
  C6: The retention boundary is exact: a finished task is found at a time up to and including ten
  minutes after it finished, and at no later time.
\<close>

theorem retention_boundary:
  assumes "registry_run n c g" "\<not> rg_poisoned g" "c \<le> now"
    and "fmlookup (rg_tasks g) tid = Some t" "tk_finished_monotonic t = Some f"
  shows "fst (registry_snapshot g now tid) =
    Ok (if now \<le> f + duration_from_secs 600 then Some (tk_snapshot t) else None)"
proof -
  note inv = run_invar [OF assms(1)] and tm = run_timed [OF assms(1), THEN conjunct1]
  have "(tid, f) \<in> set (rg_expirations g)"
    using queue_entry [OF invarD(4) [OF inv], of tid f] assms(4,5) by simp
  then have "f \<le> c"
    using tm by (force simp: timed_def)
  then have "tid \<in> doomed now g \<longleftrightarrow> \<not> now \<le> f + duration_from_secs 600"
    unfolding doomed_iff [OF inv tm assms(4,5)] expired_iff MIN_FINISHED_RETENTION_def
    using assms(3) by auto
  then show ?thesis
    using assms(2,4) by (simp add: registry_snapshot_def locked_def purge_expired_tasks)
qed

theorem retention_boundary_witness:
  "fst (registry_snapshot example_done (8 + duration_from_secs 600) ''t'') = Ok (Some example_finished) \<and>
   fst (registry_snapshot example_done (9 + duration_from_secs 600) ''t'') = Ok None"
  using retention_boundary [OF example_runs(3), of "8 + duration_from_secs 600" "''t''" _ 8]
    retention_boundary [OF example_runs(3), of "9 + duration_from_secs 600" "''t''" _ 8]
  by (simp add: example_eqs)

text \<open>
  C5: Submission is idempotent: while a client request id is retained, a second submission with it
  never starts a task. The same identity gets the original task id and signal, another identity an
  idempotency conflict, and the retained request is not changed.
\<close>

theorem reserve_submit_idempotent:
  assumes "registry_run n c g" "\<not> rg_poisoned g" "c \<le> now"
    and "request_view g (submit_client_request_id request) = Present tid ident k ph" "\<not> lapsed now ph"
  shows "reserve_submit_with g now request tid' =
    (if ident = vs_identity request then Ok (Existing \<lparr>wt_task_id = tid, wt_signal = k\<rparr>)
     else Err (IdempotencyConflict (submit_client_request_id request)), purge_expired now g)"
proof -
  note inv = run_invar [OF assms(1)] and tm = run_timed [OF assms(1), THEN conjunct1]
  show ?thesis
    using assms(2,5) purged_request [OF inv tm assms(4), of now]
    by (simp add: reserve_submit_with_def locked_def)
qed

theorem reserve_submit_idempotent_witness:
  "fst (reserve_submit_with example_done 9 (example_request ''c'') ''u'') =
     Ok (Existing \<lparr>wt_task_id = ''t'', wt_signal = 0\<rparr>)"
proof -
  have view: "request_view example_done (submit_client_request_id (example_request ''c'')) =
      Present ''t'' (vs_identity (example_request ''c'')) 0 (Settled example_finished 8)"
    by (simp add: request_view_def view_of_def phase_of_def example_eqs)
  have "\<not> lapsed 9 (Settled example_finished 8)" "\<not> rg_poisoned example_done"
    by (simp_all add: expired_iff MIN_FINISHED_RETENTION_def duration_from_secs_def example_eqs)
  from reserve_submit_idempotent [OF example_runs(3) this(2) _ view this(1), of "''u''"] show ?thesis
    by simp
qed

text \<open>
  The outcome of a submission whose client request id is unknown or has lapsed: exhausted
  capacity, a task id already in use, or a reservation under the candidate task id with its own
  unpublished signal; only the last changes the request.
\<close>

theorem reserve_submit_fresh:
  assumes "registry_run n c g" "\<not> rg_poisoned g" "c \<le> now"
    and "case request_view g (submit_client_request_id request) of
      Absent \<Rightarrow> True | Present _ _ _ ph \<Rightarrow> lapsed now ph"
  shows "case reserve_submit_with g now request tid of
      (Inl e, g') \<Rightarrow> g' = purge_expired now g \<and>
        e = (if n \<le> fmlen (rg_requests g') then CapacityExhausted else TaskAlreadyExists tid) \<and>
        (n \<le> fmlen (rg_requests g') \<or> tid |\<in>| fmdom (rg_task_requests g'))
    | (Inr res, g') \<Rightarrow>
        fmlen (rg_requests g') \<le> n \<and>
        res = Owner \<lparr>ow_client_request_id = submit_client_request_id request, ow_task_id = tid,
          ow_request = request, ow_signal = length (rg_signals g)\<rparr> \<and>
        request_view g' (submit_client_request_id request) =
          Present tid (vs_identity request) (length (rg_signals g)) Reserved \<and>
        waiter_poll g' \<lparr>wt_task_id = tid, wt_signal = length (rg_signals g)\<rparr> = None"
proof -
  let ?h = "purge_expired now g" and ?cid = "submit_client_request_id request"
  note inv = run_invar [OF assms(1)] and tm = run_timed [OF assms(1)]
  have none: "fmlookup (rg_requests ?h) ?cid = None"
  proof (cases "request_view g ?cid")
    case Absent
    then show ?thesis
      by (simp add: purge_expired_requests [OF inv] request_view_def view_of_def split: option.splits)
  next
    case (Present a b k ph)
    with assms(4) purged_request [OF inv tm [THEN conjunct1] Present, of now] show ?thesis
      by simp
  qed
  have fresh: "fmlookup (rg_tasks ?h) tid = None" if "tid |\<notin>| fmdom (rg_task_requests ?h)"
    using fresh_task [OF purge_expired_invar [OF inv], of now tid] that by (simp add: fmdom_notD)
  show ?thesis
    using assms(2) tm none fresh
    by (simp add: reserve_submit_with_def locked_def Let_def request_view_def view_of_def phase_of_def
        waiter_poll_def nth_append fmlen_upd)
qed

theorem reserve_submit_fresh_witness:
  "case reserve_submit_with example_reserved 6 (example_request ''d'') ''t'' of
      (Inl e, g') \<Rightarrow> e = TaskAlreadyExists ''t'' | (Inr res, g') \<Rightarrow> False"
proof -
  have "\<not> rg_poisoned example_reserved" "request_view example_reserved ''d'' = Absent"
    "purge_expired 6 example_reserved = example_reserved"
    by (simp_all add: example_eqs request_view_def view_of_def purge_expired_def)
  note facts = this
  have "fmlen (rg_requests example_reserved) = 1" "length (rg_signals example_reserved) = 1"
    "fst (reserve_submit_with example_reserved 6 (example_request ''d'') ''t'') = Err (TaskAlreadyExists ''t'')"
    using facts(3) by (simp_all add: example_eqs fmlen_upd reserve_submit_with_def locked_def)
  with reserve_submit_fresh [OF example_runs(1) facts(1), of 6 "example_request ''d''" "''t''"] facts
  show ?thesis
    by (simp add: split_beta)
qed

text \<open>
  C23: The outcome of a cancellation request on a task. A task that is unknown, only reserved or
  lapsed is not found; a finished one is reported as finished; a running one always has its
  cancellation handle, whose trigger records the cancellation unless an earlier trigger won. The
  internal error of a running task without a handle never occurs.
\<close>

theorem request_cancel_by_phase:
  assumes "registry_run n c g" "\<not> rg_poisoned g" "c \<le> now"
  shows "case phase_of (fmlookup (rg_tasks g) tid) of
      Reserved \<Rightarrow> fst (request_cancel g now tid) = Err (TaskNotFound tid)
    | Settled s f \<Rightarrow> fst (request_cancel g now tid) =
        Err (if expired now f then TaskNotFound tid else TaskAlreadyFinished tid)
    | Active s l x \<Rightarrow> (\<exists>y. x = Some y \<and> fst (request_cancel g now tid) = Ok y \<and>
        control_snapshot (rg_cancellations (snd (request_cancel g now tid)) ! y) =
          (if ca_terminal (rg_cancellations g ! y) = 0 then Some Cancelled
           else control_snapshot (rg_cancellations g ! y)))"
proof -
  note inv = run_invar [OF assms(1)] and tm = run_timed [OF assms(1), THEN conjunct1]
  show ?thesis
  proof (cases "fmlookup (rg_tasks g) tid")
    case None
    then show ?thesis
      using assms(2) by (simp add: request_cancel_def locked_def purge_expired_tasks phase_of_def)
  next
    case (Some t)
    have rec: "record_ok g tid t"
      using tasksD [OF invarD(3) [OF inv] Some] by simp
    have doom: "tid \<in> doomed now g \<longleftrightarrow> lapsed now (phase_of (Some t))"
      using doomed_lapsed [OF inv tm, of tid now] Some by simp
    show ?thesis
    proof (cases "tk_finished_monotonic t")
      case None
      then obtain y where "tk_cancellation t = Some y" "\<not> is_finished (tk_snapshot t)"
        "y < length (rg_cancellations g)"
        using rec by (auto simp: record_ok_def)
      with None Some assms(2) doom show ?thesis
        by (simp add: phase_of_def request_cancel_def locked_def purge_expired_tasks
            cancellation_request_def control_snapshot_def latch_observe_def compare_exchange_def
            latch_snapshot_def Let_def split_beta)
    next
      case (Some f)
      then have "is_finished (tk_snapshot t)"
        using rec by (simp add: record_ok_def)
      with Some \<open>fmlookup (rg_tasks g) tid = Some t\<close> assms(2) doom show ?thesis
        by (simp add: phase_of_def request_cancel_def locked_def purge_expired_tasks)
    qed
  qed
qed

theorem request_cancel_by_phase_witness:
  "fst (request_cancel example_running 7 ''t'') = Ok 0 \<and>
   control_snapshot (rg_cancellations (snd (request_cancel example_running 7 ''t'')) ! 0) = Some Cancelled"
  using request_cancel_by_phase [OF example_runs(2), of 7 "''t''"]
  by (simp add: example_eqs phase_of_def cancellation_new_def)

end
