(* ===== verification/Registry_Frame.thy ===== *)
theory Registry_Frame
  imports Registry
begin

text \<open>
  What one owner's operation on the registry leaves to the others. A request is live while it is
  reserved or running; an operation changes the live requests of its own client request id only,
  a published submit signal stays published, and cancellation states are never removed.
\<close>

section \<open>Live requests\<close>

fun live :: "request_view \<Rightarrow> bool" where
  "live (Present _ _ _ Reserved) = True"
| "live (Present _ _ _ (Active _ _ _)) = True"
| "live _ = False"

definition kept :: "string set \<Rightarrow> registry \<Rightarrow> registry \<Rightarrow> bool" where
  "kept X g g' \<longleftrightarrow>
     (\<forall>cid. cid \<notin> X \<longrightarrow> live (request_view g cid) \<or> live (request_view g' cid) \<longrightarrow>
        request_view g' cid = request_view g cid)"

lemma keptI:
  "(\<And>cid. cid \<notin> X \<Longrightarrow> live (request_view g cid) \<or> live (request_view g' cid) \<Longrightarrow>
      request_view g' cid = request_view g cid) \<Longrightarrow> kept X g g'"
  by (simp add: kept_def)

lemma kept_eq: "(\<And>cid. cid \<notin> X \<Longrightarrow> request_view g' cid = request_view g cid) \<Longrightarrow> kept X g g'"
  by (simp add: kept_def)

lemma keptD:
  "kept X g g' \<Longrightarrow> cid \<notin> X \<Longrightarrow> live (request_view g cid) \<or> live (request_view g' cid) \<Longrightarrow>
   request_view g' cid = request_view g cid"
  unfolding kept_def by blast

lemma kept_refl [simp]: "kept X g g"
  by (simp add: kept_def)

lemma kept_mono: "kept X g g' \<Longrightarrow> X \<subseteq> Y \<Longrightarrow> kept Y g g'"
  by (rule keptI) (auto dest: keptD)

lemma kept_trans:
  assumes "kept X g h" "kept X h g'"
  shows "kept X g g'"
proof (rule keptI)
  fix cid
  assume "cid \<notin> X" "live (request_view g cid) \<or> live (request_view g' cid)"
  then show "request_view g' cid = request_view g cid"
    using keptD [OF assms(1), of cid] keptD [OF assms(2), of cid] by auto
qed

lemma kept_frame:
  "rg_tasks g' = rg_tasks g \<Longrightarrow> rg_requests g' = rg_requests g \<Longrightarrow> kept X g g'"
  by (simp add: kept_def request_view_def)

lemma kept_purge:
  assumes inv: "registry_invar g"
  shows "kept X g (purge_expired now g)"
proof (rule keptI)
  fix cid
  assume l: "live (request_view g cid) \<or> live (request_view (purge_expired now g) cid)"
  show "request_view (purge_expired now g) cid = request_view g cid"
  proof (cases "fmlookup (rg_requests g) cid")
    case None
    then show ?thesis
      by (simp add: request_view_def view_of_def purge_expired_requests [OF inv])
  next
    case (Some r)
    have "rq_task_id r \<notin> doomed now g"
    proof
      assume d: "rq_task_id r \<in> doomed now g"
      then obtain t f where "fmlookup (rg_tasks g) (rq_task_id r) = Some t" "tk_finished_monotonic t = Some f"
        using doomed_finished [OF inv d] by (elim exE conjE) (rule that)
      with l Some d show False
        by (simp add: request_view_def view_of_def phase_of_def purge_expired_requests [OF inv])
    qed
    with Some show ?thesis
      by (simp add: request_view_def view_of_def purge_expired_requests [OF inv] purge_expired_tasks)
  qed
qed

lemma kept_locked:
  assumes "registry_invar g" "\<And>h. registry_invar h \<Longrightarrow> kept X h (snd (f h))"
  shows "kept X g (snd (locked g now f))"
  using kept_trans [OF kept_purge [OF assms(1)] assms(2) [OF purge_expired_invar [OF assms(1)]]]
  by (simp add: locked_def)

lemma kept_signal: "kept X g h \<Longrightarrow> kept X g (publish_signal k ob h)"
  by (rule kept_trans) (auto intro: kept_frame simp: publish_signal_def)

text \<open>Operations of clients.\<close>

lemma kept_queries:
  assumes "registry_invar g"
  shows "kept X g (snd (existing_submit g now request))"
    and "kept X g (snd (registry_snapshot g now tid))"
    and "kept X g (snd (snapshot_by_client_request_id g now cid))"
    and "kept X g (snd (has_client_request_id g now cid))"
    and "kept X g (snd (effective_limits_for g now tid ob))"
    and "kept X g (snd (request_cancel g now tid))"
  unfolding existing_submit_def registry_snapshot_def snapshot_by_client_request_id_def
    has_client_request_id_def effective_limits_for_def request_cancel_def
  using assms by (auto intro!: kept_locked intro: kept_frame split: option.split)

lemma kept_reserve:
  assumes "registry_invar g"
  shows "kept {submit_client_request_id request} g (snd (reserve_submit_with g now request tid))"
  unfolding reserve_submit_with_def Let_def
proof (rule kept_locked [OF assms], goal_cases)
  case (1 h)
  show ?case
    by (rule kept_eq) (simp add: request_view_def split: option.split)
qed

text \<open>Operations of an owner.\<close>

lemma kept_with_task:
  assumes inv: "registry_invar g" and v: "verify_owner g owner = Inr u"
  shows "kept {ow_client_request_id owner} g (with_task g (ow_task_id owner) t q)"
proof (rule keptI)
  fix cid
  assume cid: "cid \<notin> {ow_client_request_id owner}"
  obtain r where r: "fmlookup (rg_requests g) (ow_client_request_id owner) = Some r"
    "rq_task_id r = ow_task_id owner"
    using verify_owner_ok [OF v] .
  have "rq_task_id r' \<noteq> ow_task_id owner" if "fmlookup (rg_requests g) cid = Some r'" for r'
    using index_requestD [OF invarD(1) [OF inv] that] index_requestD [OF invarD(1) [OF inv] r(1)] r(2) cid
    by auto
  then show "request_view (with_task g (ow_task_id owner) t q) cid = request_view g cid"
    by (auto simp: request_view_def view_of_def split: option.split)
qed

lemma kept_publish_running:
  assumes "registry_invar g"
  shows "kept {ow_client_request_id owner} g (snd (publish_running g now owner snapshot l x))"
proof -
  have "kept {ow_client_request_id owner} h (snd (case verify_owner h owner of
      Inl e \<Rightarrow> (Err e, h)
    | Inr u \<Rightarrow> if ow_task_id owner |\<in>| fmdom (rg_tasks h)
        then (Err (TaskAlreadyExists (ow_task_id owner)), h)
        else (Ok snapshot, publish_signal (ow_signal owner) (ObservedTask snapshot)
          (h\<lparr>rg_tasks := fmupd (ow_task_id owner) t (rg_tasks h)\<rparr>))))" if "registry_invar h" for h t
    using kept_with_task [OF that] by (auto simp: with_task_same intro: kept_signal split: sum.split)
  then show ?thesis
    unfolding publish_running_def using assms by (auto intro!: kept_locked split: sum.split)
qed

lemma kept_finish:
  assumes "registry_invar g"
  shows "kept {ow_client_request_id owner} g (snd (finish_snapshot g now f owner snapshot))"
proof -
  have "kept {ow_client_request_id owner} h (h\<lparr>rg_tasks := fmupd (ow_task_id owner) t (rg_tasks h),
      rg_expirations := q\<rparr>)" if "registry_invar h" "verify_owner h owner = Inr u" for h t q u
    using kept_with_task [OF that] by (simp add: with_task_def)
  then show ?thesis
    unfolding finish_snapshot_def Let_def using assms
    by (auto intro!: kept_locked split: sum.split option.split)
qed

lemma kept_release:
  assumes "registry_invar g"
  shows "kept {ow_client_request_id owner} g (snd (release_failed_owner g now owner))"
  unfolding release_failed_owner_def
proof (rule kept_locked [OF assms], goal_cases)
  case (1 h)
  show ?case
    by (rule kept_eq) (simp add: request_view_def split: option.split sum.split)
qed

section \<open>What an owner's operation does to its own request\<close>

definition owned :: "registry \<Rightarrow> submit_owner \<Rightarrow> task_phase \<Rightarrow> bool" where
  "owned g owner ph \<longleftrightarrow>
     (\<exists>ident. request_view g (ow_client_request_id owner) =
        Present (ow_task_id owner) ident (ow_signal owner) ph)"

lemma owned_live:
  "owned g owner Reserved \<Longrightarrow> live (request_view g (ow_client_request_id owner))"
  "owned g owner (Active s l x) \<Longrightarrow> live (request_view g (ow_client_request_id owner))"
  by (auto simp: owned_def)

lemma owned_kept:
  assumes "kept X g g'" "ow_client_request_id owner \<notin> X"
  shows "owned g owner Reserved \<Longrightarrow> owned g' owner Reserved"
    and "owned g owner (Active s l x) \<Longrightarrow> owned g' owner (Active s l x)"
  using keptD [OF assms] owned_live by (auto simp: owned_def)

lemma owned_lookup:
  assumes "owned g owner ph"
  obtains r where "fmlookup (rg_requests g) (ow_client_request_id owner) = Some r"
    "rq_task_id r = ow_task_id owner" "rq_reservation r = ow_signal owner"
    "ph = phase_of (fmlookup (rg_tasks g) (ow_task_id owner))"
  using assms by (auto simp: owned_def request_view_def view_of_def split: option.splits)

lemma owned_verify: "owned g owner ph \<Longrightarrow> verify_owner g owner = Ok ()"
  by (elim owned_lookup) (simp add: verify_owner_def)

lemma verify_owned:
  assumes "verify_owner g owner = Inr u"
  shows "owned g owner (phase_of (fmlookup (rg_tasks g) (ow_task_id owner)))"
proof -
  obtain r where "fmlookup (rg_requests g) (ow_client_request_id owner) = Some r"
    "rq_task_id r = ow_task_id owner" "rq_reservation r = ow_signal owner"
    using verify_owner_ok [OF assms] .
  then show ?thesis
    by (simp add: owned_def request_view_def view_of_def)
qed

lemma owned_phase:
  "owned g owner ph \<Longrightarrow> ph = phase_of (fmlookup (rg_tasks g) (ow_task_id owner))"
  by (elim owned_lookup)

lemma owned_signal:
  assumes "owned g owner ph" "registry_invar g"
  shows "ow_signal owner < length (rg_signals g)"
proof -
  obtain r where "fmlookup (rg_requests g) (ow_client_request_id owner) = Some r"
    "rq_reservation r = ow_signal owner"
    using owned_lookup [OF assms(1)] .
  with index_requestD [OF invarD(1) [OF assms(2)] this(1)] show ?thesis
    by simp
qed

lemma phase_reserved: "Reserved = phase_of t \<Longrightarrow> t = None"
  by (auto simp: phase_of_def split: option.splits)

lemma phase_active: "Active s l x = phase_of t \<Longrightarrow> \<exists>r. t = Some r \<and> tk_finished_monotonic r = None"
  by (auto simp: phase_of_def split: option.splits)

lemmas owned_reserved = owned_phase [THEN phase_reserved]
  and owned_active = owned_phase [THEN phase_active]

lemma owned_with_task:
  "owned g owner ph \<Longrightarrow> owned (with_task g (ow_task_id owner) t q) owner (phase_of (Some t))"
  by (elim owned_lookup) (simp add: owned_def request_view_def view_of_def)

lemma owned_publish_signal [simp]: "owned (publish_signal k ob g) owner ph \<longleftrightarrow> owned g owner ph"
  by (simp add: owned_def request_view_def publish_signal_def)

lemma publish_running_cases:
  assumes inv: "registry_invar g" and eq: "publish_running g now owner snapshot l x = (r, g')"
  shows "case r of
      Inr s \<Rightarrow> s = snapshot \<and> is_running snapshot \<and> owned g' owner (Active snapshot (Some l) (Some x)) \<and>
        rg_signals g' = (rg_signals g)[ow_signal owner := Some (ObservedTask snapshot)]
    | Inl e \<Rightarrow> kept {} g g' \<and> rg_signals g' = rg_signals g"
proof (cases "is_finished snapshot \<or> ow_task_id owner \<noteq> snapshot_task_id snapshot \<or> rg_poisoned g")
  case True
  with eq show ?thesis
    by (cases "is_finished snapshot"; cases "ow_task_id owner = snapshot_task_id snapshot")
      (auto simp: publish_running_def verify_task_id_def locked_def)
next
  case False
  let ?h = "purge_expired now g"
  let ?t = "\<lparr>tk_snapshot = snapshot, tk_effective_limits = Some l, tk_finished_monotonic = None,
    tk_cancellation = Some x\<rparr>"
  have eq': "(case verify_owner ?h owner of Inl e \<Rightarrow> (Err e, ?h)
     | Inr u \<Rightarrow> if ow_task_id owner |\<in>| fmdom (rg_tasks ?h)
         then (Err (TaskAlreadyExists (ow_task_id owner)), ?h)
         else (Ok snapshot, publish_signal (ow_signal owner) (ObservedTask snapshot)
           (?h\<lparr>rg_tasks := fmupd (ow_task_id owner) ?t (rg_tasks ?h)\<rparr>))) = (r, g')"
    using eq False by (simp add: publish_running_def verify_task_id_def locked_def)
  note kp = kept_purge [OF inv, of "{}" now]
  show ?thesis
  proof (cases "verify_owner ?h owner")
    case (Inl e)
    with eq' kp show ?thesis
      by auto
  next
    case (Inr u)
    show ?thesis
    proof (cases "ow_task_id owner |\<in>| fmdom (rg_tasks ?h)")
      case True
      with eq' Inr kp show ?thesis
        by auto
    next
      case no: False
      have "r = Ok snapshot" "g' = publish_signal (ow_signal owner) (ObservedTask snapshot)
          (with_task ?h (ow_task_id owner) ?t (rg_expirations ?h))"
        using eq' Inr no by (simp_all add: with_task_same)
      moreover have "owned g' owner (phase_of (Some ?t))"
        unfolding calculation owned_publish_signal by (rule owned_with_task [OF verify_owned [OF Inr]])
      ultimately show ?thesis
        using False by (simp add: phase_of_def is_running_iff publish_signal_def)
    qed
  qed
qed

lemma release_signals [simp]: "rg_signals (snd (release_failed_owner g now owner)) = rg_signals g"
  by (simp add: release_failed_owner_def locked_def split: sum.split option.split)

lemma release_reserved:
  assumes inv: "registry_invar g" and own: "owned g owner Reserved"
  shows "release_failed_owner g now owner = (Err StateUnavailable, g) \<and> rg_poisoned g \<or>
    fst (release_failed_owner g now owner) = Ok None \<and>
    request_view (snd (release_failed_owner g now owner)) (ow_client_request_id owner) = Absent"
proof (cases "rg_poisoned g")
  case True
  then show ?thesis
    by (simp add: release_failed_owner_def locked_def)
next
  case False
  let ?h = "purge_expired now g"
  have own': "owned ?h owner Reserved"
    by (rule owned_kept(1) [OF kept_purge [OF inv] _ own, of "{}"]) simp
  then have "fmlookup (rg_tasks ?h) (ow_task_id owner) = None"
    by (rule owned_reserved)
  with False owned_verify [OF own'] show ?thesis
    by (simp add: release_failed_owner_def locked_def request_view_def view_of_def)
qed

lemma release_active:
  assumes inv: "registry_invar g" and own: "owned g owner (Active s l x)"
  shows "owned (snd (release_failed_owner g now owner)) owner (Active s l x)"
proof (cases "rg_poisoned g")
  case True
  with own show ?thesis
    by (simp add: release_failed_owner_def locked_def)
next
  case False
  let ?h = "purge_expired now g"
  have own': "owned ?h owner (Active s l x)"
    by (rule owned_kept(2) [OF kept_purge [OF inv] _ own, of "{}"]) simp
  then have "fmlookup (rg_tasks ?h) (ow_task_id owner) \<noteq> None"
    using owned_active [OF own'] by auto
  with False owned_verify [OF own'] own' show ?thesis
    by (auto simp: release_failed_owner_def locked_def)
qed

lemma owner_fail_snd:
  "snd (owner_fail g now owner failure) =
   publish_signal (ow_signal owner) (fst (owner_fail g now owner failure))
     (snd (release_failed_owner g now owner))"
  by (simp add: owner_fail_def Let_def split_beta)

lemma owner_fail_signals:
  "rg_signals (snd (owner_fail g now owner failure)) =
   (rg_signals g)[ow_signal owner := Some (fst (owner_fail g now owner failure))]"
  unfolding owner_fail_snd by (simp add: publish_signal_def)

lemma rollback_signals:
  "\<exists>ob. rg_signals (snd (rollback_before_running g now owner failure)) =
     (rg_signals g)[ow_signal owner := Some ob]"
  by (auto simp: rollback_before_running_def split_beta publish_signal_def split: sum.split option.split)

lemma rollback_snd:
  "\<exists>ob. snd (rollback_before_running g now owner failure) =
     publish_signal (ow_signal owner) ob (snd (release_failed_owner g now owner))"
  by (auto simp: rollback_before_running_def split_beta split: sum.split option.split)

lemma kept_owner_fail:
  "registry_invar g \<Longrightarrow> kept {ow_client_request_id owner} g (snd (owner_fail g now owner failure))"
  unfolding owner_fail_snd by (intro kept_signal kept_release)

lemma kept_rollback:
  "registry_invar g \<Longrightarrow> kept {ow_client_request_id owner} g (snd (rollback_before_running g now owner failure))"
  using rollback_snd [of g now owner failure] kept_signal [OF kept_release] by (elim exE) simp

lemma request_view_signal [simp]: "request_view (publish_signal k ob g) cid = request_view g cid"
  by (simp add: request_view_def publish_signal_def)

text \<open>What failing leaves of the owner's own request: nothing live, unless it was running.\<close>

definition closed :: "registry \<Rightarrow> string \<Rightarrow> bool" where
  "closed g cid \<longleftrightarrow> \<not> live (request_view g cid) \<or> rg_poisoned g"

lemma release_poisoned [simp]: "rg_poisoned (snd (release_failed_owner g now owner)) = rg_poisoned g"
  by (simp add: release_failed_owner_def locked_def split: sum.split option.split)

lemma publish_signal_poisoned [simp]: "rg_poisoned (publish_signal k ob g) = rg_poisoned g"
  by (simp add: publish_signal_def)

lemma release_closed:
  "registry_invar g \<Longrightarrow> owned g owner Reserved \<Longrightarrow>
   closed (snd (release_failed_owner g now owner)) (ow_client_request_id owner)"
  using release_reserved [of g owner now] by (auto simp: closed_def)

lemma owner_fail_closed:
  "registry_invar g \<Longrightarrow> owned g owner Reserved \<Longrightarrow>
   closed (snd (owner_fail g now owner failure)) (ow_client_request_id owner)"
  using release_closed [of g owner now] by (simp add: owner_fail_snd closed_def)

lemma rollback_closed:
  "registry_invar g \<Longrightarrow> owned g owner Reserved \<Longrightarrow>
   closed (snd (rollback_before_running g now owner failure)) (ow_client_request_id owner)"
  using release_closed [of g owner now] rollback_snd [of g now owner failure] by (auto simp: closed_def)

lemma finish_cases:
  assumes inv: "registry_invar g" and eq: "finish_snapshot g now f owner snapshot = (r, g')"
  shows "rg_signals g' = rg_signals g \<and> rg_poisoned g' = rg_poisoned g \<and>
    (case r of
       Inr p \<Rightarrow> fp_signal p = ow_signal owner \<and> fp_snapshot p = snapshot \<and> is_finished snapshot \<and>
         owned g' owner (Settled snapshot f)
     | Inl e \<Rightarrow> kept {} g g')"
proof (cases "is_running snapshot \<or> ow_task_id owner \<noteq> snapshot_task_id snapshot \<or> rg_poisoned g")
  case True
  with eq show ?thesis
    by (cases "is_running snapshot"; cases "ow_task_id owner = snapshot_task_id snapshot")
      (auto simp: finish_snapshot_def verify_task_id_def locked_def)
next
  case False
  let ?h = "purge_expired now g" and ?tid = "ow_task_id owner"
  note kp = kept_purge [OF inv, of "{}" now]
  show ?thesis
  proof (cases "verify_owner ?h owner")
    case (Inl e)
    with eq False kp show ?thesis
      by (auto simp: finish_snapshot_def verify_task_id_def locked_def)
  next
    case (Inr u)
    consider (old) t where "fmlookup (rg_tasks ?h) ?tid = Some t" "tk_finished_monotonic t \<noteq> None"
      | (store) t where "g' = with_task ?h ?tid t (rg_expirations ?h @ [(?tid, f)])"
        "tk_snapshot t = snapshot" "tk_finished_monotonic t = Some f"
        "\<exists>p. r = Inr p \<and> fp_signal p = ow_signal owner \<and> fp_snapshot p = snapshot"
    proof (cases "fmlookup (rg_tasks ?h) ?tid")
      case None
      with eq False Inr store show thesis
        by (auto simp: finish_snapshot_def verify_task_id_def locked_def Let_def with_task_def)
    next
      case (Some t)
      with eq False Inr store old show thesis
        by (cases "tk_finished_monotonic t")
          (auto simp: finish_snapshot_def verify_task_id_def locked_def Let_def with_task_def)
    qed
    then show ?thesis
    proof cases
      case old
      with eq False Inr kp show ?thesis
        by (auto simp: finish_snapshot_def verify_task_id_def locked_def Let_def)
    next
      case store
      have "owned g' owner (Settled snapshot f)"
        using owned_with_task [OF verify_owned [OF Inr], of t] store(1-3) by (simp add: phase_of_def)
      with store False show ?thesis
        by (auto simp: is_running_iff with_task_def)
    qed
  qed
qed

lemma settled_not_live: "owned g owner (Settled s f) \<Longrightarrow> \<not> live (request_view g (ow_client_request_id owner))"
  by (auto simp: owned_def)

lemma owner_finish_cases:
  assumes inv: "registry_invar g" and eq: "owner_finish g now f later owner snapshot = (r, g')"
  shows "kept {ow_client_request_id owner} g g' \<and>
    (case r of
       Inr p \<Rightarrow> fp_signal p = ow_signal owner \<and> fp_snapshot p = snapshot \<and> is_finished snapshot \<and>
         rg_signals g' = rg_signals g \<and> owned g' owner (Settled snapshot f)
     | Inl e \<Rightarrow> (\<exists>ob. rg_signals g' = (rg_signals g)[ow_signal owner := Some ob]) \<and>
         (owned g owner Reserved \<longrightarrow> closed g' (ow_client_request_id owner)) \<and>
         (\<forall>s l x. owned g owner (Active s l x) \<longrightarrow> owned g' owner (Active s l x)))"
proof -
  obtain r1 g1 where fin: "finish_snapshot g now f owner snapshot = (r1, g1)"
    by fastforce
  note fc = finish_cases [OF inv fin]
  have k: "kept {ow_client_request_id owner} g g1"
    using kept_finish [OF inv, of owner now f snapshot] fin by simp
  show ?thesis
  proof (cases r1)
    case (Inr p)
    with eq fin fc k show ?thesis
      by (auto simp: owner_finish_def)
  next
    case (Inl e)
    have g': "g' = snd (owner_fail g1 later owner (internal_failure e))" "r = Inl e"
      using eq fin Inl by (auto simp: owner_finish_def)
    have inv1: "registry_invar g1"
      using refinesD(1) [OF refines_finish [OF inv, of now "max now f" f owner snapshot]] fin by simp
    have k0: "kept {} g g1"
      using fc Inl by simp
    show ?thesis
      unfolding g'
      using kept_trans [OF k kept_owner_fail [OF inv1]] owner_fail_signals [of g1 later owner] fc Inl
        owner_fail_closed [OF inv1 owned_kept(1) [OF k0]] release_active [OF inv1 owned_kept(2) [OF k0]]
      by (simp add: owner_fail_snd) blast
  qed
qed

lemma reserve_cases:
  assumes inv: "registry_invar g" and eq: "reserve_submit_with g now request tid = (r, g')"
  shows "(\<exists>owner. r = Inr (Owner owner) \<and> ow_client_request_id owner = submit_client_request_id request \<and>
      ow_task_id owner = tid \<and> owned g' owner Reserved \<and> rg_signals g' = rg_signals g @ [None] \<and>
      ow_signal owner = length (rg_signals g) \<and>
      \<not> live (request_view g (submit_client_request_id request))) \<or>
    (\<forall>owner. r \<noteq> Inr (Owner owner)) \<and> kept {} g g' \<and> rg_signals g' = rg_signals g"
proof (cases "rg_poisoned g")
  case True
  with eq show ?thesis
    by (auto simp: reserve_submit_with_def locked_def)
next
  case False
  let ?h = "purge_expired now g" and ?cid = "submit_client_request_id request"
  note kp = kept_purge [OF inv, of "{}" now]
  have inv': "registry_invar ?h"
    by (rule purge_expired_invar [OF inv])
  show ?thesis
  proof (cases "fmlookup (rg_requests ?h) ?cid")
    case (Some x)
    with eq False kp show ?thesis
      by (auto simp: reserve_submit_with_def locked_def Let_def split: if_splits)
  next
    case None
    then have abs: "\<not> live (request_view g ?cid)"
      using keptD [OF kp, of ?cid] by (auto simp: request_view_def view_of_def)
    show ?thesis
    proof (cases "rg_max_tasks g \<le> fmlen (rg_requests ?h) \<or> tid |\<in>| fmdom (rg_task_requests ?h)")
      case True
      with eq False None kp show ?thesis
        by (auto simp: reserve_submit_with_def locked_def Let_def split: if_splits)
    next
      case no: False
      then have "fmlookup (rg_tasks ?h) tid = None"
        using fresh_task [OF inv', of tid] by (simp add: fmdom_notD)
      with eq False None no abs show ?thesis
        by (auto simp: reserve_submit_with_def locked_def Let_def owned_def request_view_def view_of_def
            phase_of_def)
    qed
  qed
qed

section \<open>Sequences of operations\<close>

text \<open>
  A history from any clock up to \<open>c\<close> continues to a clock up to \<open>c'\<close>.
\<close>

definition reach :: "instant \<Rightarrow> registry \<Rightarrow> instant \<Rightarrow> registry \<Rightarrow> bool" where
  "reach c g c' g' \<longleftrightarrow> (\<forall>c0 \<le> c. \<exists>c1 \<le> c'. registry_steps (c0, g) (c1, g'))"

lemma reach_refl: "c \<le> c' \<Longrightarrow> reach c g c' g"
  unfolding reach_def registry_steps_def by (meson order_trans rtranclp.rtrancl_refl)

lemma registry_steps_trans: "registry_steps x y \<Longrightarrow> registry_steps y z \<Longrightarrow> registry_steps x z"
  unfolding registry_steps_def by (rule rtranclp_trans)

lemma reach_trans: "reach c g c' h \<Longrightarrow> reach c' h c'' g' \<Longrightarrow> reach c g c'' g'"
  unfolding reach_def by (meson registry_steps_trans)

lemma reach_step:
  assumes "\<And>c0. c0 \<le> c \<Longrightarrow> registry_step c0 g (now c0) g'" "\<And>c0. c0 \<le> c \<Longrightarrow> now c0 \<le> c'"
  shows "reach c g c' g'"
  unfolding reach_def registry_steps_def
proof (intro allI impI)
  fix c0
  assume "c0 \<le> c"
  with assms [of c0] show "\<exists>c1\<le>c'. (\<lambda>x y. registry_step (fst x) (snd x) (fst y) (snd y))\<^sup>*\<^sup>* (c0, g) (c1, g')"
    by (intro exI [of _ "now c0"]) (simp add: r_into_rtranclp)
qed

definition registry_by :: "nat \<Rightarrow> instant \<Rightarrow> registry \<Rightarrow> bool" where
  "registry_by n c g \<longleftrightarrow> (\<exists>c0 \<le> c. registry_run n c0 g)"

lemma run_steps:
  "registry_steps x y \<Longrightarrow> registry_run n (fst x) (snd x) \<Longrightarrow> registry_run n (fst y) (snd y)"
  unfolding registry_steps_def by (induction rule: rtranclp_induct) (auto intro: registry_run.step)

lemma registry_by_reach: "registry_by n c g \<Longrightarrow> reach c g c' g' \<Longrightarrow> registry_by n c' g'"
  unfolding registry_by_def reach_def by (metis fst_conv run_steps snd_conv)

lemma registry_by_invar: "registry_by n c g \<Longrightarrow> registry_invar g"
  by (auto simp: registry_by_def intro: run_invar)

lemma reach_operations:
  assumes "c \<le> now" "now \<le> c'"
  shows "reach c g c' (snd (reserve_submit_with g now request tid))"
    and "reach c g c' (snd (owner_fail g now owner failure))"
    and "reach c g c' (snd (rollback_before_running g now owner failure))"
    and "reach c g c' (owner_drop g now owner)"
    and "x < length (rg_cancellations g) \<Longrightarrow> reach c g c' (snd (publish_running g now owner snapshot l x))"
  using assms by (auto intro!: reach_step [where now = "\<lambda>_. now"] registry_step.intros)

lemma reach_finish:
  assumes "c \<le> now" "now \<le> f" "f \<le> later" "later \<le> c'"
  shows "reach c g c' (snd (owner_finish g now f later owner snapshot))"
  using assms by (intro reach_step [where now = "\<lambda>_. later"] registry_step.intros) auto

lemma reach_silent:
  "c \<le> c' \<Longrightarrow> reach c g c' (snd (publish_completion p g))"
  "c \<le> c' \<Longrightarrow> reach c g c' (snd (cancellation_channel g))"
  by (rule reach_step [where now = "\<lambda>c. c"]; simp add: registry_step.intros)+

lemma cancellations_locked:
  "(\<And>h. length (rg_cancellations (snd (f h))) = length (rg_cancellations h)) \<Longrightarrow>
   length (rg_cancellations (snd (locked g now f))) = length (rg_cancellations g)"
  by (simp add: locked_def)

lemma cancellations_signal [simp]: "rg_cancellations (publish_signal k ob g) = rg_cancellations g"
  by (simp add: publish_signal_def)

lemma cancellations_operations:
  "length (rg_cancellations (snd (reserve_submit_with g now request tid))) = length (rg_cancellations g)"
  "length (rg_cancellations (snd (existing_submit g now request))) = length (rg_cancellations g)"
  "length (rg_cancellations (snd (registry_snapshot g now tid))) = length (rg_cancellations g)"
  "length (rg_cancellations (snd (snapshot_by_client_request_id g now cid))) = length (rg_cancellations g)"
  "length (rg_cancellations (snd (has_client_request_id g now cid))) = length (rg_cancellations g)"
  "length (rg_cancellations (snd (effective_limits_for g now tid ob))) = length (rg_cancellations g)"
  "length (rg_cancellations (snd (request_cancel g now tid))) = length (rg_cancellations g)"
  "length (rg_cancellations (snd (release_failed_owner g now owner))) = length (rg_cancellations g)"
  "length (rg_cancellations (snd (publish_running g now owner snapshot l x))) = length (rg_cancellations g)"
  "length (rg_cancellations (snd (finish_snapshot g now f owner snapshot))) = length (rg_cancellations g)"
  unfolding reserve_submit_with_def existing_submit_def registry_snapshot_def
    snapshot_by_client_request_id_def has_client_request_id_def effective_limits_for_def
    request_cancel_def release_failed_owner_def publish_running_def finish_snapshot_def Let_def
  by (auto intro!: cancellations_locked split: option.split sum.split)

lemma cancellations_owner:
  "length (rg_cancellations (snd (owner_fail g now owner failure))) = length (rg_cancellations g)"
  "length (rg_cancellations (snd (rollback_before_running g now owner failure))) = length (rg_cancellations g)"
  "length (rg_cancellations (snd (owner_finish g now f later owner snapshot))) = length (rg_cancellations g)"
proof -
  show f: "length (rg_cancellations (snd (owner_fail g now owner failure))) = length (rg_cancellations g)"
    for g now failure
    by (simp add: owner_fail_snd cancellations_operations)
  show "length (rg_cancellations (snd (rollback_before_running g now owner failure))) = length (rg_cancellations g)"
    using rollback_snd [of g now owner failure] by (auto simp: cancellations_operations)
  show "length (rg_cancellations (snd (owner_finish g now f later owner snapshot))) = length (rg_cancellations g)"
    using f by (simp add: owner_finish_def split_beta cancellations_operations split: sum.split)
qed

lemma step_cancellations:
  "registry_step c g c' g' \<Longrightarrow> length (rg_cancellations g) \<le> length (rg_cancellations g')"
  by (induction rule: registry_step.induct)
    (simp_all add: cancellations_operations cancellations_owner owner_drop_def publish_completion_def
      cancellation_channel_def Let_def split: option.split)

lemma steps_cancellations:
  "registry_steps x y \<Longrightarrow> length (rg_cancellations (snd x)) \<le> length (rg_cancellations (snd y))"
  unfolding registry_steps_def
  by (induction rule: rtranclp_induct) (auto dest: step_cancellations)

lemma reach_cancellations:
  "reach c g c' g' \<Longrightarrow> length (rg_cancellations g) \<le> length (rg_cancellations g')"
  using steps_cancellations unfolding reach_def by fastforce

lemma locked_poisoned [simp]: "rg_poisoned g \<Longrightarrow> locked g now f = (Err StateUnavailable, g)"
  by (simp add: locked_def)

lemma step_poisoned: "registry_step c g c' g' \<Longrightarrow> rg_poisoned g \<Longrightarrow> rg_poisoned g'"
proof (induction rule: registry_step.induct)
  case (9 c now f later g owner snapshot)
  then show ?case
    by (simp add: owner_finish_def finish_snapshot_def owner_fail_def release_failed_owner_def Let_def
        split_beta split: sum.split)
qed (simp_all add: reserve_submit_with_def existing_submit_def registry_snapshot_def
    snapshot_by_client_request_id_def has_client_request_id_def effective_limits_for_def
    request_cancel_def publish_running_def owner_fail_def rollback_before_running_def
    release_failed_owner_def owner_drop_def publish_completion_def cancellation_channel_def Let_def
    split: sum.split option.split)

lemma steps_poisoned: "registry_steps x y \<Longrightarrow> rg_poisoned (snd x) \<Longrightarrow> rg_poisoned (snd y)"
  unfolding registry_steps_def by (induction rule: rtranclp_induct) (auto dest: step_poisoned)

lemma reach_poisoned: "reach c g c' g' \<Longrightarrow> rg_poisoned g \<Longrightarrow> rg_poisoned g'"
  using steps_poisoned unfolding reach_def by fastforce

end
