(* ===== verification/Capacity.thy ===== *)
theory Capacity
  imports Prelude
begin

text \<open>
  The non-blocking task slots of \<open>daemon/src/capacity.rs\<close>. The compare-and-exchange loop of
  \<open>try_acquire\<close> is modelled at the grain of its atomic operations, so that the bound on running
  tasks is proved for every interleaving of threads that acquire, return and retain permits.
  Waiting for idleness is asynchronous and is represented by the notification a returned permit
  sends.
\<close>

datatype capacity_settings_error = ZeroMaximum

definition capacity_settings_new :: "u32 \<Rightarrow> capacity_settings_error + u32" where
  "capacity_settings_new maximum = (if maximum = 0 then Err ZeroMaximum else Ok maximum)"

record task_capacity =
  tc_max :: u32
  tc_in_use :: u32
  tc_retained :: u32

definition task_capacity_new :: "u32 \<Rightarrow> task_capacity" where
  "task_capacity_new maximum = \<lparr>tc_max = maximum, tc_in_use = 0, tc_retained = 0\<rparr>"

text \<open>\<open>try_acquire\<close> without interference: \<open>None\<close> is a full pool.\<close>

definition try_acquire :: "task_capacity \<Rightarrow> task_capacity option" where
  "try_acquire c =
     (if tc_max c \<le> tc_in_use c then None else Some (c\<lparr>tc_in_use := tc_in_use c + 1\<rparr>))"

definition retain_for_fail_stop :: "task_capacity \<Rightarrow> task_capacity" where
  "retain_for_fail_stop c = c\<lparr>tc_retained := tc_retained c + 1\<rparr>"

text \<open>Dropping a permit that is returned; the flag is the notification of idle waiters.\<close>

definition drop_permit :: "task_capacity \<Rightarrow> bool \<times> task_capacity" where
  "drop_permit c = (tc_in_use c = 1, c\<lparr>tc_in_use := tc_in_use c - 1\<rparr>)"

section \<open>Interleaved threads\<close>

text \<open>
  A thread inside the loop holds the value it last saw. One iteration either refuses, exchanges
  the counter, or fails (possibly spuriously) and reloads it.
\<close>

datatype acquire_outcome = Refused | Acquired task_capacity | Retry u32

definition acquire_iteration :: "task_capacity \<Rightarrow> u32 \<Rightarrow> bool \<Rightarrow> acquire_outcome" where
  "acquire_iteration c current spurious =
     (if tc_max c \<le> current then Refused
      else if tc_in_use c = current \<and> \<not> spurious
        then Acquired (c\<lparr>tc_in_use := current + 1\<rparr>)
      else Retry (tc_in_use c))"

record pool =
  pl_capacity :: task_capacity
  pl_loops :: "nat \<Rightarrow> u32 option"
  pl_permits :: nat

inductive pool_step :: "pool \<Rightarrow> pool \<Rightarrow> bool" where
  enter: "pl_loops p t = None \<Longrightarrow>
    pool_step p (p\<lparr>pl_loops := (pl_loops p)(t \<mapsto> tc_in_use (pl_capacity p))\<rparr>)"
| refuse: "pl_loops p t = Some v \<Longrightarrow> acquire_iteration (pl_capacity p) v spurious = Refused \<Longrightarrow>
    pool_step p (p\<lparr>pl_loops := (pl_loops p)(t := None)\<rparr>)"
| acquire: "pl_loops p t = Some v \<Longrightarrow> acquire_iteration (pl_capacity p) v spurious = Acquired c \<Longrightarrow>
    pool_step p (p\<lparr>pl_capacity := c, pl_loops := (pl_loops p)(t := None),
                   pl_permits := Suc (pl_permits p)\<rparr>)"
| retry: "pl_loops p t = Some v \<Longrightarrow> acquire_iteration (pl_capacity p) v spurious = Retry w \<Longrightarrow>
    pool_step p (p\<lparr>pl_loops := (pl_loops p)(t \<mapsto> w)\<rparr>)"
| give_back: "pl_permits p = Suc n \<Longrightarrow>
    pool_step p (p\<lparr>pl_capacity := snd (drop_permit (pl_capacity p)), pl_permits := n\<rparr>)"
| retain: "pl_permits p = Suc n \<Longrightarrow>
    pool_step p (p\<lparr>pl_capacity := retain_for_fail_stop (pl_capacity p), pl_permits := n\<rparr>)"

definition pool_new :: "u32 \<Rightarrow> pool" where
  "pool_new maximum =
     \<lparr>pl_capacity = task_capacity_new maximum, pl_loops = (\<lambda>_. None), pl_permits = 0\<rparr>"

definition capacity_invar :: "task_capacity \<Rightarrow> nat \<Rightarrow> bool" where
  "capacity_invar c permits \<longleftrightarrow>
     tc_in_use c \<le> tc_max c \<and> unat (tc_in_use c) = permits + unat (tc_retained c)"

lemma unat_Suc_u32:
  fixes x y :: u32
  assumes "x < y"
  shows "unat (x + 1) = Suc (unat x)"
proof -
  have "unat x < unat y" "unat y < 2 ^ 32"
    using assms unsigned_less [of y, where ?'a = nat] by (simp_all add: word_less_nat_alt)
  then show ?thesis
    by (simp add: unat_word_ariths)
qed

lemma try_acquire_invar [inv_intros]:
  "capacity_invar c n \<Longrightarrow> try_acquire c = Some c' \<Longrightarrow> capacity_invar c' (Suc n)"
  using unat_Suc_u32 [of "tc_in_use c" "tc_max c"]
  by (auto simp: capacity_invar_def try_acquire_def not_le word_le_nat_alt word_less_nat_alt
      split: if_splits)

lemma drop_permit_invar [inv_intros]:
  assumes "capacity_invar c (Suc n)"
  shows "capacity_invar (snd (drop_permit c)) n"
proof -
  have "unat (tc_in_use c - 1) = unat (tc_in_use c) - 1"
    using assms by (intro unat_minus_one) (auto simp: capacity_invar_def)
  with assms show ?thesis
    by (auto simp: capacity_invar_def drop_permit_def word_le_nat_alt)
qed

lemma retain_invar [inv_intros]:
  assumes "capacity_invar c (Suc n)"
  shows "capacity_invar (retain_for_fail_stop c) n"
proof -
  have "tc_retained c < tc_in_use c"
    using assms by (simp add: capacity_invar_def word_less_nat_alt)
  with assms show ?thesis
    by (simp add: capacity_invar_def retain_for_fail_stop_def unat_Suc_u32)
qed

lemma acquire_iteration_Acquired:
  "acquire_iteration c v spurious = Acquired c' \<Longrightarrow> try_acquire c = Some c'"
  by (auto simp: acquire_iteration_def try_acquire_def split: if_splits)

lemma pool_step_invar:
  "pool_step p q \<Longrightarrow> capacity_invar (pl_capacity p) (pl_permits p) \<Longrightarrow>
   capacity_invar (pl_capacity q) (pl_permits q)"
  by (induction rule: pool_step.induct) (auto intro: inv_intros dest!: acquire_iteration_Acquired)

lemma pool_step_max: "pool_step p q \<Longrightarrow> tc_max (pl_capacity q) = tc_max (pl_capacity p)"
  by (induction rule: pool_step.induct)
    (auto dest!: acquire_iteration_Acquired
      simp: drop_permit_def retain_for_fail_stop_def try_acquire_def split: if_splits)

lemma pool_step_retained:
  "pool_step p q \<Longrightarrow> capacity_invar (pl_capacity p) (pl_permits p) \<Longrightarrow>
   tc_retained (pl_capacity p) \<le> tc_retained (pl_capacity q)"
proof (induction rule: pool_step.induct)
  case (retain p n)
  then have "tc_retained (pl_capacity p) < tc_in_use (pl_capacity p)"
    by (simp add: capacity_invar_def word_less_nat_alt)
  then show ?case
    by (simp add: retain_for_fail_stop_def word_le_nat_alt unat_Suc_u32)
qed (auto dest!: acquire_iteration_Acquired simp: drop_permit_def try_acquire_def split: if_splits)

lemma pool_reachable:
  assumes "pool_step\<^sup>*\<^sup>* (pool_new maximum) p"
  shows "capacity_invar (pl_capacity p) (pl_permits p) \<and> tc_max (pl_capacity p) = maximum"
  using assms
proof induction
  case base
  then show ?case
    by (simp add: pool_new_def task_capacity_new_def capacity_invar_def)
next
  case (step p q)
  then show ?case
    using pool_step_invar pool_step_max by auto
qed

section \<open>Properties\<close>

text \<open>
  The concurrency limit holds under every interleaving. In every state that threads can
  reach from a new pool by running the acquire loop, returning permits and retaining permits for
  fail-stop, in any order and with spurious exchange failures, the permits handed out and not
  returned together with the retained ones are exactly the counter, which never exceeds the
  maximum (so neither counter wraps), and no step ever lowers the number of retained slots. A
  thread that finds the pool below its maximum and is not disturbed is granted a slot in its
  next iteration, and a full pool refuses it.
\<close>

theorem slots_never_exceed_maximum:
  assumes "pool_step\<^sup>*\<^sup>* (pool_new maximum) p"
  shows "pl_permits p + unat (tc_retained (pl_capacity p)) = unat (tc_in_use (pl_capacity p)) \<and>
    pl_permits p + unat (tc_retained (pl_capacity p)) \<le> unat maximum \<and>
    (\<forall>q. pool_step p q \<longrightarrow> tc_retained (pl_capacity p) \<le> tc_retained (pl_capacity q)) \<and>
    acquire_iteration (pl_capacity p) (tc_in_use (pl_capacity p)) False =
      (if pl_permits p + unat (tc_retained (pl_capacity p)) < unat maximum
       then Acquired ((pl_capacity p)\<lparr>tc_in_use := tc_in_use (pl_capacity p) + 1\<rparr>) else Refused)"
proof -
  note reach = pool_reachable [OF assms]
  have "\<forall>q. pool_step p q \<longrightarrow> tc_retained (pl_capacity p) \<le> tc_retained (pl_capacity q)"
    using reach pool_step_retained by blast
  with reach show ?thesis
    by (auto simp: capacity_invar_def acquire_iteration_def word_le_nat_alt)
qed

theorem slots_never_exceed_maximum_witness:
  "\<exists>p. pool_step\<^sup>*\<^sup>* (pool_new 1) p \<and> tc_in_use (pl_capacity p) = 1 \<and>
     pl_permits p + unat (tc_retained (pl_capacity p)) \<le> 1 \<and>
     acquire_iteration (pl_capacity p) (tc_in_use (pl_capacity p)) False = Refused"
proof -
  let ?p = "pool_new 1"
  let ?q = "?p\<lparr>pl_loops := (pl_loops ?p)(7 \<mapsto> 0)\<rparr>"
  let ?c = "(task_capacity_new 1)\<lparr>tc_in_use := 1\<rparr>"
  let ?r = "?q\<lparr>pl_capacity := ?c, pl_loops := (pl_loops ?q)(7 := None), pl_permits := Suc 0\<rparr>"
  have "pool_step ?p ?q"
    using pool_step.enter [of ?p 7] by (simp add: pool_new_def task_capacity_new_def)
  moreover have "pool_step ?q ?r"
    using pool_step.acquire [of ?q 7 0 False ?c]
    by (simp add: pool_new_def task_capacity_new_def acquire_iteration_def)
  ultimately have "pool_step\<^sup>*\<^sup>* ?p ?r"
    by (meson converse_rtranclp_into_rtranclp r_into_rtranclp)
  from slots_never_exceed_maximum [OF this] this show ?thesis
    by (intro exI [of _ ?r]) (simp add: task_capacity_new_def)
qed

end
