(* ===== verification/Fail_Stop.thy ===== *)
theory Fail_Stop
  imports Lifecycle
begin

text \<open>
  The fail-stop coordinator of \<open>daemon/src/fail_stop.rs\<close>. Its state is guarded by one mutex, so
  every operation is one atomic step; the clock is an argument. The first cleanup failure wins
  and is never forgotten, no start gate opens after it, and a start gate opens at most once.
\<close>

datatype fail_stop_settings_error = ZeroTimeout | UnrepresentableTimeout

definition fail_stop_settings_new ::
  "instant \<Rightarrow> duration \<Rightarrow> fail_stop_settings_error + duration" where
  "fail_stop_settings_new now timeout =
     (if timeout = 0 then Err ZeroTimeout
      else if deadline_from_start now timeout = None then Err UnrepresentableTimeout
      else Ok timeout)"

record cleanup_failure_report =
  cf_task_id :: string
  cf_stage :: string
  cf_uncleaned :: "string list"
  cf_retry :: string

datatype phase = Healthy | FailStopping monotonic_deadline cleanup_failure_report

datatype start_state = Pending | Committing | Committed | Failed

datatype 'e start_commit_error =
    CommitFailStopping monotonic_deadline
  | NotActive string
  | AlreadyResolved string string
  | Gate 'e

datatype active_execution_error = DuplicateTask string

record fail_stop =
  fs_timeout :: duration
  fs_phase :: phase
  fs_active :: "(string, start_state) fmap"

definition fail_stop_new :: "duration \<Rightarrow> fail_stop" where
  "fail_stop_new timeout = \<lparr>fs_timeout = timeout, fs_phase = Healthy, fs_active = fmempty\<rparr>"

definition is_fail_stopping :: "fail_stop \<Rightarrow> bool" where
  "is_fail_stopping s = (case fs_phase s of Healthy \<Rightarrow> False | FailStopping _ _ \<Rightarrow> True)"

definition fail_stop_deadline :: "fail_stop \<Rightarrow> monotonic_deadline option" where
  "fail_stop_deadline s = (case fs_phase s of Healthy \<Rightarrow> None | FailStopping d _ \<Rightarrow> Some d)"

definition first_report :: "fail_stop \<Rightarrow> cleanup_failure_report option" where
  "first_report s = (case fs_phase s of Healthy \<Rightarrow> None | FailStopping _ r \<Rightarrow> Some r)"

definition active_count :: "fail_stop \<Rightarrow> nat" where
  "active_count s = fmlen (fs_active s)"

text \<open>
  \<open>try_admit\<close> hands out the lock when the coordinator is healthy; \<open>register\<close> uses it.
\<close>

definition try_admit :: "fail_stop \<Rightarrow> bool" where
  "try_admit s = (case fs_phase s of Healthy \<Rightarrow> True | FailStopping _ _ \<Rightarrow> False)"

definition register :: "fail_stop \<Rightarrow> string \<Rightarrow> active_execution_error + fail_stop" where
  "register s task_id =
     (if task_id |\<in>| fmdom (fs_active s) then Err (DuplicateTask task_id)
      else Ok (s\<lparr>fs_active := fmupd task_id Pending (fs_active s)\<rparr>))"

definition activation_deadline :: "fail_stop \<Rightarrow> instant \<Rightarrow> monotonic_deadline" where
  "activation_deadline s now =
     (case deadline_from_start now (fs_timeout s) of Some d \<Rightarrow> d | None \<Rightarrow> deadline_expired_at now)"

definition activate ::
  "fail_stop \<Rightarrow> instant \<Rightarrow> cleanup_failure_report \<Rightarrow> monotonic_deadline \<times> fail_stop" where
  "activate s now report =
     (case fs_phase s of
        FailStopping deadline _ \<Rightarrow> (deadline, s)
      | Healthy \<Rightarrow>
          let deadline = activation_deadline s now
          in (deadline, s\<lparr>fs_phase := FailStopping deadline report\<rparr>))"

text \<open>\<open>commit_start\<close>; \<open>gate\<close> is the outcome of calling the gate closure.\<close>

definition commit_start ::
  "fail_stop \<Rightarrow> string \<Rightarrow> 'e + 't \<Rightarrow> ('e start_commit_error + 't) \<times> fail_stop" where
  "commit_start s task_id gate =
     (case fs_phase s of
        FailStopping deadline _ \<Rightarrow> (Err (CommitFailStopping deadline), s)
      | Healthy \<Rightarrow>
          (case fmlookup (fs_active s) task_id of
             None \<Rightarrow> (Err (NotActive task_id), s)
           | Some Committing \<Rightarrow> (Err (AlreadyResolved task_id ''committing''), s)
           | Some Committed \<Rightarrow> (Err (AlreadyResolved task_id ''committed''), s)
           | Some Failed \<Rightarrow> (Err (AlreadyResolved task_id ''failed''), s)
           | Some Pending \<Rightarrow>
               (case gate of
                  Inr committed \<Rightarrow>
                    (Ok committed, s\<lparr>fs_active := fmupd task_id Committed (fs_active s)\<rparr>)
                | Inl e \<Rightarrow>
                    (Err (Gate e), s\<lparr>fs_active := fmupd task_id Failed (fs_active s)\<rparr>))))"

text \<open>\<open>complete\<close>; the flag is the notification of a removed execution.\<close>

definition fail_stop_complete :: "fail_stop \<Rightarrow> string \<Rightarrow> bool \<times> fail_stop" where
  "fail_stop_complete s task_id =
     (task_id |\<in>| fmdom (fs_active s), s\<lparr>fs_active := fmdrop task_id (fs_active s)\<rparr>)"

text \<open>The Korean texts of the report are given in English.\<close>

definition ownership_lost_report :: "string \<Rightarrow> cleanup_failure_report" where
  "ownership_lost_report task_id =
     \<lparr>cf_task_id = task_id, cf_stage = ''active execution ownership end'',
      cf_uncleaned = [''execution lifecycle''],
      cf_retry = ''ownership ended without a cleanup result''\<rparr>"

definition active_execution_drop :: "fail_stop \<Rightarrow> instant \<Rightarrow> string \<Rightarrow> bool \<Rightarrow> fail_stop" where
  "active_execution_drop s now task_id resolved =
     (if resolved then s else snd (activate s now (ownership_lost_report task_id)))"

text \<open>
  \<open>wait_until_inactive\<close> returns when no execution is active or the deadline has passed; each
  look is the coordinator and the clock at that moment, and \<open>None\<close> is still waiting.
\<close>

fun wait_until_inactive :: "monotonic_deadline \<Rightarrow> (fail_stop \<times> instant) list \<Rightarrow> nat option" where
  "wait_until_inactive deadline [] = None"
| "wait_until_inactive deadline ((s, now) # rest) =
     (if active_count s = 0 then Some 0
      else if remaining_at deadline now = None then Some (active_count s)
      else wait_until_inactive deadline rest)"

section \<open>Histories\<close>

datatype fail_stop_event =
    Admit string
  | Activate instant cleanup_failure_report
  | CommitStart string bool
  | Complete string
  | DropOwner instant string

fun gate_outcome :: "bool \<Rightarrow> unit + unit" where
  "gate_outcome True = Ok ()"
| "gate_outcome False = Err ()"

fun fail_stop_apply :: "fail_stop \<Rightarrow> fail_stop_event \<Rightarrow> fail_stop" where
  "fail_stop_apply s (Admit task_id) =
     (if try_admit s then case register s task_id of Inr s' \<Rightarrow> s' | Inl _ \<Rightarrow> s else s)"
| "fail_stop_apply s (Activate now report) = snd (activate s now report)"
| "fail_stop_apply s (CommitStart task_id opens) = snd (commit_start s task_id (gate_outcome opens))"
| "fail_stop_apply s (Complete task_id) = snd (fail_stop_complete s task_id)"
| "fail_stop_apply s (DropOwner now task_id) = active_execution_drop s now task_id False"

text \<open>The events that call the gate closure of a task.\<close>

fun calls_gate :: "string \<Rightarrow> fail_stop \<Rightarrow> fail_stop_event \<Rightarrow> bool" where
  "calls_gate task_id s (CommitStart t opens) =
     (t = task_id \<and>
      (case fst (commit_start s t (gate_outcome opens)) of
         Inr _ \<Rightarrow> True | Inl (Gate _) \<Rightarrow> True | _ \<Rightarrow> False))"
| "calls_gate task_id s _ = False"

fun gate_calls :: "string \<Rightarrow> fail_stop \<Rightarrow> fail_stop_event list \<Rightarrow> nat" where
  "gate_calls task_id s [] = 0"
| "gate_calls task_id s (e # es) =
     (if calls_gate task_id s e then 1 else 0) + gate_calls task_id (fail_stop_apply s e) es"

definition fail_stop_run :: "fail_stop \<Rightarrow> fail_stop_event list \<Rightarrow> fail_stop" where
  "fail_stop_run s es = foldl fail_stop_apply s es"

section \<open>Lemmas\<close>

lemmas fail_stop_defs = try_admit_def register_def activate_def commit_start_def
  fail_stop_complete_def active_execution_drop_def Let_def

text \<open>Activation is a first-wins value: the deadline and the report of the first failure.\<close>

interpretation activation: first_wins "\<lambda>_ :: fail_stop. True" first_report
  "\<lambda>s report. (\<not> is_fail_stopping s, snd (activate s now report))" for now
  by unfold_locales
    (auto simp: first_report_def is_fail_stopping_def activate_def Let_def split: phase.splits)

lemma fail_stopping_absorbing:
  assumes "fs_phase s = FailStopping d r"
  shows "fs_phase (fail_stop_apply s e) = FailStopping d r"
    and "\<not> calls_gate task_id s e"
    and "fmdom (fs_active (fail_stop_apply s e)) |\<subseteq>| fmdom (fs_active s)"
  using assms by (cases e; auto simp: fail_stop_defs)+

lemma fail_stop_run_absorbing:
  "fs_phase s = FailStopping d r \<Longrightarrow>
   fs_phase (fail_stop_run s es) = FailStopping d r \<and> gate_calls task_id s es = 0 \<and>
   fmdom (fs_active (fail_stop_run s es)) |\<subseteq>| fmdom (fs_active s)"
proof (induction es arbitrary: s)
  case (Cons e es)
  note step = fail_stopping_absorbing [OF Cons.prems, where e = e]
  from Cons.IH [OF step(1)] step(2,3) show ?case
    by (simp add: fail_stop_run_def) (metis order_trans)
qed (simp add: fail_stop_run_def)

definition resolved :: "string \<Rightarrow> fail_stop \<Rightarrow> bool" where
  "resolved task_id s \<longleftrightarrow>
     fmlookup (fs_active s) task_id = Some Committed \<or> fmlookup (fs_active s) task_id = Some Failed"

lemma resolved_no_gate: "resolved task_id s \<Longrightarrow> \<not> calls_gate task_id s e"
  by (cases e) (auto simp: resolved_def commit_start_def split: phase.splits)

lemma resolved_stays:
  "resolved task_id s \<Longrightarrow> e \<noteq> Complete task_id \<Longrightarrow> resolved task_id (fail_stop_apply s e)"
  by (cases e)
    (auto simp: resolved_def fail_stop_defs intro: fmdomI
      split: phase.splits option.splits start_state.splits sum.splits if_splits)

lemma gate_resolves: "calls_gate task_id s e \<Longrightarrow> resolved task_id (fail_stop_apply s e)"
  by (cases e)
    (auto simp: resolved_def commit_start_def
      split: phase.splits option.splits start_state.splits sum.splits)

lemma gate_calls_resolved:
  "resolved task_id s \<Longrightarrow> Complete task_id \<notin> set es \<Longrightarrow> gate_calls task_id s es = 0"
  by (induction es arbitrary: s) (auto simp: resolved_no_gate resolved_stays)

lemma gate_calls_at_most_once:
  "Complete task_id \<notin> set es \<Longrightarrow> gate_calls task_id s es \<le> 1"
  by (induction es arbitrary: s) (auto simp: gate_calls_resolved gate_resolves)

lemma registered_pending:
  "fmlookup (fs_active s) task_id = None \<Longrightarrow> fs_phase s = Healthy \<Longrightarrow>
   fmlookup (fs_active (fail_stop_apply s (Admit task_id))) task_id = Some Pending"
  by (auto simp: fail_stop_defs fmlookup_dom_iff)

section \<open>Properties\<close>

text \<open>
  C38: Fail-stop is absorbing and remembers its first cause. Once activated, whatever happens
  next (admissions, further failures, start commits, completions, lost owners), the coordinator
  stays in fail-stop with the deadline and the report of the first activation, no task is added
  to the active ones, and no start gate is opened. The deadline is the activation instant plus the configured
  timeout, or already expired when that instant is not representable.
\<close>

theorem fail_stop_absorbing:
  assumes "\<not> is_fail_stopping s"
  shows "let s' = fail_stop_run (snd (activate s now report)) es in
    fail_stop_deadline s' = Some (fst (activate s now report)) \<and>
    first_report s' = Some report \<and>
    fmdom (fs_active s') |\<subseteq>| fmdom (fs_active s) \<and>
    gate_calls task_id (snd (activate s now report)) es = 0 \<and>
    md_at (fst (activate s now report)) =
      (if 0 < fs_timeout s \<and> now + fs_timeout s < instant_limit then now + fs_timeout s else now)"
proof -
  have act: "activate s now report =
      (activation_deadline s now, s\<lparr>fs_phase := FailStopping (activation_deadline s now) report\<rparr>)"
    using assms by (simp add: activate_def is_fail_stopping_def Let_def split: phase.splits)
  have "md_at (activation_deadline s now) =
      (if 0 < fs_timeout s \<and> now + fs_timeout s < instant_limit then now + fs_timeout s else now)"
    by (auto simp: activation_deadline_def deadline_from_start_def instant_checked_add_def
        deadline_expired_at_def)
  then show ?thesis
    using fail_stop_run_absorbing [of "snd (activate s now report)"]
    by (simp add: act fail_stop_deadline_def first_report_def Let_def)
qed

theorem fail_stop_absorbing_witness:
  "first_report (fail_stop_run (snd (activate (fail_stop_new 10) 3 (ownership_lost_report ''a'')))
     [Admit ''b'', Activate 9 (ownership_lost_report ''c''), CommitStart ''b'' True]) =
   Some (ownership_lost_report ''a'')"
  using fail_stop_absorbing [of "fail_stop_new 10" 3 "ownership_lost_report ''a''"]
  by (simp add: Let_def fail_stop_new_def is_fail_stopping_def)

text \<open>
  A start gate opens at most once per execution, and only while healthy. In any history in
  which a task's ownership is not completed (so that its id is not reused), its gate closure is
  called at most once, whether it succeeds or fails; a task that is registered in a healthy
  coordinator and not yet committed is committed by its first \<open>commit_start\<close>.
\<close>

theorem start_gate_at_most_once:
  assumes "Complete task_id \<notin> set es"
  shows "gate_calls task_id s es \<le> 1 \<and>
    (fs_phase s = Healthy \<and> fmlookup (fs_active s) task_id = None \<longrightarrow>
       fst (commit_start (fail_stop_apply s (Admit task_id)) task_id (Inr v)) = Inr v)"
proof -
  have "fs_phase (fail_stop_apply s (Admit task_id)) = Healthy" if "fs_phase s = Healthy"
    using that by (simp add: fail_stop_defs)
  then show ?thesis
    using gate_calls_at_most_once [OF assms, of s] registered_pending [of s task_id]
    by (auto simp: commit_start_def)
qed

theorem start_gate_at_most_once_witness:
  "gate_calls ''a'' (fail_stop_new 10) [Admit ''a'', CommitStart ''a'' True, Admit ''a'', CommitStart ''a'' True] = 1 \<and>
   gate_calls ''a'' (fail_stop_new 10) [Admit ''a'', CommitStart ''a'' True, Admit ''a'', CommitStart ''a'' True] \<le> 1 \<and>
   fst (commit_start (fail_stop_apply (fail_stop_new 10) (Admit ''a'')) ''a'' (Inr (0 :: nat)) :: (unit start_commit_error + nat) \<times> fail_stop) = Inr 0"
  using start_gate_at_most_once [of "''a''"
      "[Admit ''a'', CommitStart ''a'' True, Admit ''a'', CommitStart ''a'' True]" "fail_stop_new 10" "0 :: nat"]
  by (simp add: fail_stop_new_def fail_stop_defs)

end
