(* ===== verification/Metrics.thy ===== *)
theory Metrics
  imports Task "HOL-Library.Sublist"
begin

text \<open>
  The daemon-wide counters of \<open>daemon/src/metrics.rs\<close>, their Prometheus text and the HTTP response
  that carries it. Counters are 64-bit atomics whose \<open>fetch_add\<close> wraps. A duration bucket compares
  \<open>wall_time_ms as f64 / 1000.0\<close> with a literal number of seconds; both are the correctly rounded
  quotient of an integer by 1000, rounding is monotone and the bounds are small, so the comparison
  is the one of the integers, which is how it is written here. The sum of durations is printed
  with three decimals, which is exact below \<open>2 ^ 52\<close> milliseconds.
\<close>

section \<open>Counters\<close>

definition DURATION_BUCKETS_MILLIS :: "u64 list" where
  "DURATION_BUCKETS_MILLIS = [10, 50, 100, 500, 1000, 5000, 30000, 60000]"

definition DURATION_BUCKET_TEXTS :: "string list" where
  "DURATION_BUCKET_TEXTS = [''0.01'', ''0.05'', ''0.1'', ''0.5'', ''1'', ''5'', ''30'', ''60'']"

definition TERMINATION_REASONS :: "termination_reason list" where
  "TERMINATION_REASONS =
     [Exited, ExecutionFailed, ReasonCancelled, ReasonTimedOut, MemoryLimitExceeded,
      ProcessLimitExceeded, DaemonError]"

record runtime_metrics =
  rm_tasks_started :: u64
  rm_tasks_finished :: "u64 list"
  rm_cleanup_verified :: u64
  rm_duration_count :: u64
  rm_duration_sum_millis :: u64
  rm_duration_buckets :: "u64 list"

definition metrics_default :: runtime_metrics where
  "metrics_default =
     \<lparr>rm_tasks_started = 0, rm_tasks_finished = replicate 7 0, rm_cleanup_verified = 0,
      rm_duration_count = 0, rm_duration_sum_millis = 0,
      rm_duration_buckets = replicate (length DURATION_BUCKETS_MILLIS) 0\<rparr>"

fun outcome_index :: "termination_reason \<Rightarrow> nat" where
  "outcome_index Exited = 0"
| "outcome_index ExecutionFailed = 1"
| "outcome_index ReasonCancelled = 2"
| "outcome_index ReasonTimedOut = 3"
| "outcome_index MemoryLimitExceeded = 4"
| "outcome_index ProcessLimitExceeded = 5"
| "outcome_index DaemonError = 6"

fun outcome_name :: "termination_reason \<Rightarrow> string" where
  "outcome_name Exited = ''exited''"
| "outcome_name ExecutionFailed = ''execution_failed''"
| "outcome_name ReasonCancelled = ''cancelled''"
| "outcome_name ReasonTimedOut = ''timed_out''"
| "outcome_name MemoryLimitExceeded = ''memory_limit_exceeded''"
| "outcome_name ProcessLimitExceeded = ''process_limit_exceeded''"
| "outcome_name DaemonError = ''daemon_error''"

definition fetch_add_at :: "u64 list \<Rightarrow> nat \<Rightarrow> u64 list" where
  "fetch_add_at counters index = counters[index := counters ! index + 1]"

definition metrics_task_started :: "runtime_metrics \<Rightarrow> runtime_metrics" where
  "metrics_task_started m = m\<lparr>rm_tasks_started := rm_tasks_started m + 1\<rparr>"

definition observe_buckets :: "u64 \<Rightarrow> u64 list \<Rightarrow> u64 list" where
  "observe_buckets wall_time_ms buckets =
     foldl (\<lambda>acc (index, bound). if wall_time_ms \<le> bound then fetch_add_at acc index else acc)
       buckets (enumerate 0 DURATION_BUCKETS_MILLIS)"

fun metrics_task_finished :: "runtime_metrics \<Rightarrow> task_snapshot \<Rightarrow> runtime_metrics" where
  "metrics_task_finished m (Running _ _ _) = m"
| "metrics_task_finished m (Finished _ termination_reason _ timing _ _) =
     m\<lparr>rm_tasks_finished := fetch_add_at (rm_tasks_finished m) (outcome_index termination_reason),
       rm_cleanup_verified := rm_cleanup_verified m + 1,
       rm_duration_count := rm_duration_count m + 1,
       rm_duration_sum_millis := rm_duration_sum_millis m + tt_wall_time_ms timing,
       rm_duration_buckets := observe_buckets (tt_wall_time_ms timing) (rm_duration_buckets m)\<rparr>"

section \<open>Text\<close>

definition newline :: string where
  "newline = [CHR 0x0A]"

definition double_quote :: string where
  "double_quote = [CHR 0x22]"

definition render_u64 :: "u64 \<Rightarrow> string" where
  "render_u64 n = decimal (unat n)"

definition three_digits :: "nat \<Rightarrow> string" where
  "three_digits n = drop 1 (decimal (1000 + n mod 1000))"

definition render_seconds :: "u64 \<Rightarrow> string" where
  "render_seconds millis = decimal (unat millis div 1000) @ ''.'' @ three_digits (unat millis)"

definition render_outcome :: "runtime_metrics \<Rightarrow> termination_reason \<Rightarrow> string" where
  "render_outcome m reason =
     ''taskcage_tasks_finished_total{outcome='' @ double_quote @ outcome_name reason @ double_quote @ ''} '' @
     render_u64 (rm_tasks_finished m ! outcome_index reason) @ newline"

definition render_bucket :: "string \<Rightarrow> u64 \<Rightarrow> string" where
  "render_bucket bound count =
     ''taskcage_task_duration_seconds_bucket{le='' @ double_quote @ bound @ double_quote @ ''} '' @
     render_u64 count @ newline"

definition help_type :: "string \<Rightarrow> string \<Rightarrow> string \<Rightarrow> string" where
  "help_type name help kind =
     ''# HELP '' @ name @ '' '' @ help @ newline @ ''# TYPE '' @ name @ '' '' @ kind @ newline"

definition render_metrics :: "runtime_metrics \<Rightarrow> u32 \<Rightarrow> u32 \<Rightarrow> string" where
  "render_metrics m running_tasks capacity_slots =
     help_type ''taskcage_up'' ''Whether the TaskCage daemon is ready to serve metrics.'' ''gauge'' @
     ''taskcage_up 1'' @ newline @
     help_type ''taskcage_running_tasks'' ''Task execution slots currently in use.'' ''gauge'' @
     ''taskcage_running_tasks '' @ decimal (unat running_tasks) @ newline @
     help_type ''taskcage_capacity_slots'' ''Configured task execution slots.'' ''gauge'' @
     ''taskcage_capacity_slots '' @ decimal (unat capacity_slots) @ newline @
     help_type ''taskcage_tasks_started_total'' ''Tasks admitted for execution.'' ''counter'' @
     ''taskcage_tasks_started_total '' @ render_u64 (rm_tasks_started m) @ newline @
     help_type ''taskcage_tasks_finished_total'' ''Cleanup-confirmed task completions by outcome.'' ''counter'' @
     concat (map (render_outcome m) TERMINATION_REASONS) @
     help_type ''taskcage_cleanup_total'' ''Cleanup-confirmed task completions.'' ''counter'' @
     ''taskcage_cleanup_total{result='' @ double_quote @ ''verified'' @ double_quote @ ''} '' @
     render_u64 (rm_cleanup_verified m) @ newline @
     help_type ''taskcage_task_duration_seconds'' ''Task wall-clock duration after execution admission.'' ''histogram'' @
     concat (map2 render_bucket DURATION_BUCKET_TEXTS (rm_duration_buckets m)) @
     render_bucket ''+Inf'' (rm_duration_count m) @
     ''taskcage_task_duration_seconds_sum '' @ render_seconds (rm_duration_sum_millis m) @ newline @
     ''taskcage_task_duration_seconds_count '' @ render_u64 (rm_duration_count m) @ newline"

text \<open>The answer to the first bytes of an HTTP request.\<close>

definition crlf :: string where
  "crlf = [CHR 0x0D, CHR 0x0A]"

definition metrics_response :: "string \<Rightarrow> string \<Rightarrow> string" where
  "metrics_response request body =
     (let is_metrics = prefix ''GET /metrics '' request \<or> prefix ''GET /metrics?'' request;
          (status, response) =
            (if is_metrics then (''200 OK'', body) else (''404 Not Found'', ''not found'' @ newline))
      in ''HTTP/1.1 '' @ status @ crlf @
         ''Content-Type: text/plain; version=0.0.4'' @ crlf @
         ''Content-Length: '' @ decimal (length response) @ crlf @
         ''Connection: close'' @ crlf @ crlf @ response)"

section \<open>Counting\<close>

fun finished_reason :: "task_snapshot \<Rightarrow> termination_reason option" where
  "finished_reason (Running _ _ _) = None"
| "finished_reason (Finished _ r _ _ _ _) = Some r"

fun finished_wall_time :: "task_snapshot \<Rightarrow> u64" where
  "finished_wall_time (Running _ _ _) = 0"
| "finished_wall_time (Finished _ _ _ t _ _) = tt_wall_time_ms t"

definition count_where :: "('a \<Rightarrow> bool) \<Rightarrow> 'a list \<Rightarrow> nat" where
  "count_where P xs = length (filter P xs)"

lemma count_where_snoc [simp]:
  "count_where P (xs @ [x]) = count_where P xs + (if P x then 1 else 0)"
  by (simp add: count_where_def)

lemma count_where_mono: "(\<And>x. P x \<Longrightarrow> Q x) \<Longrightarrow> count_where P xs \<le> count_where Q xs"
  by (induction xs) (auto simp: count_where_def)

lemma foldl_add_at:
  "length bs = length ds \<Longrightarrow>
   foldl (\<lambda>acc (index, bound). if ms \<le> bound then fetch_add_at acc index else acc)
     (pre @ bs) (enumerate (length pre) ds) =
   pre @ map2 (\<lambda>bound k. if ms \<le> bound then k + 1 else k) ds bs"
proof (induction ds arbitrary: pre bs)
  case (Cons d ds)
  then obtain b bs' where bs: "bs = b # bs'" "length bs' = length ds"
    by (cases bs) auto
  let ?b = "if ms \<le> d then b + 1 else b"
    and ?f = "\<lambda>acc (index, bound). if ms \<le> bound then fetch_add_at acc index else acc"
  have "?f (pre @ bs) (length pre, d) = (pre @ [?b]) @ bs'"
    by (simp add: bs fetch_add_at_def list_update_append)
  then have "foldl ?f (pre @ bs) (enumerate (length pre) (d # ds)) =
      foldl ?f ((pre @ [?b]) @ bs') (enumerate (length (pre @ [?b])) ds)"
    by (simp only: enumerate_simps foldl.simps length_append length_Cons list.size add_0_right add_Suc_right)
  also have "\<dots> = (pre @ [?b]) @ map2 (\<lambda>bound k. if ms \<le> bound then k + 1 else k) ds bs'"
    by (rule Cons.IH [OF bs(2)])
  finally show ?case
    by (simp add: bs)
qed simp

lemma observe_buckets_eq:
  "length bs = length DURATION_BUCKETS_MILLIS \<Longrightarrow>
   observe_buckets ms bs = map2 (\<lambda>bound k. if ms \<le> bound then k + 1 else k) DURATION_BUCKETS_MILLIS bs"
  using foldl_add_at [of bs DURATION_BUCKETS_MILLIS ms "[]"] by (simp add: observe_buckets_def)

lemma outcome_index_inj [simp]: "outcome_index a = outcome_index b \<longleftrightarrow> a = b"
  by (cases a; cases b) simp_all

lemma outcome_index_less: "outcome_index r < 7"
  by (cases r) simp_all

definition metrics_count :: "task_snapshot list \<Rightarrow> runtime_metrics \<Rightarrow> bool" where
  "metrics_count ss m \<longleftrightarrow>
     length (rm_tasks_finished m) = 7 \<and>
     (\<forall>r. rm_tasks_finished m ! outcome_index r = of_nat (count_where (\<lambda>s. finished_reason s = Some r) ss)) \<and>
     rm_cleanup_verified m = of_nat (count_where is_finished ss) \<and>
     rm_duration_count m = of_nat (count_where is_finished ss) \<and>
     rm_duration_sum_millis m = sum_list (map finished_wall_time ss) \<and>
     rm_duration_buckets m =
       map (\<lambda>bound. of_nat (count_where (\<lambda>s. is_finished s \<and> finished_wall_time s \<le> bound) ss))
         DURATION_BUCKETS_MILLIS"

lemma metrics_count_default: "metrics_count [] metrics_default"
  using outcome_index_less
  by (simp add: metrics_count_def metrics_default_def count_where_def map_replicate_const)

lemma map2_map_same: "map2 f xs (map g xs) = map (\<lambda>x. f x (g x)) xs"
  by (induction xs) simp_all

lemma metrics_count_step:
  assumes "metrics_count ss m"
  shows "metrics_count (ss @ [s]) (metrics_task_finished m s)"
proof (cases s)
  case (Running a b c)
  with assms show ?thesis
    by (simp add: metrics_count_def)
next
  case (Finished a r c t d e)
  have "length (rm_duration_buckets m) = length DURATION_BUCKETS_MILLIS"
    using assms by (simp add: metrics_count_def)
  note buckets = observe_buckets_eq [OF this, of "tt_wall_time_ms t"]
  have reason: "fetch_add_at (rm_tasks_finished m) (outcome_index r) ! outcome_index r' =
      of_nat (count_where (\<lambda>s. finished_reason s = Some r') (ss @ [s]))" for r'
    using assms outcome_index_less [of r]
    by (simp add: Finished fetch_add_at_def metrics_count_def nth_list_update)
  have "rm_duration_buckets m =
      map (\<lambda>bound. of_nat (count_where (\<lambda>s. is_finished s \<and> finished_wall_time s \<le> bound) ss))
        DURATION_BUCKETS_MILLIS"
    using assms by (simp add: metrics_count_def)
  then have "observe_buckets (tt_wall_time_ms t) (rm_duration_buckets m) =
      map (\<lambda>bound. of_nat (count_where (\<lambda>s. is_finished s \<and> finished_wall_time s \<le> bound) (ss @ [s])))
        DURATION_BUCKETS_MILLIS"
    unfolding buckets by (simp add: map2_map_same Finished)
  with assms reason show ?thesis
    by (simp add: metrics_count_def Finished fetch_add_at_def del: count_where_snoc)
      (simp add: Finished)
qed

lemma metrics_count_all: "metrics_count ss (foldl metrics_task_finished metrics_default ss)"
  by (induction ss rule: rev_induct) (simp_all add: metrics_count_default metrics_count_step)

lemma count_where_le: "count_where P ss \<le> length ss"
  by (simp add: count_where_def)

lemma unat_count: "length ss < 2 ^ 64 \<Longrightarrow> unat (of_nat (count_where P ss) :: u64) = count_where P ss"
  using count_where_le [of P ss] by (simp add: unat_of_nat take_bit_nat_eq_self_iff)

lemma sum_reasons:
  "sum_list (map (\<lambda>r. count_where (\<lambda>s. finished_reason s = Some r) ss) TERMINATION_REASONS) =
   count_where is_finished ss"
proof (induction ss rule: rev_induct)
  case Nil
  then show ?case
    by (simp add: count_where_def TERMINATION_REASONS_def)
next
  case (snoc s ss)
  show ?case
  proof (cases s)
    case (Finished a r c t d e)
    with snoc show ?thesis
      by (cases r) (simp_all add: TERMINATION_REASONS_def)
  qed (use snoc in simp)
qed

lemma bounds_sorted: "sorted DURATION_BUCKETS_MILLIS"
  by (simp add: DURATION_BUCKETS_MILLIS_def)

lemma cumulative_sorted:
  "sorted bounds \<Longrightarrow>
   sorted (map (\<lambda>b :: u64. count_where (\<lambda>s. is_finished s \<and> finished_wall_time s \<le> b) ss) bounds)"
  by (induction bounds) (auto intro!: count_where_mono)

text \<open>
  C27: The metrics count what happened. After any sequence of fewer than \<open>2 ^ 64\<close> published
  snapshots every outcome counter is the number of tasks finished with that outcome, the outcome
  counters add up to the verified cleanups, each duration bucket is the number of finished tasks
  within its bound, and the buckets are cumulative up to the total count.
\<close>

theorem metrics_count_exactly:
  assumes "length ss < 2 ^ 64"
  shows "let m = foldl metrics_task_finished metrics_default ss in
    (\<forall>r. unat (rm_tasks_finished m ! outcome_index r) = count_where (\<lambda>s. finished_reason s = Some r) ss) \<and>
    sum_list (map (\<lambda>r. unat (rm_tasks_finished m ! outcome_index r)) TERMINATION_REASONS) =
      unat (rm_cleanup_verified m) \<and>
    rm_duration_count m = rm_cleanup_verified m \<and>
    map unat (rm_duration_buckets m) =
      map (\<lambda>b. count_where (\<lambda>s. is_finished s \<and> finished_wall_time s \<le> b) ss) DURATION_BUCKETS_MILLIS \<and>
    sorted (map unat (rm_duration_buckets m @ [rm_duration_count m])) \<and>
    rm_duration_sum_millis m = sum_list (map finished_wall_time ss)"
proof -
  have "count_where (\<lambda>s. is_finished s \<and> finished_wall_time s \<le> b) ss \<le> count_where is_finished ss" for b
    by (rule count_where_mono) simp
  then show ?thesis
    using metrics_count_all [of ss] sum_reasons [of ss] cumulative_sorted [OF bounds_sorted, of ss]
    by (simp add: metrics_count_def Let_def unat_count [OF assms] comp_def sorted_append)
qed

theorem metrics_count_exactly_witness:
  "rm_duration_buckets (foldl metrics_task_finished metrics_default
     [Running ''a'' [] [],
      Finished ''a'' Exited \<lparr>pr_exit_code = Some 0, pr_signal = None\<rparr>
        \<lparr>tt_submitted_at = [], tt_started_at = [], tt_finished_at = [], tt_wall_time_ms = 75\<rparr>
        \<lparr>tu_cpu_time_micros = 1, tu_memory_peak_bytes = 1\<rparr>
        \<lparr>to_stdout_tail = [], to_stderr_tail = [], to_stdout_truncated = False, to_stderr_truncated = False\<rparr>]) =
     [0, 0, 1, 1, 1, 1, 1, 1]" (is "rm_duration_buckets (foldl _ _ ?ss) = _")
proof -
  have "map unat (rm_duration_buckets (foldl metrics_task_finished metrics_default ?ss)) =
      map unat [0 :: u64, 0, 1, 1, 1, 1, 1, 1]"
    using metrics_count_exactly [of ?ss] by (simp add: Let_def DURATION_BUCKETS_MILLIS_def count_where_def)
  then show ?thesis
    by (rule map_injective) (simp add: inj_def unsigned_word_eqI)
qed

end
