(* ===== verification/Coordination.thy ===== *)
theory Coordination
  imports Registry_Frame Capacity Fail_Stop Metrics
begin

text \<open>
  How a submission runs: \<open>coordinate_validated_submit_with_runtime\<close>, \<open>run_owner\<close> and what they call
  in \<open>daemon/src/application/task/submit.rs\<close> and \<open>completion.rs\<close>, over the registry, the task slots,
  the fail-stop coordinator and the metrics, with the service of \<open>adapters/task_service.rs\<close> around
  them. The code between two \<open>await\<close>s is one function; \<open>system_step\<close> interleaves those functions for
  any number of submissions with queries, cancellations and the runner's own use of the shared
  state. \<open>clk\<close> gives the clock readings of one such function in the order they are taken. The Korean
  texts of reports are given in English.
\<close>

section \<open>Values\<close>

datatype task_id_source = FixedTaskId string | LazyTaskId string

record submit_metadata =
  sm_task_id :: "task_id_source option"
  sm_submitted_at :: string
  sm_cleanup_timeout :: duration

text \<open>The factory of a lazy task id is its value; a second \<open>take\<close> panics.\<close>

definition make_task_id :: "submit_metadata \<Rightarrow> (string \<times> submit_metadata) option" where
  "make_task_id m =
     (case sm_task_id m of
        None \<Rightarrow> None
      | Some (FixedTaskId task_id) \<Rightarrow> Some (task_id, m\<lparr>sm_task_id := None\<rparr>)
      | Some (LazyTaskId task_id) \<Rightarrow> Some (task_id, m\<lparr>sm_task_id := None\<rparr>))"

definition preallocate_task_id :: "submit_metadata \<Rightarrow> (string \<times> submit_metadata) option" where
  "preallocate_task_id m =
     map_option (\<lambda>(task_id, m'). (task_id, m'\<lparr>sm_task_id := Some (FixedTaskId task_id)\<rparr>)) (make_task_id m)"

datatype submit_error =
    SubmitValidation submit_validation_error
  | SubmitRegistry registry_error
  | CoordinatorStopped

record submit_outcome =
  so_request_id :: string
  so_task_id :: string
  so_effective_limits :: "effective_limits option"
  so_observation :: submit_observation

record verified_running =
  vr_snapshot :: task_snapshot
  vr_effective_limits :: effective_limits

datatype task_run_failure_kind = CgroupReadBackMismatch | CgroupReadBackRollbackUncertain | OtherFailure

record task_run_failure =
  rf_message :: string
  rf_kind :: task_run_failure_kind
  rf_capacity_reusable :: bool
  rf_cleanup_complete :: bool

definition with_reusable_capacity :: "string \<Rightarrow> task_run_failure" where
  "with_reusable_capacity message =
     \<lparr>rf_message = message, rf_kind = OtherFailure, rf_capacity_reusable = True, rf_cleanup_complete = True\<rparr>"

record execution_failure =
  ef_submit :: submit_failure
  ef_capacity_reusable :: bool
  ef_cleanup_complete :: bool

type_synonym completion = "execution_failure + task_snapshot"

definition runner_execution_failure :: "task_run_failure \<Rightarrow> execution_failure" where
  "runner_execution_failure e =
     \<lparr>ef_submit =
        (case rf_kind e of
           CgroupReadBackMismatch \<Rightarrow>
             \<lparr>sf_code = InternalError, sf_message = Message ''cgroup limit read-back verification failed''\<rparr>
         | CgroupReadBackRollbackUncertain \<Rightarrow>
             \<lparr>sf_code = EnvironmentUnavailable,
              sf_message = Message ''cgroup v2 execution environment is unavailable''\<rparr>
         | OtherFailure \<Rightarrow> \<lparr>sf_code = InternalError, sf_message = Message (rf_message e)\<rparr>),
      ef_capacity_reusable = rf_capacity_reusable e,
      ef_cleanup_complete = rf_cleanup_complete e\<rparr>"

definition CAPACITY_EXHAUSTED_MESSAGE :: string where
  "CAPACITY_EXHAUSTED_MESSAGE = ''all task execution slots are in use''"

datatype completion_error = ResultNotFinished

definition require_finished :: "task_snapshot \<Rightarrow> completion_error + task_snapshot" where
  "require_finished snapshot = (if is_finished snapshot then Ok snapshot else Err ResultNotFinished)"

record runtime =
  rt_registry :: registry
  rt_capacity :: task_capacity
  rt_fail_stop :: fail_stop
  rt_metrics :: runtime_metrics
  rt_audit :: "task_snapshot list"

definition task_service_new :: "nat \<Rightarrow> u32 \<Rightarrow> duration \<Rightarrow> runtime" where
  "task_service_new max_tasks max_concurrent timeout =
     \<lparr>rt_registry = registry_new max_tasks, rt_capacity = task_capacity_new max_concurrent,
      rt_fail_stop = fail_stop_new timeout, rt_metrics = metrics_default, rt_audit = []\<rparr>"

definition service_render_metrics :: "runtime \<Rightarrow> string" where
  "service_render_metrics rt =
     render_metrics (rt_metrics rt) (tc_in_use (rt_capacity rt)) (tc_max (rt_capacity rt))"

section \<open>Completion\<close>

definition release_capacity :: "runtime \<Rightarrow> runtime" where
  "release_capacity rt =
     rt\<lparr>rt_capacity :=
       (if is_fail_stopping (rt_fail_stop rt) then retain_for_fail_stop (rt_capacity rt)
        else snd (drop_permit (rt_capacity rt)))\<rparr>"

definition retain_capacity :: "runtime \<Rightarrow> runtime" where
  "retain_capacity rt = rt\<lparr>rt_capacity := retain_for_fail_stop (rt_capacity rt)\<rparr>"

definition complete_active :: "string \<Rightarrow> runtime \<Rightarrow> runtime" where
  "complete_active task_id rt = rt\<lparr>rt_fail_stop := snd (fail_stop_complete (rt_fail_stop rt) task_id)\<rparr>"

definition drop_active :: "instant \<Rightarrow> string \<Rightarrow> runtime \<Rightarrow> runtime" where
  "drop_active now task_id rt =
     rt\<lparr>rt_fail_stop := active_execution_drop (rt_fail_stop rt) now task_id False\<rparr>"

definition publish_finished :: "string \<Rightarrow> finished_publication \<Rightarrow> runtime \<Rightarrow> task_snapshot \<times> runtime" where
  "publish_finished task_id publication rt =
     (let rt = release_capacity (complete_active task_id rt);
          (finished, g) = publish_completion publication (rt_registry rt)
      in (finished, rt\<lparr>rt_registry := g, rt_metrics := metrics_task_finished (rt_metrics rt) finished,
            rt_audit := rt_audit rt @ [finished]\<rparr>))"

definition running_failure_report :: "string \<Rightarrow> cleanup_failure_report" where
  "running_failure_report task_id =
     \<lparr>cf_task_id = task_id, cf_stage = ''RUNNING task completion'',
      cf_uncleaned = [''verified FINISHED result''],
      cf_retry = ''keeps the RUNNING snapshot and starts the daemon shutdown''\<rparr>"

definition report_running_failure :: "instant \<Rightarrow> string \<Rightarrow> runtime \<Rightarrow> runtime" where
  "report_running_failure now task_id rt =
     rt\<lparr>rt_fail_stop := snd (activate (rt_fail_stop rt) now (running_failure_report task_id))\<rparr>"

definition running_publication_report :: "string \<Rightarrow> cleanup_failure_report" where
  "running_publication_report task_id =
     \<lparr>cf_task_id = task_id, cf_stage = ''RUNNING store'',
      cf_uncleaned = [''public RUNNING snapshot''],
      cf_retry = ''task state was not stored after exec started and the daemon shutdown starts''\<rparr>"

definition report_running_publication_failure :: "instant \<Rightarrow> string \<Rightarrow> runtime \<Rightarrow> runtime" where
  "report_running_publication_failure now task_id rt =
     rt\<lparr>rt_fail_stop := snd (activate (rt_fail_stop rt) now (running_publication_report task_id))\<rparr>"

definition fail_owner :: "instant \<Rightarrow> submit_owner \<Rightarrow> submit_failure \<Rightarrow> runtime \<Rightarrow> submit_observation \<times> runtime" where
  "fail_owner now owner failure rt =
     (case owner_fail (rt_registry rt) now owner failure of
        (observation, g) \<Rightarrow> (observation, rt\<lparr>rt_registry := g\<rparr>))"

section \<open>Submitting\<close>

text \<open>The UTF-8 text of the duplicate registration error.\<close>

definition duplicate_task_text :: "active_execution_error \<Rightarrow> string" where
  "duplicate_task_text e =
     [CHR 0xED, CHR 0x99, CHR 0x9C, CHR 0xEC, CHR 0x84, CHR 0xB1, CHR 0x20, CHR 0xEC, CHR 0x8B,
      CHR 0xA4, CHR 0xED, CHR 0x96, CHR 0x89, CHR 0x20, CHR 0x74, CHR 0x61, CHR 0x73, CHR 0x6B,
      CHR 0x49, CHR 0x64, CHR 0xEA, CHR 0xB0, CHR 0x80, CHR 0x20, CHR 0xEC, CHR 0xA4, CHR 0x91,
      CHR 0xEB, CHR 0xB3, CHR 0xB5, CHR 0xEB, CHR 0x90, CHR 0x98, CHR 0xEC, CHR 0x97, CHR 0x88,
      CHR 0xEC, CHR 0x8A, CHR 0xB5, CHR 0xEB, CHR 0x8B, CHR 0x88, CHR 0xEB, CHR 0x8B, CHR 0xA4,
      CHR 0x3A, CHR 0x20] @
     (case e of DuplicateTask task_id \<Rightarrow> task_id)"

definition observed_outcome ::
  "string \<Rightarrow> string \<Rightarrow> submit_observation \<Rightarrow> instant \<Rightarrow> runtime \<Rightarrow>
   (submit_error + submit_outcome) \<times> runtime" where
  "observed_outcome request_id task_id observation now rt =
     (case effective_limits_for (rt_registry rt) now task_id observation of
        (limits, g) \<Rightarrow>
          (and_then (map_err SubmitRegistry limits) (\<lambda>limits.
             Ok \<lparr>so_request_id = request_id, so_task_id = task_id, so_effective_limits = limits,
                 so_observation = observation\<rparr>),
           rt\<lparr>rt_registry := g\<rparr>))"

text \<open>The first look: an existing submission is observed before anything is admitted.\<close>

definition find_existing ::
  "validated_submit \<Rightarrow> instant \<Rightarrow> runtime \<Rightarrow> (submit_error + submit_waiter option) \<times> runtime" where
  "find_existing validated now rt =
     (case existing_submit (rt_registry rt) now validated of
        (found, g) \<Rightarrow> (map_err SubmitRegistry found, rt\<lparr>rt_registry := g\<rparr>))"

datatype admission =
    AdmissionRefused submit_failure
  | AdmissionError submit_error
  | AdmissionWaiter submit_waiter
  | AdmissionOwner submit_owner

definition environment_failure :: submit_failure where
  "environment_failure =
     \<lparr>sf_code = EnvironmentUnavailable,
      sf_message = Message ''cgroup v2 execution environment is unavailable''\<rparr>"

text \<open>
  The admission guard of the coordinator is held from \<open>try_admit\<close> to \<open>register\<close>. The candidate task id
  is the one \<open>make_task_id\<close> gives; a refused registration drops the owner.
\<close>

definition admit_submit ::
  "validated_submit \<Rightarrow> string \<Rightarrow> (nat \<Rightarrow> instant) \<Rightarrow> runtime \<Rightarrow> admission \<times> runtime" where
  "admit_submit validated candidate clk rt =
     (if \<not> try_admit (rt_fail_stop rt) then (AdmissionRefused environment_failure, rt)
      else case reserve_submit_with (rt_registry rt) (clk 0) validated candidate of
        (Inl e, g) \<Rightarrow> (AdmissionError (SubmitRegistry e), rt\<lparr>rt_registry := g\<rparr>)
      | (Inr (Existing w), g) \<Rightarrow> (AdmissionWaiter w, rt\<lparr>rt_registry := g\<rparr>)
      | (Inr (Owner owner), g) \<Rightarrow>
          (case register (rt_fail_stop rt) (ow_task_id owner) of
             Inl e \<Rightarrow>
               (AdmissionError (SubmitRegistry (TaskAlreadyExists (duplicate_task_text e))),
                rt\<lparr>rt_registry := owner_drop g (clk 1) owner\<rparr>)
           | Inr fs \<Rightarrow> (AdmissionOwner owner, rt\<lparr>rt_registry := g, rt_fail_stop := fs\<rparr>)))"

datatype launch = LaunchError submit_error | LaunchRejected submit_observation | Launched nat

text \<open>
  Taking a slot. A full pool rolls the reservation back; otherwise the execution is spawned with a
  fresh cancellation channel.
\<close>

definition launch_owner :: "submit_owner \<Rightarrow> (nat \<Rightarrow> instant) \<Rightarrow> runtime \<Rightarrow> launch \<times> runtime" where
  "launch_owner owner clk rt =
     (case try_acquire (rt_capacity rt) of
        None \<Rightarrow>
          (case rollback_before_running (rt_registry rt) (clk 0) owner
              \<lparr>sf_code = CapacityExhaustedCode, sf_message = Message CAPACITY_EXHAUSTED_MESSAGE\<rparr> of
             (Inl e, g) \<Rightarrow>
               (LaunchError (SubmitRegistry e),
                drop_active (clk 1) (ow_task_id owner) (rt\<lparr>rt_registry := g\<rparr>))
           | (Inr observation, g) \<Rightarrow>
               (LaunchRejected observation,
                complete_active (ow_task_id owner) (rt\<lparr>rt_registry := g\<rparr>)))
      | Some capacity \<Rightarrow>
          (case cancellation_channel (rt_registry rt) of
             (x, g) \<Rightarrow>
               (Launched x,
                rt\<lparr>rt_registry := g, rt_capacity := capacity,
                   rt_metrics := metrics_task_started (rt_metrics rt)\<rparr>)))"

section \<open>Running\<close>

text \<open>
  The first half of \<open>run_after_running\<close> and \<open>finish_after_running\<close>: RUNNING is stored, or the
  daemon fails stop. The observation is the one sent to the submitter.
\<close>

definition publish_owner_running ::
  "submit_owner \<Rightarrow> verified_running \<Rightarrow> nat \<Rightarrow> (nat \<Rightarrow> instant) \<Rightarrow> runtime \<Rightarrow>
   (submit_observation + submit_observation) \<times> runtime" where
  "publish_owner_running owner running x clk rt =
     (case publish_running (rt_registry rt) (clk 0) owner (vr_snapshot running)
         (vr_effective_limits running) x of
        (Inr snapshot, g) \<Rightarrow> (Ok (ObservedTask snapshot), rt\<lparr>rt_registry := g\<rparr>)
      | (Inl e, g) \<Rightarrow>
          (case fail_owner (clk 2) owner (internal_failure e)
              (report_running_publication_failure (clk 1) (ow_task_id owner) (rt\<lparr>rt_registry := g\<rparr>)) of
             (observation, rt) \<Rightarrow> (Err observation, retain_capacity rt)))"

text \<open>
  The second half, on the completion of the execution; the owner's active execution is completed
  or dropped at the end.
\<close>

definition settle_running :: "submit_owner \<Rightarrow> completion \<Rightarrow> (nat \<Rightarrow> instant) \<Rightarrow> runtime \<Rightarrow> runtime" where
  "settle_running owner completion clk rt =
     (case completion of
        Inr payload \<Rightarrow>
          (case owner_finish (rt_registry rt) (clk 0) (clk 1) (clk 2) owner payload of
             (Inr publication, g) \<Rightarrow>
               snd (publish_finished (ow_task_id owner) publication (rt\<lparr>rt_registry := g\<rparr>))
           | (Inl e, g) \<Rightarrow>
               drop_active (clk 3) (ow_task_id owner) (retain_capacity (rt\<lparr>rt_registry := g\<rparr>)))
      | Inl failure \<Rightarrow>
          (let rt1 = snd (fail_owner (clk 1) owner (ef_submit failure)
                 (report_running_failure (clk 0) (ow_task_id owner) rt))
           in if ef_cleanup_complete failure then retain_capacity (complete_active (ow_task_id owner) rt1)
              else drop_active (clk 2) (ow_task_id owner) (retain_capacity rt1)))"

definition finish_after_running ::
  "submit_owner \<Rightarrow> verified_running \<Rightarrow> nat \<Rightarrow> completion \<Rightarrow> (nat \<Rightarrow> instant) \<Rightarrow> runtime \<Rightarrow>
   submit_observation \<times> runtime" where
  "finish_after_running owner running x completion clk rt =
     (case publish_owner_running owner running x clk rt of
        (Inl observation, rt) \<Rightarrow> (observation, drop_active (clk 3) (ow_task_id owner) rt)
      | (Inr observation, rt) \<Rightarrow> (observation, settle_running owner completion (\<lambda>i. clk (i + 3)) rt))"

definition finish_without_running ::
  "submit_owner \<Rightarrow> completion \<Rightarrow> (nat \<Rightarrow> instant) \<Rightarrow> runtime \<Rightarrow> submit_observation \<times> runtime" where
  "finish_without_running owner completion clk rt =
     (case completion of
        Inr payload \<Rightarrow>
          (case owner_finish (rt_registry rt) (clk 0) (clk 1) (clk 2) owner payload of
             (Inr publication, g) \<Rightarrow>
               (case publish_finished (ow_task_id owner) publication (rt\<lparr>rt_registry := g\<rparr>) of
                  (finished, rt) \<Rightarrow> (ObservedTask finished, rt))
           | (Inl e, g) \<Rightarrow>
               (ObservedFailure (internal_failure e),
                drop_active (clk 3) (ow_task_id owner) (retain_capacity (rt\<lparr>rt_registry := g\<rparr>))))
      | Inl failure \<Rightarrow>
          if ef_capacity_reusable failure then
            (case rollback_before_running (rt_registry rt) (clk 0) owner (ef_submit failure) of
               (Inr observation, g) \<Rightarrow>
                 (observation, release_capacity (complete_active (ow_task_id owner) (rt\<lparr>rt_registry := g\<rparr>)))
             | (Inl e, g) \<Rightarrow>
                 (ObservedFailure (internal_failure e),
                  drop_active (clk 1) (ow_task_id owner) (retain_capacity (rt\<lparr>rt_registry := g\<rparr>))))
          else
            (case fail_owner (clk 0) owner (ef_submit failure) (retain_capacity rt) of
               (observation, rt) \<Rightarrow>
                 (observation,
                  if ef_cleanup_complete failure then complete_active (ow_task_id owner) rt
                  else drop_active (clk 1) (ow_task_id owner) rt)))"

section \<open>Interleaving\<close>

text \<open>
  What is left of a submission after its last segment: admitted but not launched, executing
  without a published RUNNING, running, or executing although RUNNING could not be stored.
\<close>

datatype job =
    Admitted submit_owner
  | Executing submit_owner nat
  | Started submit_owner
  | Abandoned submit_owner

fun job_owner :: "job \<Rightarrow> submit_owner" where
  "job_owner (Admitted owner) = owner"
| "job_owner (Executing owner _) = owner"
| "job_owner (Started owner) = owner"
| "job_owner (Abandoned owner) = owner"

fun holds_permit :: "job \<Rightarrow> bool" where
  "holds_permit (Executing _ _) = True"
| "holds_permit (Started _) = True"
| "holds_permit _ = False"

record system =
  sy_runtime :: runtime
  sy_jobs :: "job list"

definition permits :: "system \<Rightarrow> nat" where
  "permits s = length (filter holds_permit (sy_jobs s))"

definition run_launch :: "submit_owner \<Rightarrow> launch \<Rightarrow> job list" where
  "run_launch owner l = (case l of Launched x \<Rightarrow> [Executing owner x] | _ \<Rightarrow> [])"

definition run_admission :: "admission \<Rightarrow> job list" where
  "run_admission a = (case a of AdmissionOwner owner \<Rightarrow> [Admitted owner] | _ \<Rightarrow> [])"

text \<open>
  A step at clock \<open>c\<close> ends at \<open>c'\<close>, which no reading of the step exceeds. The registry steps of clients
  and runners are those that no owner performs; the runner commits its start and reports cleanup
  failures to the coordinator.
\<close>

inductive client_step :: "instant \<Rightarrow> registry \<Rightarrow> instant \<Rightarrow> registry \<Rightarrow> bool" where
  "c \<le> now \<Longrightarrow> client_step c g now (snd (existing_submit g now request))"
| "c \<le> now \<Longrightarrow> client_step c g now (snd (registry_snapshot g now tid))"
| "c \<le> now \<Longrightarrow> client_step c g now (snd (snapshot_by_client_request_id g now cid))"
| "c \<le> now \<Longrightarrow> client_step c g now (snd (has_client_request_id g now cid))"
| "c \<le> now \<Longrightarrow> client_step c g now (snd (effective_limits_for g now tid ob))"
| "c \<le> now \<Longrightarrow> client_step c g now (snd (request_cancel g now tid))"
| "client_step c g c (g\<lparr>rg_cancellations := (rg_cancellations g)
     [x := snd (cancellation_observe_timeout (rg_cancellations g ! x))]\<rparr>)"
| "client_step c g c (g\<lparr>rg_cancellations := (rg_cancellations g)
     [x := snd (cancellation_close (rg_cancellations g ! x))]\<rparr>)"
| "client_step c g c (g\<lparr>rg_poisoned := True\<rparr>)"

definition readings :: "instant \<Rightarrow> (nat \<Rightarrow> instant) \<Rightarrow> instant \<Rightarrow> bool" where
  "readings c clk c' \<longleftrightarrow> c \<le> clk 0 \<and> (\<forall>i j. i \<le> j \<longrightarrow> clk i \<le> clk j) \<and> (\<forall>i. clk i \<le> c')"

inductive system_step :: "instant \<Rightarrow> system \<Rightarrow> instant \<Rightarrow> system \<Rightarrow> bool" where
  client: "client_step c (rt_registry (sy_runtime s)) c' g \<Longrightarrow>
    system_step c s c' (s\<lparr>sy_runtime := (sy_runtime s)\<lparr>rt_registry := g\<rparr>\<rparr>)"
| commit: "system_step c s c (s\<lparr>sy_runtime := (sy_runtime s)
      \<lparr>rt_fail_stop := snd (commit_start (rt_fail_stop (sy_runtime s)) tid (gate_outcome opens))\<rparr>\<rparr>)"
| report: "c \<le> now \<Longrightarrow> system_step c s now (s\<lparr>sy_runtime := (sy_runtime s)
      \<lparr>rt_fail_stop := snd (activate (rt_fail_stop (sy_runtime s)) now failure)\<rparr>\<rparr>)"
| admit: "readings c clk c' \<Longrightarrow> admit_submit validated candidate clk (sy_runtime s) = (a, rt) \<Longrightarrow>
    system_step c s c' \<lparr>sy_runtime = rt, sy_jobs = sy_jobs s @ run_admission a\<rparr>"
| launch: "readings c clk c' \<Longrightarrow> sy_jobs s = xs @ Admitted owner # ys \<Longrightarrow>
    launch_owner owner clk (sy_runtime s) = (l, rt) \<Longrightarrow>
    system_step c s c' \<lparr>sy_runtime = rt, sy_jobs = xs @ run_launch owner l @ ys\<rparr>"
| running: "readings c clk c' \<Longrightarrow> sy_jobs s = xs @ Executing owner x # ys \<Longrightarrow>
    publish_owner_running owner running x clk (sy_runtime s) = (Inr ob, rt) \<Longrightarrow>
    system_step c s c' \<lparr>sy_runtime = rt, sy_jobs = xs @ Started owner # ys\<rparr>"
| running_lost: "readings c clk c' \<Longrightarrow> sy_jobs s = xs @ Executing owner x # ys \<Longrightarrow>
    publish_owner_running owner running x clk (sy_runtime s) = (Inl ob, rt) \<Longrightarrow>
    system_step c s c' \<lparr>sy_runtime = rt, sy_jobs = xs @ Abandoned owner # ys\<rparr>"
| settle: "readings c clk c' \<Longrightarrow> sy_jobs s = xs @ Started owner # ys \<Longrightarrow>
    system_step c s c' \<lparr>sy_runtime = settle_running owner completion clk (sy_runtime s), sy_jobs = xs @ ys\<rparr>"
| settle_both: "readings c clk c' \<Longrightarrow> sy_jobs s = xs @ Executing owner x # ys \<Longrightarrow>
    finish_after_running owner running x completion clk (sy_runtime s) = (ob, rt) \<Longrightarrow>
    system_step c s c' \<lparr>sy_runtime = rt, sy_jobs = xs @ ys\<rparr>"
| settle_early: "readings c clk c' \<Longrightarrow> sy_jobs s = xs @ Executing owner x # ys \<Longrightarrow>
    finish_without_running owner completion clk (sy_runtime s) = (ob, rt) \<Longrightarrow>
    system_step c s c' \<lparr>sy_runtime = rt, sy_jobs = xs @ ys\<rparr>"
| settle_abandoned: "c \<le> now \<Longrightarrow> sy_jobs s = xs @ Abandoned owner # ys \<Longrightarrow>
    system_step c s now \<lparr>sy_runtime = drop_active now (ow_task_id owner) (sy_runtime s), sy_jobs = xs @ ys\<rparr>"

inductive system_run :: "nat \<Rightarrow> u32 \<Rightarrow> duration \<Rightarrow> instant \<Rightarrow> system \<Rightarrow> bool" for n m timeout where
  start: "system_run n m timeout c \<lparr>sy_runtime = task_service_new n m timeout, sy_jobs = []\<rparr>"
| step: "system_run n m timeout c s \<Longrightarrow> system_step c s c' s' \<Longrightarrow> system_run n m timeout c' s'"

section \<open>Invariant\<close>

definition owner_cid :: "job \<Rightarrow> string" where
  "owner_cid j = ow_client_request_id (job_owner j)"

definition owner_tid :: "job \<Rightarrow> string" where
  "owner_tid j = ow_task_id (job_owner j)"

fun claiming :: "job \<Rightarrow> bool" where
  "claiming (Abandoned _) = False"
| "claiming _ = True"

fun unannounced :: "job \<Rightarrow> bool" where
  "unannounced (Admitted _) = True"
| "unannounced (Executing _ _) = True"
| "unannounced _ = False"

fun job_ok :: "registry \<Rightarrow> job \<Rightarrow> bool" where
  "job_ok g (Admitted owner) = owned g owner Reserved"
| "job_ok g (Executing owner x) = (owned g owner Reserved \<and> x < length (rg_cancellations g))"
| "job_ok g (Started owner) = (\<exists>s l y. owned g owner (Active s l y))"
| "job_ok g (Abandoned owner) = True"

definition claims :: "job list \<Rightarrow> string list" where
  "claims jobs = map owner_cid (filter claiming jobs)"

lemma claims_simps [simp]:
  "claims [] = []"
  "claims (xs @ ys) = claims xs @ claims ys"
  "claims (j # js) = (if claiming j then owner_cid j # claims js else claims js)"
  by (simp_all add: claims_def)

definition jobs_ok :: "registry \<Rightarrow> job list \<Rightarrow> bool" where
  "jobs_ok g jobs \<longleftrightarrow> (\<forall>j \<in> set jobs. job_ok g j) \<and> distinct (claims jobs)"

definition signals_covered :: "registry \<Rightarrow> job list \<Rightarrow> bool" where
  "signals_covered g jobs \<longleftrightarrow>
     (\<forall>k < length (rg_signals g). rg_signals g ! k = None \<longrightarrow>
        (\<exists>j \<in> set jobs. unannounced j \<and> ow_signal (job_owner j) = k))"

definition live_covered :: "registry \<Rightarrow> fail_stop \<Rightarrow> job list \<Rightarrow> bool" where
  "live_covered g fs jobs \<longleftrightarrow>
     (\<forall>cid. live (request_view g cid) \<longrightarrow>
        rg_poisoned g \<or> is_fail_stopping fs \<or> cid \<in> set (claims jobs))"

definition active_ok :: "fail_stop \<Rightarrow> job list \<Rightarrow> bool" where
  "active_ok fs jobs \<longleftrightarrow>
     distinct (map owner_tid jobs) \<and> (\<forall>j \<in> set jobs. owner_tid j |\<in>| fmdom (fs_active fs))"

definition system_invar :: "nat \<Rightarrow> u32 \<Rightarrow> instant \<Rightarrow> system \<Rightarrow> bool" where
  "system_invar n m c s \<longleftrightarrow>
     registry_by n c (rt_registry (sy_runtime s)) \<and>
     capacity_invar (rt_capacity (sy_runtime s)) (permits s) \<and>
     tc_max (rt_capacity (sy_runtime s)) = m \<and>
     jobs_ok (rt_registry (sy_runtime s)) (sy_jobs s) \<and>
     signals_covered (rt_registry (sy_runtime s)) (sy_jobs s) \<and>
     live_covered (rt_registry (sy_runtime s)) (rt_fail_stop (sy_runtime s)) (sy_jobs s) \<and>
     active_ok (rt_fail_stop (sy_runtime s)) (sy_jobs s)"

lemma system_invarI:
  assumes "registry_by n c (rt_registry rt)" "capacity_invar (rt_capacity rt) (length (filter holds_permit jobs))"
    "tc_max (rt_capacity rt) = m" "jobs_ok (rt_registry rt) jobs" "signals_covered (rt_registry rt) jobs"
    "live_covered (rt_registry rt) (rt_fail_stop rt) jobs" "active_ok (rt_fail_stop rt) jobs"
  shows "system_invar n m c \<lparr>sy_runtime = rt, sy_jobs = jobs\<rparr>"
  using assms by (simp add: system_invar_def permits_def)

lemma system_invarD:
  assumes "system_invar n m c s"
  shows "registry_by n c (rt_registry (sy_runtime s))"
    "capacity_invar (rt_capacity (sy_runtime s)) (length (filter holds_permit (sy_jobs s)))"
    "tc_max (rt_capacity (sy_runtime s)) = m"
    "jobs_ok (rt_registry (sy_runtime s)) (sy_jobs s)"
    "signals_covered (rt_registry (sy_runtime s)) (sy_jobs s)"
    "live_covered (rt_registry (sy_runtime s)) (rt_fail_stop (sy_runtime s)) (sy_jobs s)"
    "active_ok (rt_fail_stop (sy_runtime s)) (sy_jobs s)"
  using assms by (simp_all add: system_invar_def permits_def)

text \<open>Replacing the job whose owner acts.\<close>

lemma job_ok_kept:
  assumes "job_ok g j" "kept X g g'" "claiming j \<Longrightarrow> owner_cid j \<notin> X"
    "length (rg_cancellations g) \<le> length (rg_cancellations g')"
  shows "job_ok g' j"
proof (cases j)
  case (Started owner)
  then obtain s l y where "owned g owner (Active s l y)"
    using assms(1) by auto
  with owned_kept(2) [OF assms(2) _ this] assms(3) Started show ?thesis
    by (auto simp: owner_cid_def)
qed (use assms owned_kept(1) [OF assms(2)] in \<open>auto simp: owner_cid_def\<close>)

lemma jobs_ok_replace:
  assumes ok: "jobs_ok g (xs @ j # ys)" and j: "claiming j"
    and k: "kept {owner_cid j} g g'" "length (rg_cancellations g) \<le> length (rg_cancellations g')"
    and js: "\<And>i. i \<in> set js \<Longrightarrow> job_ok g' i" "claims js = [] \<or> claims js = [owner_cid j]"
  shows "jobs_ok g' (xs @ js @ ys)"
proof -
  have d: "distinct (claims xs @ owner_cid j # claims ys)"
    using ok j by (simp add: jobs_ok_def)
  have "job_ok g' i" if i: "i \<in> set xs \<union> set ys" for i
  proof (rule job_ok_kept [OF _ k(1) _ k(2)])
    show "job_ok g i"
      using ok i by (auto simp: jobs_ok_def)
    show "owner_cid i \<notin> {owner_cid j}" if "claiming i"
    proof -
      have "owner_cid i \<in> set (claims xs) \<union> set (claims ys)"
        using i that by (auto simp: claims_def)
      with d show ?thesis
        by auto
    qed
  qed
  with js d show ?thesis
    by (auto simp: jobs_ok_def)
qed

lemma live_covered_replace:
  assumes cov: "live_covered g fs (xs @ j # ys)" and k: "kept {owner_cid j} g g'"
    and mono: "rg_poisoned g \<longrightarrow> rg_poisoned g'" "is_fail_stopping fs \<longrightarrow> is_fail_stopping fs'"
    and own: "closed g' (owner_cid j) \<or> is_fail_stopping fs' \<or> owner_cid j \<in> set (claims js)"
  shows "live_covered g' fs' (xs @ js @ ys)"
  unfolding live_covered_def
proof (intro allI impI)
  fix cid
  assume l: "live (request_view g' cid)"
  show "rg_poisoned g' \<or> is_fail_stopping fs' \<or> cid \<in> set (claims (xs @ js @ ys))"
  proof (cases "cid = owner_cid j")
    case True
    with own l show ?thesis
      by (auto simp: closed_def)
  next
    case False
    then have "live (request_view g cid)"
      using keptD [OF k, of cid] l by auto
    with cov False mono show ?thesis
      by (auto simp: live_covered_def split: if_splits)
  qed
qed

lemma signals_covered_replace:
  assumes "signals_covered g (xs @ j # ys)"
    and "rg_signals g' = (rg_signals g)[ow_signal (job_owner j) := Some ob]"
  shows "signals_covered g' (xs @ js @ ys)"
  unfolding signals_covered_def
proof (intro allI impI)
  fix k
  assume "k < length (rg_signals g')" "rg_signals g' ! k = None"
  then have k: "k < length (rg_signals g)" "rg_signals g ! k = None" "k \<noteq> ow_signal (job_owner j)"
    by (cases "ow_signal (job_owner j) = k"; simp add: assms(2))+
  then obtain i where "i \<in> set (xs @ j # ys)" "unannounced i" "ow_signal (job_owner i) = k"
    using assms(1) unfolding signals_covered_def by blast
  with k(3) show "\<exists>i \<in> set (xs @ js @ ys). unannounced i \<and> ow_signal (job_owner i) = k"
    by auto
qed

text \<open>One owner acts: its job is replaced by what it becomes.\<close>

lemma replace_invar:
  assumes inv: "system_invar n m c s" "sy_jobs s = xs @ j # ys" "claiming j"
    and reach: "reach c (rt_registry (sy_runtime s)) c' (rt_registry rt)"
    and kept: "kept {owner_cid j} (rt_registry (sy_runtime s)) (rt_registry rt)"
    and js: "\<And>i. i \<in> set js \<Longrightarrow> job_ok (rt_registry rt) i" "claims js = [] \<or> claims js = [owner_cid j]"
      "map owner_tid js = [] \<or> map owner_tid js = [owner_tid j]"
    and sig: "(\<exists>ob. rg_signals (rt_registry rt) =
        (rg_signals (rt_registry (sy_runtime s)))[ow_signal (job_owner j) := Some ob]) \<or>
      rg_signals (rt_registry rt) = rg_signals (rt_registry (sy_runtime s)) \<and>
        (\<exists>i \<in> set js. unannounced i \<and> ow_signal (job_owner i) = ow_signal (job_owner j))"
    and stop: "is_fail_stopping (rt_fail_stop (sy_runtime s)) \<Longrightarrow> is_fail_stopping (rt_fail_stop rt)"
    and own: "closed (rt_registry rt) (owner_cid j) \<or> is_fail_stopping (rt_fail_stop rt) \<or>
      owner_cid j \<in> set (claims js)"
    and act: "\<And>tid. tid |\<in>| fmdom (fs_active (rt_fail_stop (sy_runtime s))) \<Longrightarrow> tid \<noteq> owner_tid j \<or> js \<noteq> [] \<Longrightarrow>
      tid |\<in>| fmdom (fs_active (rt_fail_stop rt))"
    and cap: "capacity_invar (rt_capacity rt) (length (filter holds_permit (xs @ js @ ys)))"
      "tc_max (rt_capacity rt) = m"
  shows "system_invar n m c' \<lparr>sy_runtime = rt, sy_jobs = xs @ js @ ys\<rparr>"
proof (rule system_invarI)
  let ?g = "rt_registry (sy_runtime s)" and ?fs = "rt_fail_stop (sy_runtime s)"
  note D = system_invarD [OF inv(1), unfolded inv(2)]
  show "registry_by n c' (rt_registry rt)"
    by (rule registry_by_reach [OF D(1) reach])
  show "jobs_ok (rt_registry rt) (xs @ js @ ys)"
    by (rule jobs_ok_replace [OF D(4) inv(3) kept reach_cancellations [OF reach] js(1,2)])
  show "live_covered (rt_registry rt) (rt_fail_stop rt) (xs @ js @ ys)"
    by (rule live_covered_replace [OF D(6) kept _ _ own]) (use reach_poisoned [OF reach] stop in simp_all)
  show "signals_covered (rt_registry rt) (xs @ js @ ys)"
    using sig
  proof
    assume "\<exists>ob. rg_signals (rt_registry rt) = (rg_signals ?g)[ow_signal (job_owner j) := Some ob]"
    then show ?thesis
      by (elim exE) (rule signals_covered_replace [OF D(5)])
  next
    assume "rg_signals (rt_registry rt) = rg_signals ?g \<and>
      (\<exists>i \<in> set js. unannounced i \<and> ow_signal (job_owner i) = ow_signal (job_owner j))"
    with D(5) show ?thesis
      by (auto simp: signals_covered_def)
  qed
  have "distinct (map owner_tid (xs @ j # ys))" "\<forall>i \<in> set (xs @ j # ys). owner_tid i |\<in>| fmdom (fs_active ?fs)"
    using D(7) by (simp_all add: active_ok_def)
  with act js(3) show "active_ok (rt_fail_stop rt) (xs @ js @ ys)"
    by (auto simp: active_ok_def image_iff)
qed (fact cap)+

section \<open>Steps\<close>

lemma active_drop_simps [simp]:
  "is_fail_stopping (active_execution_drop fs now tid False)"
  "fs_active (active_execution_drop fs now tid False) = fs_active fs"
  by (auto simp: active_execution_drop_def activate_def is_fail_stopping_def Let_def split: phase.split)

lemma activate_simps [simp]:
  "is_fail_stopping (snd (activate fs now failure))"
  "fs_active (snd (activate fs now failure)) = fs_active fs"
  by (auto simp: activate_def is_fail_stopping_def Let_def split: phase.split)

lemma complete_simps [simp]:
  "is_fail_stopping (snd (fail_stop_complete fs tid)) = is_fail_stopping fs"
  "fs_active (snd (fail_stop_complete fs tid)) = fmdrop tid (fs_active fs)"
  by (simp_all add: fail_stop_complete_def is_fail_stopping_def)

lemma runtime_registry [simp]:
  "rt_registry (release_capacity rt) = rt_registry rt"
  "rt_registry (retain_capacity rt) = rt_registry rt"
  "rt_registry (complete_active tid rt) = rt_registry rt"
  "rt_registry (drop_active now tid rt) = rt_registry rt"
  "rt_registry (report_running_failure now tid rt) = rt_registry rt"
  "rt_registry (report_running_publication_failure now tid rt) = rt_registry rt"
  by (simp_all add: release_capacity_def retain_capacity_def complete_active_def drop_active_def
      report_running_failure_def report_running_publication_failure_def)

lemma runtime_fail_stop [simp]:
  "rt_fail_stop (release_capacity rt) = rt_fail_stop rt"
  "rt_fail_stop (retain_capacity rt) = rt_fail_stop rt"
  "is_fail_stopping (rt_fail_stop (complete_active tid rt)) = is_fail_stopping (rt_fail_stop rt)"
  "fs_active (rt_fail_stop (complete_active tid rt)) = fmdrop tid (fs_active (rt_fail_stop rt))"
  "is_fail_stopping (rt_fail_stop (drop_active now tid rt))"
  "fs_active (rt_fail_stop (drop_active now tid rt)) = fs_active (rt_fail_stop rt)"
  "is_fail_stopping (rt_fail_stop (report_running_failure now tid rt))"
  "fs_active (rt_fail_stop (report_running_failure now tid rt)) = fs_active (rt_fail_stop rt)"
  "is_fail_stopping (rt_fail_stop (report_running_publication_failure now tid rt))"
  "fs_active (rt_fail_stop (report_running_publication_failure now tid rt)) = fs_active (rt_fail_stop rt)"
  by (simp_all add: release_capacity_def retain_capacity_def complete_active_def drop_active_def
      report_running_failure_def report_running_publication_failure_def)

lemma runtime_capacity [simp]:
  "rt_capacity (retain_capacity rt) = retain_for_fail_stop (rt_capacity rt)"
  "rt_capacity (complete_active tid rt) = rt_capacity rt"
  "rt_capacity (drop_active now tid rt) = rt_capacity rt"
  "rt_capacity (report_running_failure now tid rt) = rt_capacity rt"
  "rt_capacity (report_running_publication_failure now tid rt) = rt_capacity rt"
  by (simp_all add: retain_capacity_def complete_active_def drop_active_def
      report_running_failure_def report_running_publication_failure_def)

lemma max_simps [simp]:
  "tc_max (retain_for_fail_stop cap) = tc_max cap"
  "tc_max (snd (drop_permit cap)) = tc_max cap"
  "try_acquire cap = Some cap' \<Longrightarrow> tc_max cap' = tc_max cap"
  by (auto simp: retain_for_fail_stop_def drop_permit_def try_acquire_def split: if_splits)

lemma release_capacity_invar:
  "capacity_invar (rt_capacity rt) (Suc k) \<Longrightarrow> capacity_invar (rt_capacity (release_capacity rt)) k"
  by (simp add: release_capacity_def drop_permit_invar retain_invar)

lemma release_capacity_max [simp]: "tc_max (rt_capacity (release_capacity rt)) = tc_max (rt_capacity rt)"
  by (simp add: release_capacity_def)

lemma readingsD:
  assumes "readings c clk c'"
  shows "c \<le> clk i" "i \<le> j \<Longrightarrow> clk i \<le> clk j" "clk i \<le> c'" "c \<le> c'"
  using assms unfolding readings_def by (meson le0 order_trans)+

lemma launch_full:
  assumes inv: "system_invar n m c s" and rd: "readings c clk c'"
    and jobs: "sy_jobs s = xs @ Admitted owner # ys"
    and full: "try_acquire (rt_capacity (sy_runtime s)) = None"
    and eq: "launch_owner owner clk (sy_runtime s) = (l, rt)"
  shows "system_invar n m c' \<lparr>sy_runtime = rt, sy_jobs = xs @ run_launch owner l @ ys\<rparr>"
proof -
  let ?g = "rt_registry (sy_runtime s)"
  define failure where "failure = \<lparr>sf_code = CapacityExhaustedCode, sf_message = Message CAPACITY_EXHAUSTED_MESSAGE\<rparr>"
  let ?r = "rollback_before_running ?g (clk 0) owner failure"
  note D = system_invarD [OF inv, unfolded jobs]
  have own: "owned ?g owner Reserved"
    using D(4) by (simp add: jobs_ok_def)
  have ri: "registry_invar ?g"
    by (rule registry_by_invar [OF D(1)])
  have rt: "rt_registry rt = snd ?r" "run_launch owner l = []" "rt_capacity rt = rt_capacity (sy_runtime s)"
    "is_fail_stopping (rt_fail_stop (sy_runtime s)) \<Longrightarrow> is_fail_stopping (rt_fail_stop rt)"
    "fmdrop (ow_task_id owner) (fs_active (rt_fail_stop rt)) =
      fmdrop (ow_task_id owner) (fs_active (rt_fail_stop (sy_runtime s)))"
    using eq full by (auto simp: launch_owner_def failure_def [symmetric] run_launch_def split_beta split: sum.splits)
  have act: "tid |\<in>| fmdom (fs_active (rt_fail_stop rt))"
    if "tid |\<in>| fmdom (fs_active (rt_fail_stop (sy_runtime s)))" "tid \<noteq> ow_task_id owner" for tid
    using that arg_cong [OF rt(5), of fmdom] by auto
  show ?thesis
    unfolding rt(2)
  proof (rule replace_invar [OF inv jobs])
    show "reach c ?g c' (rt_registry rt)"
      unfolding rt(1) by (rule reach_operations) (rule readingsD [OF rd])+
    show "kept {owner_cid (Admitted owner)} ?g (rt_registry rt)"
      unfolding rt(1) owner_cid_def using kept_rollback [OF ri] by simp
    show "closed (rt_registry rt) (owner_cid (Admitted owner)) \<or> is_fail_stopping (rt_fail_stop rt) \<or>
        owner_cid (Admitted owner) \<in> set (claims [])"
      unfolding rt(1) owner_cid_def using rollback_closed [OF ri own] by simp
    show "capacity_invar (rt_capacity rt) (length (filter holds_permit (xs @ [] @ ys)))" "tc_max (rt_capacity rt) = m"
      using D(2,3) by (simp_all add: rt(3))
  qed (use rt(4) act rollback_signals [of ?g "clk 0" owner failure] in \<open>simp_all add: rt(1) owner_tid_def\<close>)
qed

lemma launch_started:
  assumes inv: "system_invar n m c s" and rd: "readings c clk c'"
    and jobs: "sy_jobs s = xs @ Admitted owner # ys"
    and slot: "try_acquire (rt_capacity (sy_runtime s)) = Some cap"
    and eq: "launch_owner owner clk (sy_runtime s) = (l, rt)"
  shows "system_invar n m c' \<lparr>sy_runtime = rt, sy_jobs = xs @ run_launch owner l @ ys\<rparr>"
proof -
  let ?g = "rt_registry (sy_runtime s)"
  note D = system_invarD [OF inv, unfolded jobs]
  have own: "owned ?g owner Reserved"
    using D(4) by (simp add: jobs_ok_def)
  have rt: "rt_registry rt = snd (cancellation_channel ?g)"
    "run_launch owner l = [Executing owner (length (rg_cancellations ?g))]"
    "rt_capacity rt = cap" "rt_fail_stop rt = rt_fail_stop (sy_runtime s)"
    using eq slot by (auto simp: launch_owner_def run_launch_def cancellation_channel_def)
  show ?thesis
    unfolding rt(2)
  proof (rule replace_invar [OF inv jobs])
    show "reach c ?g c' (rt_registry rt)"
      unfolding rt(1) by (rule reach_silent(2)) (rule readingsD [OF rd])
    show "kept {owner_cid (Admitted owner)} ?g (rt_registry rt)"
      unfolding rt(1) by (rule kept_frame) (simp_all add: cancellation_channel_def)
    show "capacity_invar (rt_capacity rt) (length (filter holds_permit
        (xs @ [Executing owner (length (rg_cancellations ?g))] @ ys)))" "tc_max (rt_capacity rt) = m"
      using D(2,3) slot try_acquire_invar [OF D(2) slot] by (simp_all add: rt(3))
  qed (use own in \<open>simp_all add: rt cancellation_channel_def owner_cid_def owner_tid_def owned_def request_view_def\<close>)
qed

lemma fail_owner_simps [simp]:
  "rt_registry (snd (fail_owner now owner failure rt)) = snd (owner_fail (rt_registry rt) now owner failure)"
  "rt_fail_stop (snd (fail_owner now owner failure rt)) = rt_fail_stop rt"
  "rt_capacity (snd (fail_owner now owner failure rt)) = rt_capacity rt"
  "fst (fail_owner now owner failure rt) = fst (owner_fail (rt_registry rt) now owner failure)"
  by (simp_all add: fail_owner_def split_beta)

lemma running_invar:
  assumes inv: "system_invar n m c s" and rd: "readings c clk c'"
    and jobs: "sy_jobs s = xs @ Executing owner x # ys"
    and eq: "publish_owner_running owner running x clk (sy_runtime s) = (Inr ob, rt)"
  shows "system_invar n m c' \<lparr>sy_runtime = rt, sy_jobs = xs @ [Started owner] @ ys\<rparr>"
proof -
  let ?g = "rt_registry (sy_runtime s)"
  let ?r = "publish_running ?g (clk 0) owner (vr_snapshot running) (vr_effective_limits running) x"
  note D = system_invarD [OF inv, unfolded jobs]
  have ri: "registry_invar ?g" and x: "x < length (rg_cancellations ?g)"
    using registry_by_invar [OF D(1)] D(4) by (simp_all add: jobs_ok_def)
  obtain snapshot where r: "fst ?r = Inr snapshot"
    using eq by (cases "fst ?r") (auto simp: publish_owner_running_def split_beta)
  have rt: "rt = (sy_runtime s)\<lparr>rt_registry := snd ?r\<rparr>"
    using eq r by (simp add: publish_owner_running_def split_beta)
  have facts: "owned (snd ?r) owner (Active (vr_snapshot running) (Some (vr_effective_limits running)) (Some x))"
    "rg_signals (snd ?r) = (rg_signals ?g)[ow_signal owner := Some (ObservedTask (vr_snapshot running))]"
    using publish_running_cases [OF ri surjective_pairing [of ?r]] r by simp_all
  show ?thesis
  proof (rule replace_invar [OF inv jobs])
    show "reach c ?g c' (rt_registry rt)"
      using reach_operations(5) [OF readingsD(1,3) [OF rd] x] by (simp add: rt)
    show "kept {owner_cid (Executing owner x)} ?g (rt_registry rt)"
      using kept_publish_running [OF ri] by (simp add: rt owner_cid_def)
  qed (use D facts in \<open>auto simp: rt owner_cid_def owner_tid_def\<close>)
qed

lemma running_lost_invar:
  assumes inv: "system_invar n m c s" and rd: "readings c clk c'"
    and jobs: "sy_jobs s = xs @ Executing owner x # ys"
    and eq: "publish_owner_running owner running x clk (sy_runtime s) = (Inl ob, rt)"
  shows "system_invar n m c' \<lparr>sy_runtime = rt, sy_jobs = xs @ [Abandoned owner] @ ys\<rparr>"
proof -
  let ?g = "rt_registry (sy_runtime s)"
  let ?r = "publish_running ?g (clk 0) owner (vr_snapshot running) (vr_effective_limits running) x"
  note D = system_invarD [OF inv, unfolded jobs]
  have ri: "registry_invar ?g" and x: "x < length (rg_cancellations ?g)" and own: "owned ?g owner Reserved"
    using registry_by_invar [OF D(1)] D(4) by (simp_all add: jobs_ok_def)
  obtain e where r: "fst ?r = Inl e"
    using eq by (cases "fst ?r") (auto simp: publish_owner_running_def split_beta)
  let ?f = "owner_fail (snd ?r) (clk 2) owner (internal_failure e)"
  have rt: "rt_registry rt = snd ?f" "rt_capacity rt = retain_for_fail_stop (rt_capacity (sy_runtime s))"
    "is_fail_stopping (rt_fail_stop rt)" "fs_active (rt_fail_stop rt) = fs_active (rt_fail_stop (sy_runtime s))"
    using eq r by (auto simp: publish_owner_running_def split_beta)
  have facts: "kept {} ?g (snd ?r)" "rg_signals (snd ?r) = rg_signals ?g"
    using publish_running_cases [OF ri surjective_pairing [of ?r]] r by simp_all
  have pub: "reach c ?g (clk 0) (snd ?r)"
    using reach_operations(5) [OF readingsD(1) [OF rd] order_refl x] .
  then have ri': "registry_invar (snd ?r)"
    using registry_by_reach [OF D(1)] registry_by_invar by blast
  show ?thesis
  proof (rule replace_invar [OF inv jobs])
    show "reach c ?g c' (rt_registry rt)"
      unfolding rt(1) by (rule reach_trans [OF pub reach_operations(2)]) (rule readingsD [OF rd], simp?)+
    show "kept {owner_cid (Executing owner x)} ?g (rt_registry rt)"
      unfolding rt(1) using kept_trans [OF kept_mono [OF facts(1)] kept_owner_fail [OF ri']]
      by (simp add: owner_cid_def)
    show "capacity_invar (rt_capacity rt) (length (filter holds_permit (xs @ [Abandoned owner] @ ys)))"
      using retain_invar D(2) by (simp add: rt(2))
  qed (use D rt facts in \<open>auto simp: owner_cid_def owner_tid_def owner_fail_signals\<close>)
qed

lemma completion_simps [simp]:
  "fst (publish_completion p g) = fp_snapshot p"
  "rg_signals (snd (publish_completion p g)) =
     (rg_signals g)[fp_signal p := Some (ObservedTask (fp_snapshot p))]"
  "request_view (snd (publish_completion p g)) cid = request_view g cid"
  by (simp_all add: publish_completion_def publish_signal_def request_view_def Let_def split: option.split)

lemma publish_finished_simps [simp]:
  "fst (publish_finished tid p rt) = fp_snapshot p"
  "rt_registry (snd (publish_finished tid p rt)) = snd (publish_completion p (rt_registry rt))"
  "is_fail_stopping (rt_fail_stop (snd (publish_finished tid p rt))) = is_fail_stopping (rt_fail_stop rt)"
  "fs_active (rt_fail_stop (snd (publish_finished tid p rt))) = fmdrop tid (fs_active (rt_fail_stop rt))"
  "rt_capacity (snd (publish_finished tid p rt)) = rt_capacity (release_capacity rt)"
  by (simp_all add: publish_finished_def Let_def split_beta release_capacity_def)

text \<open>A stored result ends the job: view, signal, slot and active execution.\<close>

lemma finished_invar:
  assumes inv: "system_invar n m c s" and rd: "readings c clk c'"
    and jobs: "sy_jobs s = xs @ j # ys" "claiming j" "holds_permit j"
    and fin: "owner_finish (rt_registry (sy_runtime s)) (clk 0) (clk 1) (clk 2) (job_owner j) payload = (Inr p, g)"
  shows "system_invar n m c'
    \<lparr>sy_runtime = snd (publish_finished (owner_tid j) p ((sy_runtime s)\<lparr>rt_registry := g\<rparr>)), sy_jobs = xs @ [] @ ys\<rparr>"
    (is "system_invar n m c' \<lparr>sy_runtime = ?rt, sy_jobs = _\<rparr>")
proof -
  let ?g = "rt_registry (sy_runtime s)"
  note D = system_invarD [OF inv, unfolded jobs(1)]
  have ri: "registry_invar ?g"
    by (rule registry_by_invar [OF D(1)])
  have facts: "kept {owner_cid j} ?g g" "fp_signal p = ow_signal (job_owner j)" "rg_signals g = rg_signals ?g"
    "owned g (job_owner j) (Settled payload (clk 1))"
    using owner_finish_cases [OF ri fin] by (simp_all add: owner_cid_def)
  have "reach c ?g (clk 2) (snd (owner_finish ?g (clk 0) (clk 1) (clk 2) (job_owner j) payload))"
    by (rule reach_finish) (simp_all add: readingsD [OF rd])
  then have "reach c ?g (clk 2) g"
    by (simp only: fin snd_conv)
  from reach_trans [OF this reach_silent(1) [OF readingsD(3) [OF rd], where p = p]]
  have r: "reach c ?g c' (rt_registry ?rt)"
    by simp
  have cap: "capacity_invar (rt_capacity (sy_runtime s)) (Suc (length (filter holds_permit (xs @ ys))))"
    using D(2) jobs(3) by simp
  show ?thesis
  proof (rule replace_invar [OF inv jobs(1,2) r])
    show "kept {owner_cid j} ?g (rt_registry ?rt)"
      by (rule kept_trans [OF facts(1)], rule kept_eq) simp
    show "capacity_invar (rt_capacity ?rt) (length (filter holds_permit (xs @ [] @ ys)))" "tc_max (rt_capacity ?rt) = m"
      using release_capacity_invar [of "(sy_runtime s)\<lparr>rt_registry := g\<rparr>"] cap D(3) by simp_all
    show "closed (rt_registry ?rt) (owner_cid j) \<or> is_fail_stopping (rt_fail_stop ?rt) \<or> owner_cid j \<in> set (claims [])"
      using settled_not_live [OF facts(4)] by (simp add: closed_def owner_cid_def)
  qed (use facts(2,3) in \<open>auto simp: owner_tid_def\<close>)
qed

text \<open>A result that cannot be stored ends the job in fail-stop.\<close>

lemma unfinished_invar:
  assumes inv: "system_invar n m c s" and rd: "readings c clk c'"
    and jobs: "sy_jobs s = xs @ j # ys" "claiming j" "holds_permit j"
    and fin: "owner_finish (rt_registry (sy_runtime s)) (clk 0) (clk 1) (clk 2) (job_owner j) payload = (Inl e, g)"
  shows "system_invar n m c'
    \<lparr>sy_runtime = drop_active now (owner_tid j) (retain_capacity ((sy_runtime s)\<lparr>rt_registry := g\<rparr>)),
     sy_jobs = xs @ [] @ ys\<rparr>"
proof -
  let ?g = "rt_registry (sy_runtime s)"
  note D = system_invarD [OF inv, unfolded jobs(1)]
  have ri: "registry_invar ?g"
    by (rule registry_by_invar [OF D(1)])
  have facts: "kept {owner_cid j} ?g g" "\<exists>ob. rg_signals g = (rg_signals ?g)[ow_signal (job_owner j) := Some ob]"
    using owner_finish_cases [OF ri fin] by (simp_all add: owner_cid_def)
  have "reach c ?g c' (snd (owner_finish ?g (clk 0) (clk 1) (clk 2) (job_owner j) payload))"
    by (rule reach_finish) (simp_all add: readingsD [OF rd])
  then have r: "reach c ?g c' g"
    by (simp only: fin snd_conv)
  have cap: "capacity_invar (rt_capacity (sy_runtime s)) (Suc (length (filter holds_permit (xs @ ys))))"
    using D(2) jobs(3) by simp
  show ?thesis
    by (rule replace_invar [OF inv jobs(1,2)])
      (use r facts retain_invar [OF cap] D(3) in \<open>auto simp: owner_tid_def\<close>)
qed

text \<open>A failed execution ends the job; without a stored RUNNING the request is given up.\<close>

lemma failed_invar:
  assumes inv: "system_invar n m c s" and now: "c \<le> now" "now \<le> c'"
    and jobs: "sy_jobs s = xs @ j # ys" "claiming j" "holds_permit j"
    and rt: "rt_registry rt = snd (owner_fail (rt_registry (sy_runtime s)) now (job_owner j) failure)"
      "rt_capacity rt = retain_for_fail_stop (rt_capacity (sy_runtime s))"
      "is_fail_stopping (rt_fail_stop (sy_runtime s)) \<Longrightarrow> is_fail_stopping (rt_fail_stop rt)"
      "fs_active (rt_fail_stop rt) = fs_active (rt_fail_stop (sy_runtime s)) \<or>
       fs_active (rt_fail_stop rt) = fmdrop (owner_tid j) (fs_active (rt_fail_stop (sy_runtime s)))"
    and own: "is_fail_stopping (rt_fail_stop rt) \<or> owned (rt_registry (sy_runtime s)) (job_owner j) Reserved"
  shows "system_invar n m c' \<lparr>sy_runtime = rt, sy_jobs = xs @ [] @ ys\<rparr>"
proof -
  let ?g = "rt_registry (sy_runtime s)"
  note D = system_invarD [OF inv, unfolded jobs(1)]
  have ri: "registry_invar ?g"
    by (rule registry_by_invar [OF D(1)])
  have cap: "capacity_invar (rt_capacity (sy_runtime s)) (Suc (length (filter holds_permit (xs @ ys))))"
    using D(2) jobs(3) by simp
  show ?thesis
  proof (rule replace_invar [OF inv jobs(1,2)])
    show "reach c ?g c' (rt_registry rt)"
      unfolding rt(1) by (rule reach_operations(2) [OF now])
    show "kept {owner_cid j} ?g (rt_registry rt)"
      unfolding rt(1) owner_cid_def by (rule kept_owner_fail [OF ri])
    show "closed (rt_registry rt) (owner_cid j) \<or> is_fail_stopping (rt_fail_stop rt) \<or> owner_cid j \<in> set (claims [])"
      using own owner_fail_closed [OF ri] by (auto simp: rt(1) owner_cid_def)
    show "capacity_invar (rt_capacity rt) (length (filter holds_permit (xs @ [] @ ys)))" "tc_max (rt_capacity rt) = m"
      using retain_invar [OF cap] D(3) by (simp_all add: rt(2))
  qed (use rt(3,4) in \<open>auto simp: rt(1) owner_fail_signals\<close>)
qed

lemma settle_invar:
  assumes inv: "system_invar n m c s" and rd: "readings c clk c'"
    and jobs: "sy_jobs s = xs @ Started owner # ys"
  shows "system_invar n m c' \<lparr>sy_runtime = settle_running owner completion clk (sy_runtime s), sy_jobs = xs @ [] @ ys\<rparr>"
proof (cases completion)
  case (Inl failure)
  show ?thesis
    by (rule failed_invar [OF inv readingsD(1,3) [OF rd, of 1] jobs, of _ "ef_submit failure"])
      (simp_all add: Inl settle_running_def owner_tid_def Let_def)
next
  case (Inr payload)
  obtain r g where fin: "owner_finish (rt_registry (sy_runtime s)) (clk 0) (clk 1) (clk 2) owner payload = (r, g)"
    by fastforce
  show ?thesis
  proof (cases r)
    case (Inl e)
    with fin have "owner_finish (rt_registry (sy_runtime s)) (clk 0) (clk 1) (clk 2)
        (job_owner (Started owner)) payload = (Inl e, g)"
      by simp
    from unfinished_invar [OF inv rd jobs _ _ this] fin Inr Inl show ?thesis
      by (simp add: settle_running_def owner_tid_def)
  next
    case (Inr p)
    with fin have "owner_finish (rt_registry (sy_runtime s)) (clk 0) (clk 1) (clk 2)
        (job_owner (Started owner)) payload = (Inr p, g)"
      by simp
    from finished_invar [OF inv rd jobs _ _ this] fin \<open>completion = Inr payload\<close> Inr show ?thesis
      by (simp add: settle_running_def owner_tid_def)
  qed
qed

lemma rolled_back_invar:
  assumes inv: "system_invar n m c s" and rd: "readings c clk c'"
    and jobs: "sy_jobs s = xs @ Executing owner x # ys"
    and eq: "finish_without_running owner (Inl failure) clk (sy_runtime s) = (ob, rt)"
    and reusable: "ef_capacity_reusable failure"
  shows "system_invar n m c' \<lparr>sy_runtime = rt, sy_jobs = xs @ [] @ ys\<rparr>"
proof -
  let ?g = "rt_registry (sy_runtime s)"
  let ?r = "rollback_before_running ?g (clk 0) owner (ef_submit failure)"
  note D = system_invarD [OF inv, unfolded jobs]
  have ri: "registry_invar ?g" and own: "owned ?g owner Reserved"
    using registry_by_invar [OF D(1)] D(4) by (simp_all add: jobs_ok_def)
  have cap: "capacity_invar (rt_capacity (sy_runtime s)) (Suc (length (filter holds_permit (xs @ ys))))"
    using D(2) by simp
  have rt: "rt_registry rt = snd ?r"
    "capacity_invar (rt_capacity rt) (length (filter holds_permit (xs @ ys)))" "tc_max (rt_capacity rt) = m"
    "is_fail_stopping (rt_fail_stop (sy_runtime s)) \<Longrightarrow> is_fail_stopping (rt_fail_stop rt)"
    "fmdrop (ow_task_id owner) (fs_active (rt_fail_stop rt)) =
      fmdrop (ow_task_id owner) (fs_active (rt_fail_stop (sy_runtime s)))"
    using eq reusable release_capacity_invar retain_invar [OF cap] cap D(3)
    by (auto simp: finish_without_running_def split_beta split: sum.splits)
  have act: "tid |\<in>| fmdom (fs_active (rt_fail_stop rt))"
    if "tid |\<in>| fmdom (fs_active (rt_fail_stop (sy_runtime s)))" "tid \<noteq> ow_task_id owner" for tid
    using that arg_cong [OF rt(5), of fmdom] by auto
  show ?thesis
  proof (rule replace_invar [OF inv jobs])
    show "reach c ?g c' (rt_registry rt)"
      unfolding rt(1) by (rule reach_operations) (rule readingsD [OF rd])+
    show "kept {owner_cid (Executing owner x)} ?g (rt_registry rt)"
      unfolding rt(1) owner_cid_def using kept_rollback [OF ri] by simp
    show "closed (rt_registry rt) (owner_cid (Executing owner x)) \<or> is_fail_stopping (rt_fail_stop rt) \<or>
        owner_cid (Executing owner x) \<in> set (claims [])"
      unfolding rt(1) owner_cid_def using rollback_closed [OF ri own] by simp
  qed (use rt act rollback_signals [of ?g "clk 0" owner "ef_submit failure"] in \<open>simp_all add: owner_tid_def\<close>)
qed

lemma settle_early_invar:
  assumes inv: "system_invar n m c s" and rd: "readings c clk c'"
    and jobs: "sy_jobs s = xs @ Executing owner x # ys"
    and eq: "finish_without_running owner completion clk (sy_runtime s) = (ob, rt)"
  shows "system_invar n m c' \<lparr>sy_runtime = rt, sy_jobs = xs @ [] @ ys\<rparr>"
proof (cases completion)
  case (Inl failure)
  note D = system_invarD [OF inv, unfolded jobs]
  have own: "owned (rt_registry (sy_runtime s)) owner Reserved"
    using D(4) by (simp add: jobs_ok_def)
  show ?thesis
  proof (cases "ef_capacity_reusable failure")
    case True
    from rolled_back_invar [OF inv rd jobs eq [unfolded Inl] True] show ?thesis .
  next
    case False
    then have rt: "rt = (let rt1 = snd (fail_owner (clk 0) owner (ef_submit failure) (retain_capacity (sy_runtime s)))
        in if ef_cleanup_complete failure then complete_active (ow_task_id owner) rt1
           else drop_active (clk 1) (ow_task_id owner) rt1)"
      using eq Inl by (auto simp: finish_without_running_def split_beta)
    show ?thesis
      by (rule failed_invar [OF inv readingsD(1,3) [OF rd, of 0] jobs, of _ "ef_submit failure"])
        (simp_all add: rt Let_def owner_tid_def own)
  qed
next
  case (Inr payload)
  obtain r g where fin: "owner_finish (rt_registry (sy_runtime s)) (clk 0) (clk 1) (clk 2)
      (job_owner (Executing owner x)) payload = (r, g)"
    by fastforce
  show ?thesis
  proof (cases r)
    case (Inl e)
    from unfinished_invar [OF inv rd jobs _ _ fin [unfolded Inl]] fin Inr Inl eq show ?thesis
      by (auto simp: finish_without_running_def owner_tid_def)
  next
    case (Inr p)
    from finished_invar [OF inv rd jobs _ _ fin [unfolded Inr]] fin \<open>completion = Inr payload\<close> Inr eq show ?thesis
      by (auto simp: finish_without_running_def owner_tid_def split_beta)
  qed
qed

lemma abandoned_invar:
  assumes inv: "system_invar n m c s" and "c \<le> now" and jobs: "sy_jobs s = xs @ Abandoned owner # ys"
  shows "system_invar n m now \<lparr>sy_runtime = drop_active now tid (sy_runtime s), sy_jobs = xs @ ys\<rparr>"
proof (rule system_invarI)
  note D = system_invarD [OF inv, unfolded jobs]
  show "registry_by n now (rt_registry (drop_active now tid (sy_runtime s)))"
    using registry_by_reach [OF D(1) reach_refl [OF assms(2)]] by simp
qed (use system_invarD [OF inv, unfolded jobs] in
    \<open>auto simp: jobs_ok_def signals_covered_def live_covered_def active_ok_def\<close>)

lemma job_live: "job_ok g j \<Longrightarrow> claiming j \<Longrightarrow> live (request_view g (owner_cid j))"
  by (cases j) (auto simp: owner_cid_def dest: owned_live)

lemma claimed_live: "jobs_ok g jobs \<Longrightarrow> cid \<in> set (claims jobs) \<Longrightarrow> live (request_view g cid)"
  by (auto simp: jobs_ok_def claims_def dest: job_live)

text \<open>Nobody's request is touched.\<close>

lemma stay_invar:
  assumes inv: "system_invar n m c s"
    and reach: "reach c (rt_registry (sy_runtime s)) c' (rt_registry rt)"
    and kept: "kept X (rt_registry (sy_runtime s)) (rt_registry rt)"
      "\<And>cid. cid \<in> X \<Longrightarrow> \<not> live (request_view (rt_registry (sy_runtime s)) cid) \<and> closed (rt_registry rt) cid"
    and sig: "\<And>k. k < length (rg_signals (rt_registry rt)) \<Longrightarrow> rg_signals (rt_registry rt) ! k = None \<Longrightarrow>
      k < length (rg_signals (rt_registry (sy_runtime s))) \<and> rg_signals (rt_registry (sy_runtime s)) ! k = None"
    and stop: "is_fail_stopping (rt_fail_stop (sy_runtime s)) \<Longrightarrow> is_fail_stopping (rt_fail_stop rt)"
    and act: "fmdom (fs_active (rt_fail_stop rt)) = fmdom (fs_active (rt_fail_stop (sy_runtime s)))"
    and cap: "rt_capacity rt = rt_capacity (sy_runtime s)"
  shows "system_invar n m c' \<lparr>sy_runtime = rt, sy_jobs = sy_jobs s\<rparr>"
proof (rule system_invarI)
  let ?g = "rt_registry (sy_runtime s)"
  note D = system_invarD [OF inv]
  show "registry_by n c' (rt_registry rt)"
    by (rule registry_by_reach [OF D(1) reach])
  have "job_ok (rt_registry rt) j" if j: "j \<in> set (sy_jobs s)" for j
  proof (rule job_ok_kept [OF _ kept(1) _ reach_cancellations [OF reach]])
    show "job_ok ?g j"
      using D(4) j by (simp add: jobs_ok_def)
    then show "owner_cid j \<notin> X" if "claiming j"
      using job_live [OF _ that] kept(2) by blast
  qed
  with D(4) show "jobs_ok (rt_registry rt) (sy_jobs s)"
    by (simp add: jobs_ok_def)
  show "signals_covered (rt_registry rt) (sy_jobs s)"
    using D(5) sig by (simp add: signals_covered_def)
  show "live_covered (rt_registry rt) (rt_fail_stop rt) (sy_jobs s)"
    unfolding live_covered_def
  proof (intro allI impI)
    fix cid
    assume l: "live (request_view (rt_registry rt) cid)"
    show "rg_poisoned (rt_registry rt) \<or> is_fail_stopping (rt_fail_stop rt) \<or> cid \<in> set (claims (sy_jobs s))"
    proof (cases "cid \<in> X")
      case True
      with kept(2) l show ?thesis
        by (auto simp: closed_def)
    next
      case False
      then have "live (request_view ?g cid)"
        using keptD [OF kept(1), of cid] l by auto
      with D(6) reach_poisoned [OF reach] stop show ?thesis
        by (auto simp: live_covered_def)
    qed
  qed
  show "active_ok (rt_fail_stop rt) (sy_jobs s)"
    using D(7) by (simp add: active_ok_def act)
qed (use system_invarD [OF inv] in \<open>simp_all add: cap\<close>)

lemma register_ok:
  "register fs tid = Inr fs' \<Longrightarrow>
   is_fail_stopping fs' = is_fail_stopping fs \<and> tid |\<notin>| fmdom (fs_active fs) \<and>
   fmdom (fs_active fs') = finsert tid (fmdom (fs_active fs))"
  by (auto simp: register_def is_fail_stopping_def split: if_splits)

lemma admitted_invar:
  assumes inv: "system_invar n m c s"
    and reach: "reach c (rt_registry (sy_runtime s)) c' (rt_registry rt)"
    and kept: "kept {ow_client_request_id owner} (rt_registry (sy_runtime s)) (rt_registry rt)"
      "\<not> live (request_view (rt_registry (sy_runtime s)) (ow_client_request_id owner))"
    and own: "owned (rt_registry rt) owner Reserved"
    and sig: "rg_signals (rt_registry rt) = rg_signals (rt_registry (sy_runtime s)) @ [None]"
      "ow_signal owner = length (rg_signals (rt_registry (sy_runtime s)))"
    and fs: "register (rt_fail_stop (sy_runtime s)) (ow_task_id owner) = Inr (rt_fail_stop rt)"
    and cap: "rt_capacity rt = rt_capacity (sy_runtime s)"
  shows "system_invar n m c' \<lparr>sy_runtime = rt, sy_jobs = sy_jobs s @ [Admitted owner]\<rparr>"
proof (rule system_invarI)
  let ?g = "rt_registry (sy_runtime s)" and ?cid = "ow_client_request_id owner"
  note D = system_invarD [OF inv]
  have fresh: "?cid \<notin> set (claims (sy_jobs s))"
    using claimed_live [OF D(4)] kept(2) by blast
  show "registry_by n c' (rt_registry rt)"
    by (rule registry_by_reach [OF D(1) reach])
  have "job_ok (rt_registry rt) j" if j: "j \<in> set (sy_jobs s)" for j
  proof (rule job_ok_kept [OF _ kept(1) _ reach_cancellations [OF reach]])
    show "job_ok ?g j"
      using D(4) j by (simp add: jobs_ok_def)
    show "owner_cid j \<notin> {?cid}" if "claiming j"
      using fresh j that by (force simp: claims_def)
  qed
  with D(4) fresh own show "jobs_ok (rt_registry rt) (sy_jobs s @ [Admitted owner])"
    by (auto simp: jobs_ok_def owner_cid_def)
  show "signals_covered (rt_registry rt) (sy_jobs s @ [Admitted owner])"
    unfolding signals_covered_def
  proof (intro allI impI)
    fix k
    assume "k < length (rg_signals (rt_registry rt))" "rg_signals (rt_registry rt) ! k = None"
    then have "k = ow_signal owner \<or> k < length (rg_signals ?g) \<and> rg_signals ?g ! k = None"
      by (auto simp: sig nth_append less_Suc_eq split: if_splits)
    with D(5) show "\<exists>j \<in> set (sy_jobs s @ [Admitted owner]). unannounced j \<and> ow_signal (job_owner j) = k"
      by (auto simp: signals_covered_def)
  qed
  have same: "is_fail_stopping (rt_fail_stop rt) = is_fail_stopping (rt_fail_stop (sy_runtime s))"
    "ow_task_id owner |\<notin>| fmdom (fs_active (rt_fail_stop (sy_runtime s)))"
    "fmdom (fs_active (rt_fail_stop rt)) = finsert (ow_task_id owner) (fmdom (fs_active (rt_fail_stop (sy_runtime s))))"
    using register_ok [OF fs] by simp_all
  show "live_covered (rt_registry rt) (rt_fail_stop rt) (sy_jobs s @ [Admitted owner])"
    unfolding live_covered_def
  proof (intro allI impI)
    fix cid
    assume l: "live (request_view (rt_registry rt) cid)"
    show "rg_poisoned (rt_registry rt) \<or> is_fail_stopping (rt_fail_stop rt) \<or>
        cid \<in> set (claims (sy_jobs s @ [Admitted owner]))"
    proof (cases "cid = ?cid")
      case False
      then have "live (request_view ?g cid)"
        using keptD [OF kept(1), of cid] l by auto
      with D(6) reach_poisoned [OF reach] same(1) show ?thesis
        by (auto simp: live_covered_def)
    qed (simp add: owner_cid_def)
  qed
  show "active_ok (rt_fail_stop rt) (sy_jobs s @ [Admitted owner])"
    using D(7) same(2,3) by (auto simp: active_ok_def owner_tid_def)
qed (use system_invarD [OF inv] in \<open>simp_all add: cap\<close>)

lemma runtime_with_registry [simp]: "rt_registry (rt\<lparr>rt_registry := g\<rparr>) = g"
  by simp

lemma admit_invar:
  assumes inv: "system_invar n m c s" and rd: "readings c clk c'"
    and eq: "admit_submit validated candidate clk (sy_runtime s) = (a, rt)"
  shows "system_invar n m c' \<lparr>sy_runtime = rt, sy_jobs = sy_jobs s @ run_admission a\<rparr>"
proof -
  let ?rt = "sy_runtime s" and ?g = "rt_registry (sy_runtime s)"
  note D = system_invarD [OF inv]
  have ri: "registry_invar ?g"
    by (rule registry_by_invar [OF D(1)])
  obtain r g where res: "reserve_submit_with ?g (clk 0) validated candidate = (r, g)"
    by fastforce
  have rg: "reach c ?g (clk 0) g" "reach c ?g c' g"
    using reach_operations(1) [OF readingsD(1) [OF rd] order_refl, of ?g 0 validated candidate]
      reach_operations(1) [OF readingsD(1,3) [OF rd], of ?g 0 validated candidate] by (simp_all add: res)
  have k: "kept {submit_client_request_id validated} ?g g"
    using kept_reserve [OF ri, of validated "clk 0" candidate] by (simp add: res)
  show ?thesis
  proof (cases "try_admit (rt_fail_stop ?rt)")
    case False
    then have "rt = ?rt" "run_admission a = []"
      using eq by (auto simp: admit_submit_def run_admission_def)
    with stay_invar [OF inv, of c' ?rt "{}"] reach_refl [OF readingsD(4) [OF rd]] show ?thesis
      by simp
  next
    case adm: True
    show ?thesis
      using reserve_cases [OF ri res]
    proof (elim disjE exE conjE)
      assume no: "\<forall>owner. r \<noteq> Inr (Owner owner)" and "kept {} ?g g" "rg_signals g = rg_signals ?g"
      have "rt = ?rt\<lparr>rt_registry := g\<rparr>" "run_admission a = []"
        using eq adm res no
        by (auto simp: admit_submit_def run_admission_def split: sum.splits submit_reservation.splits)
      with stay_invar [OF inv, of c' rt "{}"] rg(2) \<open>kept {} ?g g\<close> \<open>rg_signals g = rg_signals ?g\<close> show ?thesis
        by simp
    next
      fix owner
      assume ow: "r = Inr (Owner owner)" "ow_client_request_id owner = submit_client_request_id validated"
        "ow_task_id owner = candidate" "owned g owner Reserved" "rg_signals g = rg_signals ?g @ [None]"
        "ow_signal owner = length (rg_signals ?g)" "\<not> live (request_view ?g (submit_client_request_id validated))"
      show ?thesis
      proof (cases "register (rt_fail_stop ?rt) (ow_task_id owner)")
        case (Inr fs)
        then have "rt = ?rt\<lparr>rt_registry := g, rt_fail_stop := fs\<rparr>" "run_admission a = [Admitted owner]"
          using eq adm res ow(1) by (auto simp: admit_submit_def run_admission_def)
        with admitted_invar [OF inv, of c' rt owner] rg(2) k ow Inr show ?thesis
          by simp
      next
        case (Inl e)
        have rt: "rt = ?rt\<lparr>rt_registry := owner_drop g (clk 1) owner\<rparr>" "run_admission a = []"
          using eq adm res ow(1) Inl by (auto simp: admit_submit_def run_admission_def)
        have ri': "registry_invar g"
          using registry_by_invar [OF registry_by_reach [OF D(1) rg(1)]] .
        have "reach (clk 0) g c' (owner_drop g (clk 1) owner)"
          by (rule reach_operations) (simp_all add: readingsD [OF rd])
        note path = reach_trans [OF rg(1) this]
        have "kept {submit_client_request_id validated} ?g (owner_drop g (clk 1) owner)"
          using kept_trans [OF k] kept_owner_fail [OF ri', of owner] ow(2) by (simp add: owner_drop_def)
        moreover have "closed (owner_drop g (clk 1) owner) (submit_client_request_id validated)"
          using owner_fail_closed [OF ri' ow(4)] ow(2) by (simp add: owner_drop_def)
        moreover have "k < length (rg_signals ?g) \<and> rg_signals ?g ! k = None"
          if "k < length (rg_signals (owner_drop g (clk 1) owner))"
            "rg_signals (owner_drop g (clk 1) owner) ! k = None" for k
          using that ow(5,6)
          by (cases "k = ow_signal owner")
            (auto simp: owner_drop_def owner_fail_signals nth_append less_Suc_eq)
        ultimately show ?thesis
          using stay_invar [OF inv, of c' rt "{submit_client_request_id validated}"] path ow(7) rt by simp
      qed
    qed
  qed
qed

lemma client_kept: "client_step c g c' g' \<Longrightarrow> registry_invar g \<Longrightarrow> kept {} g g'"
  by (induction rule: client_step.induct) (simp_all add: kept_queries kept_frame)

lemma client_signals: "client_step c g c' g' \<Longrightarrow> rg_signals g' = rg_signals g"
  by (induction rule: client_step.induct)
    (simp_all add: existing_submit_def registry_snapshot_def snapshot_by_client_request_id_def
      has_client_request_id_def effective_limits_for_def request_cancel_def locked_def split: option.split)

lemma client_registry_step:
  "client_step c g c' g' \<Longrightarrow> c0 \<le> c \<Longrightarrow> \<exists>c1. c1 \<le> c' \<and> registry_step c0 g c1 g'"
  by (induction rule: client_step.induct) (rule exI, rule conjI [rotated], rule registry_step.intros, simp_all)+

lemma client_reach: "client_step c g c' g' \<Longrightarrow> reach c g c' g'"
  unfolding reach_def registry_steps_def by (fastforce dest: client_registry_step intro: r_into_rtranclp)

lemma client_invar:
  assumes inv: "system_invar n m c s" and st: "client_step c (rt_registry (sy_runtime s)) c' g"
  shows "system_invar n m c' (s\<lparr>sy_runtime := (sy_runtime s)\<lparr>rt_registry := g\<rparr>\<rparr>)"
proof -
  let ?rt = "(sy_runtime s)\<lparr>rt_registry := g\<rparr>"
  have "kept {} (rt_registry (sy_runtime s)) g"
    by (rule client_kept [OF st registry_by_invar [OF system_invarD(1) [OF inv]]])
  with stay_invar [OF inv, of c' ?rt "{}"] client_reach [OF st] client_signals [OF st] show ?thesis
    by (cases s) simp
qed

lemma fail_stop_invar:
  assumes inv: "system_invar n m c s" and "c \<le> c'"
    and "is_fail_stopping (rt_fail_stop (sy_runtime s)) \<Longrightarrow> is_fail_stopping fs"
      "fmdom (fs_active fs) = fmdom (fs_active (rt_fail_stop (sy_runtime s)))"
  shows "system_invar n m c' (s\<lparr>sy_runtime := (sy_runtime s)\<lparr>rt_fail_stop := fs\<rparr>\<rparr>)"
  using stay_invar [OF inv, of c' "(sy_runtime s)\<lparr>rt_fail_stop := fs\<rparr>" "{}"] reach_refl [OF assms(2)] assms(3,4)
  by (cases s) simp

lemma commit_simps [simp]:
  "is_fail_stopping (snd (commit_start fs tid gate)) = is_fail_stopping fs"
  "fmdom (fs_active (snd (commit_start fs tid gate))) = fmdom (fs_active fs)"
  by (auto simp: commit_start_def is_fail_stopping_def intro: fmdomI
      split: phase.splits option.splits start_state.splits sum.splits)

lemma system_invar_later: "system_invar n m c s \<Longrightarrow> c \<le> c' \<Longrightarrow> system_invar n m c' s"
  unfolding system_invar_def using registry_by_reach [OF _ reach_refl] by blast

lemma running_early_clock:
  "2 \<le> k \<Longrightarrow> publish_owner_running owner running x (\<lambda>i. clk (min i k)) rt =
   publish_owner_running owner running x clk rt"
  by (simp add: publish_owner_running_def min_absorb1 split: prod.split sum.split)

lemma readings_cut:
  assumes "readings c clk c'"
  shows "readings c (\<lambda>i. clk (min i k)) (clk k)"
  using assms by (auto simp: readings_def)

lemma readings_shift:
  assumes "readings c clk c'"
  shows "readings (clk k) (\<lambda>i. clk (i + k)) c'"
  using assms by (auto simp: readings_def)

lemma settle_both_invar:
  assumes inv: "system_invar n m c s" and rd: "readings c clk c'"
    and jobs: "sy_jobs s = xs @ Executing owner x # ys"
    and eq: "finish_after_running owner running x completion clk (sy_runtime s) = (ob, rt)"
  shows "system_invar n m c' \<lparr>sy_runtime = rt, sy_jobs = xs @ [] @ ys\<rparr>"
proof -
  obtain r rt1 where pub: "publish_owner_running owner running x clk (sy_runtime s) = (r, rt1)"
    by fastforce
  then have pub': "publish_owner_running owner running x (\<lambda>i. clk (min i 3)) (sy_runtime s) = (r, rt1)"
    by (simp add: running_early_clock)
  note cut = readings_cut [OF rd, of 3]
  show ?thesis
  proof (cases r)
    case (Inl o1)
    note running_lost_invar [OF inv cut jobs pub' [unfolded Inl]]
    then have "system_invar n m (clk 3) \<lparr>sy_runtime = drop_active (clk 3) (ow_task_id owner) rt1, sy_jobs = xs @ ys\<rparr>"
      using abandoned_invar [OF _ order_refl, of n m "clk 3" "\<lparr>sy_runtime = rt1, sy_jobs = xs @ [Abandoned owner] @ ys\<rparr>"
          xs owner ys "ow_task_id owner"] by simp
    with eq pub Inl system_invar_later [OF _ readingsD(3) [OF rd, of 3]] show ?thesis
      by (simp add: finish_after_running_def)
  next
    case (Inr o1)
    note run = running_invar [OF inv cut jobs pub' [unfolded Inr]]
    from settle_invar [OF run readings_shift [OF rd, of 3], of xs owner ys completion] eq pub Inr show ?thesis
      by (simp add: finish_after_running_def)
  qed
qed

lemma system_step_invar:
  assumes "system_step c s c' s'" "system_invar n m c s"
  shows "system_invar n m c' s'"
  using assms
proof (induction rule: system_step.induct)
  case (launch c clk c' s xs owner ys l rt)
  then show ?case
    using launch_full launch_started by (cases "try_acquire (rt_capacity (sy_runtime s))") blast+
next
  case (running c clk c' s xs owner x ys running ob rt)
  then show ?case
    using running_invar by fastforce
next
  case (running_lost c clk c' s xs owner x ys running ob rt)
  then show ?case
    using running_lost_invar by fastforce
next
  case (settle c clk c' s xs owner ys completion)
  then show ?case
    using settle_invar by fastforce
next
  case (settle_both c clk c' s xs owner x ys running completion ob rt)
  then show ?case
    using settle_both_invar by fastforce
next
  case (settle_early c clk c' s xs owner x ys completion ob rt)
  then show ?case
    using settle_early_invar by fastforce
qed (simp_all add: client_invar admit_invar abandoned_invar fail_stop_invar)

lemma system_run_invar: "system_run n m timeout c s \<Longrightarrow> system_invar n m c s"
proof (induction rule: system_run.induct)
  case (start c)
  have "registry_by n c (registry_new n)"
    using registry_run.start by (auto simp: registry_by_def)
  then show ?case
    by (intro system_invarI)
      (simp_all add: task_service_new_def capacity_invar_def task_capacity_new_def jobs_ok_def
        signals_covered_def live_covered_def active_ok_def registry_new_def request_view_def view_of_def)
next
  case (step c s c' s')
  then show ?case
    by (simp add: system_step_invar)
qed

section \<open>Answers\<close>

lemma answered:
  "k < length (rg_signals g) \<Longrightarrow> rg_signals g' = (rg_signals g)[k := Some ob] \<Longrightarrow> rg_signals g' ! k \<noteq> None"
  by simp

lemma launch_answers:
  assumes "ow_signal owner < length (rg_signals (rt_registry rt))"
    "launch_owner owner clk rt = (l, rt')" "\<And>x. l \<noteq> Launched x"
  shows "rg_signals (rt_registry rt') ! ow_signal owner \<noteq> None"
proof -
  have "try_acquire (rt_capacity rt) = None"
    using assms(2,3) by (auto simp: launch_owner_def split_beta split: option.splits)
  then have "rt_registry rt' = snd (rollback_before_running (rt_registry rt) (clk 0) owner
      \<lparr>sf_code = CapacityExhaustedCode, sf_message = Message CAPACITY_EXHAUSTED_MESSAGE\<rparr>)"
    using assms(2) by (auto simp: launch_owner_def split_beta split: sum.splits)
  with rollback_signals [of "rt_registry rt" "clk 0" owner] assms(1) show ?thesis
    by (metis answered)
qed

lemma running_answers:
  assumes inv: "registry_invar (rt_registry rt)" and k: "ow_signal owner < length (rg_signals (rt_registry rt))"
  shows "rg_signals (rt_registry (snd (publish_owner_running owner running x clk rt))) ! ow_signal owner \<noteq> None"
proof -
  let ?r = "publish_running (rt_registry rt) (clk 0) owner (vr_snapshot running) (vr_effective_limits running) x"
  note facts = publish_running_cases [OF inv surjective_pairing [of ?r]]
  show ?thesis
  proof (cases "fst ?r")
    case (Inl e)
    with facts k show ?thesis
      by (simp add: publish_owner_running_def split_beta owner_fail_signals)
  next
    case (Inr snapshot)
    with facts k show ?thesis
      by (simp add: publish_owner_running_def split_beta)
  qed
qed

lemma finish_answers:
  assumes inv: "registry_invar (rt_registry rt)" and k: "ow_signal owner < length (rg_signals (rt_registry rt))"
  shows "rg_signals (rt_registry (snd (finish_without_running owner completion clk rt))) ! ow_signal owner \<noteq> None"
proof (cases completion)
  case (Inl failure)
  then show ?thesis
    using k rollback_signals [of "rt_registry rt" "clk 0" owner "ef_submit failure"]
    by (cases "ef_capacity_reusable failure")
      (auto simp: finish_without_running_def split_beta owner_fail_signals split: sum.split)
next
  case (Inr payload)
  let ?r = "owner_finish (rt_registry rt) (clk 0) (clk 1) (clk 2) owner payload"
  note facts = owner_finish_cases [OF inv surjective_pairing [of ?r]]
  show ?thesis
  proof (cases "fst ?r")
    case (Inl e)
    with facts k Inr show ?thesis
      by (auto simp: finish_without_running_def split_beta)
  next
    case (Inr p)
    with facts k \<open>completion = Inr payload\<close> show ?thesis
      by (auto simp: finish_without_running_def split_beta)
  qed
qed

lemma job_signal:
  "registry_invar g \<Longrightarrow> job_ok g j \<Longrightarrow> claiming j \<Longrightarrow> ow_signal (job_owner j) < length (rg_signals g)"
  by (cases j) (auto dest: owned_signal)

text \<open>Whatever the submission does next answers the waiter.\<close>

fun answers_next :: "runtime \<Rightarrow> submit_waiter \<Rightarrow> job \<Rightarrow> bool" where
  "answers_next rt w (Admitted owner) =
     (\<forall>clk. case launch_owner owner clk rt of
        (Launched _, _) \<Rightarrow> True
      | (_, rt') \<Rightarrow> waiter_poll (rt_registry rt') w \<noteq> None)"
| "answers_next rt w (Executing owner x) =
     ((\<forall>running clk. waiter_poll (rt_registry
         (snd (publish_owner_running owner running x clk rt))) w \<noteq> None) \<and>
      (\<forall>completion clk. waiter_poll (rt_registry
         (snd (finish_without_running owner completion clk rt))) w \<noteq> None))"
| "answers_next rt w _ = False"

lemma job_view:
  "job_ok g j \<Longrightarrow> claiming j \<Longrightarrow>
   \<exists>ident ph. request_view g (owner_cid j) = Present (owner_tid j) ident (ow_signal (job_owner j)) ph"
  by (cases j) (auto simp: owner_cid_def owner_tid_def owned_def)

section \<open>An example\<close>

definition example_system :: "runtime \<Rightarrow> job list \<Rightarrow> system" where
  "example_system rt jobs = \<lparr>sy_runtime = rt, sy_jobs = jobs\<rparr>"

definition example_running_task :: verified_running where
  "example_running_task = \<lparr>vr_snapshot = Running ''t'' ''s'' ''r'', vr_effective_limits = example_limits\<rparr>"

lemma example_reserve:
  "reserve_submit_with (registry_new 2) 5 (example_request ''c'') ''t'' =
     (Ok (Owner example_owner), example_reserved)"
  by (simp add: example_reserved_def reserve_submit_with_def locked_def purge_expired_def registry_new_def
      example_owner_def Let_def)

lemma example_owner_simps [simp]:
  "ow_client_request_id example_owner = ''c''" "ow_task_id example_owner = ''t''" "ow_signal example_owner = 0"
  by (simp_all add: example_owner_def)

definition example_admitted :: "u32 \<Rightarrow> runtime" where
  "example_admitted slots = (task_service_new 2 slots 10)\<lparr>rt_registry := example_reserved,
     rt_fail_stop := (fail_stop_new 10)\<lparr>fs_active := fmupd ''t'' Pending fmempty\<rparr>\<rparr>"

lemma example_admit_eq:
  "admit_submit (example_request ''c'') ''t'' (\<lambda>_. 5) (task_service_new 2 slots 10) =
     (AdmissionOwner example_owner, example_admitted slots)"
  by (simp add: admit_submit_def example_admitted_def task_service_new_def example_reserve try_admit_def
      register_def fail_stop_new_def)

lemma example_admitted_run:
  "system_run 2 slots 10 5 \<lparr>sy_runtime = example_admitted slots, sy_jobs = [Admitted example_owner]\<rparr>"
proof -
  let ?s = "\<lparr>sy_runtime = task_service_new 2 slots 10, sy_jobs = []\<rparr>"
  have "readings 0 (\<lambda>_. 5) 5"
    by (simp add: readings_def)
  from system_step.admit [OF this, of "example_request ''c''" "''t''" ?s] example_admit_eq [of slots]
  have "system_step 0 ?s 5 \<lparr>sy_runtime = example_admitted slots, sy_jobs = [Admitted example_owner]\<rparr>"
    by (simp add: run_admission_def)
  from system_run.step [OF system_run.start this] show ?thesis .
qed

lemma example_admit:
  "rt_registry (example_admitted slots) = example_reserved"
  "rt_capacity (example_admitted slots) = task_capacity_new slots"
  "rt_fail_stop (example_admitted slots) = (fail_stop_new 10)\<lparr>fs_active := fmupd ''t'' Pending fmempty\<rparr>"
  by (simp_all add: example_admitted_def task_service_new_def)

definition example_rt2 :: runtime where
  "example_rt2 = snd (launch_owner example_owner (\<lambda>_. 5) (example_admitted 1))"

definition example_rt3 :: runtime where
  "example_rt3 = snd (publish_owner_running example_owner example_running_task 0 (\<lambda>_. 6) example_rt2)"

lemma example_launch:
  "launch_owner example_owner (\<lambda>_. 5) (example_admitted 1) = (Launched 0, example_rt2)"
  "rt_registry example_rt2 = snd (cancellation_channel example_reserved)"
  "rt_capacity example_rt2 = \<lparr>tc_max = 1, tc_in_use = 1, tc_retained = 0\<rparr>"
  "rt_fail_stop example_rt2 = rt_fail_stop (example_admitted 1)"
  by (simp_all add: example_rt2_def launch_owner_def example_admit try_acquire_def task_capacity_new_def
      cancellation_channel_def example_reserved_eq)

lemma example_publish:
  "publish_running (snd (cancellation_channel example_reserved)) 6 example_owner
     (Running ''t'' ''s'' ''r'') example_limits 0 = (Ok (Running ''t'' ''s'' ''r''), example_running)"
  by (simp add: example_running_def publish_running_def verify_task_id_def verify_owner_def locked_def
      purge_expired_def publish_signal_def cancellation_channel_def example_owner_def example_reserved_eq)

lemma example_run:
  "publish_owner_running example_owner example_running_task 0 (\<lambda>_. 6) example_rt2 =
     (Ok (ObservedTask (Running ''t'' ''s'' ''r'')), example_rt3)"
  "rt_registry example_rt3 = example_running"
  "rt_capacity example_rt3 = \<lparr>tc_max = 1, tc_in_use = 1, tc_retained = 0\<rparr>"
  "rt_fail_stop example_rt3 = rt_fail_stop (example_admitted 1)"
  by (simp_all add: example_rt3_def publish_owner_running_def example_launch example_running_task_def
      example_publish)

lemma example_system_runs:
  "system_run 2 1 10 5 (example_system example_rt2 [Executing example_owner 0])"
  "system_run 2 1 10 6 (example_system example_rt3 [Started example_owner])"
proof -
  have rd: "readings c (\<lambda>_. c') c'" if "c \<le> c'" for c c' :: instant
    using that by (simp add: readings_def)
  let ?s = "\<lparr>sy_runtime = example_admitted 1, sy_jobs = [Admitted example_owner]\<rparr>"
  have "system_step 5 ?s 5 (example_system example_rt2 [Executing example_owner 0])"
    using system_step.launch [OF rd, of 5 5 ?s "[]" example_owner "[]"]
    by (simp add: example_system_def example_launch run_launch_def)
  from system_run.step [OF example_admitted_run this]
  show s2: "system_run 2 1 10 5 (example_system example_rt2 [Executing example_owner 0])" .
  have "system_step 5 (example_system example_rt2 [Executing example_owner 0]) 6
      (example_system example_rt3 [Started example_owner])"
    using system_step.running [OF rd, of 5 6 "example_system example_rt2 [Executing example_owner 0]" "[]"
        example_owner 0 "[]" example_running_task]
    by (simp add: example_system_def example_run)
  from system_run.step [OF s2 this]
  show "system_run 2 1 10 6 (example_system example_rt3 [Started example_owner])" .
qed

lemma example_system_simps [simp]:
  "sy_runtime (example_system rt jobs) = rt" "sy_jobs (example_system rt jobs) = jobs"
  by (simp_all add: example_system_def)

section \<open>Properties\<close>





text \<open>
  C20: What the registry shows as reserved or RUNNING is really under way. While the daemon is
  healthy, every such request belongs to a submission under way with that task id and signal; a
  request left behind without one means the registry is poisoned or the daemon is failing stop.
\<close>

theorem live_request_is_under_way:
  assumes "system_run n m timeout c s"
    and "request_view (rt_registry (sy_runtime s)) cid = Present tid ident k ph"
    and "ph = Reserved \<or> ph = Active snapshot l x"
    and "\<not> rg_poisoned (rt_registry (sy_runtime s))" "\<not> is_fail_stopping (rt_fail_stop (sy_runtime s))"
  shows "\<exists>j \<in> set (sy_jobs s). claiming j \<and>
    ow_client_request_id (job_owner j) = cid \<and> ow_task_id (job_owner j) = tid \<and> ow_signal (job_owner j) = k"
proof -
  note D = system_invarD [OF system_run_invar [OF assms(1)]]
  have "live (request_view (rt_registry (sy_runtime s)) cid)"
    using assms(2,3) by auto
  then have "cid \<in> set (claims (sy_jobs s))"
    using D(6) assms(4,5) by (auto simp: live_covered_def)
  then obtain j where j: "j \<in> set (sy_jobs s)" "claiming j" "owner_cid j = cid"
    by (auto simp: claims_def)
  have "job_ok (rt_registry (sy_runtime s)) j"
    using D(4) j(1) by (simp add: jobs_ok_def)
  with job_view [OF this j(2)] assms(2) j show ?thesis
    by (intro bexI [OF _ j(1)]) (auto simp: owner_cid_def owner_tid_def)
qed

theorem live_request_is_under_way_witness:
  "\<exists>j \<in> set [Started example_owner]. ow_task_id (job_owner j) = ''t''"
proof -
  have "request_view (rt_registry example_rt3) ''c'' =
      Present ''t'' (vs_identity (example_request ''c'')) 0
        (Active (Running ''t'' ''s'' ''r'') (Some example_limits) (Some 0))"
    by (simp add: example_run example_eqs request_view_def view_of_def phase_of_def)
  moreover have "\<not> rg_poisoned (rt_registry example_rt3)" "\<not> is_fail_stopping (rt_fail_stop example_rt3)"
    by (simp_all add: example_run example_eqs example_admit fail_stop_new_def is_fail_stopping_def)
  ultimately show ?thesis
    using live_request_is_under_way [OF example_system_runs(2), of "''c''"] by (simp add: example_system_def)
qed

section \<open>Draining\<close>

fun work_left :: "job \<Rightarrow> nat" where
  "work_left (Admitted _) = 3"
| "work_left (Executing _ _) = 2"
| "work_left (Started _) = 1"
| "work_left (Abandoned _) = 1"

definition job_work :: "job list \<Rightarrow> nat" where
  "job_work jobs = sum_list (map work_left jobs)"

lemma launch_stop:
  assumes "launch_owner owner clk rt = (l, rt')" "is_fail_stopping (rt_fail_stop rt)"
  shows "is_fail_stopping (rt_fail_stop rt')"
  using assms by (auto simp: launch_owner_def split_beta split: option.splits sum.splits)

lemma running_stop:
  "is_fail_stopping (rt_fail_stop rt) \<Longrightarrow>
   is_fail_stopping (rt_fail_stop (snd (publish_owner_running owner running x clk rt)))"
  by (simp add: publish_owner_running_def split_beta split: sum.split)

lemma settle_stop:
  "is_fail_stopping (rt_fail_stop rt) \<Longrightarrow>
   is_fail_stopping (rt_fail_stop (settle_running owner completion clk rt))"
  by (simp add: settle_running_def split_beta Let_def split: sum.split)

lemma finish_after_stop:
  "is_fail_stopping (rt_fail_stop rt) \<Longrightarrow>
   is_fail_stopping (rt_fail_stop (snd (finish_after_running owner running x completion clk rt)))"
  using running_stop [of rt owner running x clk] settle_stop
  by (simp add: finish_after_running_def split_beta split: sum.split)

lemma finish_without_stop:
  "is_fail_stopping (rt_fail_stop rt) \<Longrightarrow>
   is_fail_stopping (rt_fail_stop (snd (finish_without_running owner completion clk rt)))"
  by (simp add: finish_without_running_def split_beta split: sum.split)

lemma run_launch_work: "job_work (run_launch owner l) < 3"
  by (simp add: run_launch_def job_work_def split: launch.split)



section \<open>How a submission ends\<close>

lemma finish_started:
  assumes inv: "registry_invar g" and own: "owned g owner (Active s l x)" and "\<not> rg_poisoned g"
    and payload: "is_finished payload" "snapshot_task_id payload = ow_task_id owner"
  shows "\<exists>y. x = Some y \<and> y < length (rg_cancellations g) \<and>
    owner_finish g now f later owner payload =
      (Ok \<lparr>fp_snapshot = payload, fp_cancellation = Some y, fp_signal = ow_signal owner\<rparr>,
       snd (owner_finish g now f later owner payload)) \<and>
    length (rg_cancellations (snd (owner_finish g now f later owner payload))) = length (rg_cancellations g)"
proof -
  let ?h = "purge_expired now g"
  have own': "owned ?h owner (Active s l x)"
    by (rule owned_kept(2) [OF kept_purge [OF inv] _ own, of "{}"]) simp
  obtain t where t: "fmlookup (rg_tasks ?h) (ow_task_id owner) = Some t" "tk_finished_monotonic t = None"
    using owned_active [OF own'] by blast
  have x: "tk_cancellation t = x"
    using owned_phase [OF own'] t by (simp add: phase_of_def)
  have "record_ok ?h (ow_task_id owner) t"
    using tasksD [OF invarD(3) [OF purge_expired_invar [OF inv]] t(1)] by simp
  then obtain y where y: "x = Some y" "y < length (rg_cancellations g)"
    using t(2) x by (auto simp: record_ok_def)
  have "is_running payload = False" "verify_task_id (ow_task_id owner) (snapshot_task_id payload) = Ok ()"
    using payload by (simp_all add: is_running_iff verify_task_id_def)
  then have "fst (owner_finish g now f later owner payload) =
      Ok \<lparr>fp_snapshot = payload, fp_cancellation = Some y, fp_signal = ow_signal owner\<rparr>"
    using assms(3) t x y owned_verify [OF own']
    by (simp add: owner_finish_def finish_snapshot_def locked_def Let_def)
  then show ?thesis
    using y cancellations_owner(3) [of g now f later owner payload] by (metis prod.collapse)
qed

lemma started_job:
  assumes "system_run n m timeout c s" "sy_jobs s = xs @ Started owner # ys"
  obtains snapshot l x where "owned (rt_registry (sy_runtime s)) owner (Active snapshot l x)"
    "registry_invar (rt_registry (sy_runtime s))"
proof -
  note D = system_invarD [OF system_run_invar [OF assms(1)], unfolded assms(2)]
  have "\<exists>snapshot l x. owned (rt_registry (sy_runtime s)) owner (Active snapshot l x)"
    using D(4) by (simp add: jobs_ok_def)
  with that registry_by_invar [OF D(1)] show thesis
    by blast
qed

text \<open>
  C4: A verified result ends a running task completely. The result is stored under the task's
  request, its submitter and everyone who waits for its cancellation get it, the active execution
  is gone, the slot is free (retained when failing stop), and the metrics and the audit log have
  it.
\<close>

theorem finished_task_settles:
  assumes "system_run n m timeout c s" "sy_jobs s = xs @ Started owner # ys"
    and "\<not> rg_poisoned (rt_registry (sy_runtime s))"
    and "is_finished payload" "snapshot_task_id payload = ow_task_id owner"
  shows "let rt = sy_runtime s; rt' = settle_running owner (Inr payload) clk rt in
    owned (rt_registry rt') owner (Settled payload (clk 1)) \<and>
    waiter_poll (rt_registry rt') \<lparr>wt_task_id = ow_task_id owner, wt_signal = ow_signal owner\<rparr> =
      Some (ObservedTask payload) \<and>
    (\<exists>snapshot l y. owned (rt_registry rt) owner (Active snapshot l (Some y)) \<and>
       cancellation_poll (rt_registry rt') y = Some payload) \<and>
    ow_task_id owner |\<notin>| fmdom (fs_active (rt_fail_stop rt')) \<and>
    rt_capacity rt' = (if is_fail_stopping (rt_fail_stop rt) then retain_for_fail_stop (rt_capacity rt)
      else snd (drop_permit (rt_capacity rt))) \<and>
    rt_metrics rt' = metrics_task_finished (rt_metrics rt) payload \<and>
    rt_audit rt' = rt_audit rt @ [payload]"
proof -
  let ?rt = "sy_runtime s" and ?g = "rt_registry (sy_runtime s)"
  let ?r = "owner_finish ?g (clk 0) (clk 1) (clk 2) owner payload"
  obtain snapshot l x where own: "owned ?g owner (Active snapshot l x)" and ri: "registry_invar ?g"
    using started_job [OF assms(1,2)] .
  obtain y where y: "x = Some y" "y < length (rg_cancellations ?g)"
    "?r = (Ok \<lparr>fp_snapshot = payload, fp_cancellation = Some y, fp_signal = ow_signal owner\<rparr>, snd ?r)"
    "length (rg_cancellations (snd ?r)) = length (rg_cancellations ?g)"
    using finish_started [OF ri own assms(3-5), of "clk 0" "clk 1" "clk 2"] by (elim exE conjE) (rule that)
  define p where "p = \<lparr>fp_snapshot = payload, fp_cancellation = Some y, fp_signal = ow_signal owner\<rparr>"
  define g' where "g' = snd ?r"
  have r: "?r = (Inr p, g')"
    using y(3) by (simp add: p_def g'_def)
  have len: "length (rg_cancellations g') = length (rg_cancellations ?g)"
    using y(4) by (simp add: g'_def)
  have settled: "owned g' owner (Settled payload (clk 1))" "rg_signals g' = rg_signals ?g"
    using owner_finish_cases [OF ri r] by simp_all
  have rt': "settle_running owner (Inr payload) clk ?rt =
      snd (publish_finished (ow_task_id owner) p (?rt\<lparr>rt_registry := g'\<rparr>))"
    using r by (simp add: settle_running_def)
  have "owned (snd (publish_completion p g')) owner (Settled payload (clk 1))"
    using settled(1) by (simp add: owned_def)
  moreover have "cancellation_poll (snd (publish_completion p g')) y = Some payload"
    using y(2) len by (simp add: publish_completion_def p_def cancellation_poll_def cancellation_complete_def)
  moreover note own [unfolded y(1)]
  moreover have "ow_signal owner < length (rg_signals g')"
    using owned_signal [OF own ri] settled(2) by simp
  ultimately show ?thesis
    unfolding Let_def rt'
    by (auto simp: waiter_poll_def p_def release_capacity_def publish_finished_def complete_active_def Let_def split_beta)
qed

theorem finished_task_settles_witness:
  "waiter_poll (rt_registry (settle_running example_owner (Inr example_finished) (\<lambda>_. 7) example_rt3))
     \<lparr>wt_task_id = ''t'', wt_signal = 0\<rparr> = Some (ObservedTask example_finished)"
proof -
  have "\<not> rg_poisoned (rt_registry example_rt3)" "is_finished example_finished"
    "snapshot_task_id example_finished = ''t''"
    by (simp_all add: example_run example_eqs example_finished_def)
  with finished_task_settles [OF example_system_runs(2), of "[]" example_owner "[]" example_finished "\<lambda>_. 7"]
  show ?thesis
    by (simp add: Let_def)
qed

text \<open>
  C21: A full pool gives everything back. The submission is answered with exhausted capacity, its
  client request id is free again, its execution is no longer active, and the slots are as before.
\<close>

theorem full_pool_rolls_back:
  assumes "system_run n m timeout c s" "sy_jobs s = xs @ Admitted owner # ys"
    and "\<not> rg_poisoned (rt_registry (sy_runtime s))"
    and "try_acquire (rt_capacity (sy_runtime s)) = None"
  shows "\<exists>rt. launch_owner owner clk (sy_runtime s) =
      (LaunchRejected (ObservedFailure
         \<lparr>sf_code = CapacityExhaustedCode, sf_message = Message ''all task execution slots are in use''\<rparr>), rt) \<and>
    request_view (rt_registry rt) (ow_client_request_id owner) = Absent \<and>
    ow_task_id owner |\<notin>| fmdom (fs_active (rt_fail_stop rt)) \<and>
    rt_capacity rt = rt_capacity (sy_runtime s)"
proof -
  let ?g = "rt_registry (sy_runtime s)"
  note D = system_invarD [OF system_run_invar [OF assms(1)], unfolded assms(2)]
  have "owned ?g owner Reserved"
    using D(4) by (simp add: jobs_ok_def)
  from release_reserved [OF registry_by_invar [OF D(1)] this, of "clk 0"] assms(3)
  have "fst (release_failed_owner ?g (clk 0) owner) = Ok None"
    "request_view (snd (release_failed_owner ?g (clk 0) owner)) (ow_client_request_id owner) = Absent"
    by auto
  with assms(4) show ?thesis
    by (simp add: launch_owner_def rollback_before_running_def split_beta CAPACITY_EXHAUSTED_MESSAGE_def)
qed

theorem full_pool_rolls_back_witness:
  "\<exists>rt. launch_owner example_owner (\<lambda>_. 7) (example_admitted 0) =
     (LaunchRejected (ObservedFailure
        \<lparr>sf_code = CapacityExhaustedCode, sf_message = Message ''all task execution slots are in use''\<rparr>), rt)"
proof -
  have "\<not> rg_poisoned (rt_registry (example_admitted 0))" "try_acquire (rt_capacity (example_admitted 0)) = None"
    by (simp_all add: example_admit example_eqs try_acquire_def task_capacity_new_def)
  with full_pool_rolls_back [OF example_admitted_run [of 0], of "[]" example_owner "[]" "\<lambda>_. 7"] show ?thesis
    by auto
qed

text \<open>
  C19: An execution that fails after RUNNING was shown is never taken for finished: the daemon fails
  stop with the failure of that task as its first cause when it was healthy, the RUNNING snapshot
  stays, and the slot is retained.
\<close>

theorem running_failure_fails_stop:
  assumes "system_run n m timeout c s" "sy_jobs s = xs @ Started owner # ys"
  shows "let rt = sy_runtime s; rt' = settle_running owner (Inl failure) clk rt in
    is_fail_stopping (rt_fail_stop rt') \<and>
    first_report (rt_fail_stop rt') =
      (if is_fail_stopping (rt_fail_stop rt) then first_report (rt_fail_stop rt)
       else Some (running_failure_report (ow_task_id owner))) \<and>
    (\<exists>snapshot l x. owned (rt_registry rt) owner (Active snapshot l x) \<and>
       owned (rt_registry rt') owner (Active snapshot l x)) \<and>
    rt_capacity rt' = retain_for_fail_stop (rt_capacity rt)"
proof -
  obtain snapshot l x where own: "owned (rt_registry (sy_runtime s)) owner (Active snapshot l x)"
    and ri: "registry_invar (rt_registry (sy_runtime s))"
    using started_job [OF assms] .
  note kept = release_active [OF ri own, of "clk 1"]
  have report: "first_report (snd (activate fs now r)) =
      (if is_fail_stopping fs then first_report fs else Some r)" for fs now r
    by (auto simp: activate_def first_report_def is_fail_stopping_def Let_def split: phase.split)
  have same: "first_report (snd (fail_stop_complete fs tid)) = first_report fs"
    "is_fail_stopping fs \<Longrightarrow> first_report (active_execution_drop fs now tid False) = first_report fs" for fs tid now
    by (auto simp: fail_stop_complete_def active_execution_drop_def activate_def first_report_def
        is_fail_stopping_def Let_def split: phase.split)
  show ?thesis
    unfolding Let_def
    using own kept
    by (auto simp: settle_running_def Let_def owner_fail_snd complete_active_def drop_active_def retain_capacity_def
        report_running_failure_def report same)
qed

theorem running_failure_fails_stop_witness:
  "is_fail_stopping (rt_fail_stop (settle_running example_owner
     (Inl (runner_execution_failure (with_reusable_capacity ''unknown signal''))) (\<lambda>_. 7) example_rt3))"
  using running_failure_fails_stop [OF example_system_runs(2), of "[]" example_owner "[]"
      "runner_execution_failure (with_reusable_capacity ''unknown signal'')" "\<lambda>_. 7"]
  by (simp add: Let_def)

end
