(* ===== verification/Bundle_Catalog.thy ===== *)
theory Bundle_Catalog
  imports Bundle
begin

text \<open>
  The signed Bundle archive and the immutable catalog of
  \<open>daemon/src/adapters/outbound/bundle_catalog.rs\<close>. The packages for tar, gzip, base64, Ed25519,
  SHA-256 and canonical JSON, and the Runtime Package cache, are the fields of \<open>bundle_env\<close>. The
  directories of the catalog are a \<open>store\<close>; whether a system call and the metadata check behind
  it succeed is the argument \<open>io\<close>. Panics are the outer \<open>None\<close>. Directories under construction
  have private names that no operation reads, so only the staged identity files are kept.
\<close>

section \<open>The archive\<close>

definition MAX_ARCHIVE_BYTES :: nat where
  "MAX_ARCHIVE_BYTES = 1048576"

definition MAX_FILE_BYTES :: nat where
  "MAX_FILE_BYTES = 262144"

definition BUNDLE_JSON :: string where
  "BUNDLE_JSON = ''bundle.json''"

definition PROFILE_JSON :: string where
  "PROFILE_JSON = ''profile.json''"

definition CHECKSUMS :: string where
  "CHECKSUMS = ''checksums.txt''"

definition SIGNATURE :: string where
  "SIGNATURE = ''signature.sig''"

lemmas file_names = BUNDLE_JSON_def PROFILE_JSON_def CHECKSUMS_def SIGNATURE_def

datatype archive_error =
    SourceNotAbsolute
  | ArchiveSize
  | EntriesUnreadable
  | EntryUnreadable
  | EntryNameNotUtf8
  | EntryNotAllowed string
  | EntryNotRegular string
  | EntryTooLarge string
  | DuplicateEntry string
  | EntrySetWrong
  | ChecksumsMismatch

datatype signature_error =
    NoTrustedKeys
  | SignatureMissing
  | KeyNotConfigured string
  | SignatureNotText
  | SignatureNotBase64
  | SignatureLength
  | SignatureMismatch

datatype identity_point = BeforeRename | AfterRename

datatype io_step =
    ReadArchive
  | CreateStaging
  | WriteEntryBundle
  | WriteEntryProfile
  | SealStaging
  | ActivateEntry
  | SyncEntries
  | ReadEntryBundle
  | ReadEntryProfile
  | CleanupStaging
  | EnsureIdentityDirectory
  | WriteIdentity
  | IdentityHook identity_point
  | ActivateIdentity
  | SyncIdentity
  | ReadMapping
  | RemoveIdentityStaging
  | ListIdentity

datatype manifest_problem =
    Invalid manifest_error
  | FileSize string
  | FileJson string frame_error
  | NotCanonical
  | UnsafeFile
  | PackageIdMismatch string string
  | ContentDigestMismatch
  | CatalogIdentityMismatch
  | StagingName

datatype bundle_error =
    ArchiveError archive_error
  | ManifestError manifest_problem
  | SignatureError signature_error
  | RuntimePackageError
  | BundleIo io_step
  | IdentityConflict string string
  | BundleNotFound string string

record archive_entry =
  ae_path :: string
  ae_is_file :: bool
  ae_size :: u64
  ae_content :: "string option"

record trusted_bundle_key =
  tk_id :: string
  tk_key :: string

record 'f bundle_env =
  be_sha256 :: "string \<Rightarrow> sha256_digest"
  be_parse_version :: "string \<Rightarrow> semver_version option"
  be_unpack :: "string \<Rightarrow> (unit + archive_entry) list option"
  be_base64 :: "string \<Rightarrow> string option"
  be_verify :: "string \<Rightarrow> string \<Rightarrow> string \<Rightarrow> bool"
  be_bundle_serde :: "('f, bundle_manifest) serde"
  be_profile_serde :: "('f, bundle_profile) serde"
  be_mapping_serde :: "('f, sha256_digest) serde"
  be_canonical_bundle :: "bundle_manifest \<Rightarrow> string option"
  be_canonical_profile :: "bundle_profile \<Rightarrow> string option"
  be_canonical_mapping :: "sha256_digest \<Rightarrow> string option"
  be_resolve_package :: "sha256_digest \<Rightarrow> string option"

text \<open>The names, kinds and sizes of the entries, in the order of the archive.\<close>

fun read_entries :: "(unit + archive_entry) list \<Rightarrow> (string, string) btree_map \<Rightarrow>
    archive_error + (string, string) btree_map" where
  "read_entries [] files = Ok files"
| "read_entries (Inl _ # rest) files = Err EntryUnreadable"
| "read_entries (Inr entry # rest) files =
     (let path = ae_path entry in
      if \<not> is_utf8 path then Err EntryNameNotUtf8
      else if path \<notin> {BUNDLE_JSON, PROFILE_JSON, CHECKSUMS, SIGNATURE} then Err (EntryNotAllowed path)
      else if \<not> ae_is_file entry then Err (EntryNotRegular path)
      else if MAX_FILE_BYTES < unat (ae_size entry) then Err (EntryTooLarge path)
      else if map_of files path \<noteq> None then Err (DuplicateEntry path)
      else case ae_content entry of
        None \<Rightarrow> Err EntryUnreadable
      | Some content \<Rightarrow>
          if MAX_FILE_BYTES < length content then Err (EntryTooLarge path)
          else read_entries rest (btree_insert path content files))"

definition expected_checksums :: "'f bundle_env \<Rightarrow> string \<Rightarrow> string \<Rightarrow> string" where
  "expected_checksums env bundle profile =
     digest_hex (be_sha256 env bundle) @ ''  '' @ BUNDLE_JSON @ [CHR 0x0A] @
     digest_hex (be_sha256 env profile) @ ''  '' @ PROFILE_JSON @ [CHR 0x0A]"

definition verify_checksums ::
  "'f bundle_env \<Rightarrow> string \<Rightarrow> string \<Rightarrow> string \<Rightarrow> bundle_error + unit" where
  "verify_checksums env checksums bundle profile =
     (if checksums \<noteq> expected_checksums env bundle profile then Err (ArchiveError ChecksumsMismatch)
      else Ok ())"

text \<open>\<open>str::trim_end\<close>: the encodings of the characters with the property White_Space.\<close>

definition white_space :: "string list" where
  "white_space = map (map char_of) ([[9], [10], [11], [12], [13], [32], [194, 133], [194, 160],
     [225, 154, 128], [226, 128, 168], [226, 128, 169], [226, 128, 175], [226, 129, 159],
     [227, 128, 128]] @ map (\<lambda>b. [226, 128, b]) [128 ..< 139 :: nat])"

fun strip_first :: "string list \<Rightarrow> string \<Rightarrow> string option" where
  "strip_first [] s = None"
| "strip_first (w # ws) s = (case strip_prefix w s of Some r \<Rightarrow> Some r | None \<Rightarrow> strip_first ws s)"

lemma strip_first_shorter:
  "strip_first ws s = Some r \<Longrightarrow> (\<And>w. w \<in> set ws \<Longrightarrow> w \<noteq> []) \<Longrightarrow> length r < length s"
  by (induction ws) (auto split: option.splits simp: strip_prefix_Some)

function trim_rev :: "string \<Rightarrow> string" where
  "trim_rev s = (case strip_first (map rev white_space) s of None \<Rightarrow> s | Some r \<Rightarrow> trim_rev r)"
  by pat_completeness auto
termination
proof (relation "measure length", goal_cases)
  case (2 s r)
  then show ?case
    using strip_first_shorter [of "map rev white_space" s r] by (auto simp: white_space_def)
qed simp

declare trim_rev.simps [simp del]

definition trim_end :: "string \<Rightarrow> string" where
  "trim_end s = rev (trim_rev (rev s))"

definition verify_signature ::
  "'f bundle_env \<Rightarrow> bundle_manifest \<Rightarrow> string \<Rightarrow> string \<Rightarrow> trusted_bundle_key list \<Rightarrow> bundle_error + unit" where
  "verify_signature env bundle checksums signature keys =
     and_then (ok_or (SignatureError (KeyNotConfigured (bm_signing_key_id bundle)))
       (find (\<lambda>key. tk_id key = bm_signing_key_id bundle) keys)) (\<lambda>key.
     and_then (if is_utf8 signature then Ok signature else Err (SignatureError SignatureNotText)) (\<lambda>text.
     and_then (ok_or (SignatureError SignatureNotBase64) (be_base64 env (trim_end text))) (\<lambda>bytes.
     if length bytes \<noteq> 64 then Err (SignatureError SignatureLength)
     else if be_verify env (tk_key key) checksums bytes then Ok ()
     else Err (SignatureError SignatureMismatch))))"

definition decode_manifest :: "('f, 'm) serde \<Rightarrow> string \<Rightarrow> string \<Rightarrow> bundle_error + 'm" where
  "decode_manifest sd bytes name =
     (if bytes = [] \<or> MAX_FILE_BYTES < length bytes then Err (ManifestError (FileSize name))
      else map_err (\<lambda>e. ManifestError (FileJson name e)) (decode_json sd bytes))"

definition bundle_digest :: "'f bundle_env \<Rightarrow> string \<Rightarrow> string \<Rightarrow> sha256_digest" where
  "bundle_digest env bundle profile = be_sha256 env (bundle @ [nul] @ profile)"

definition validated :: "'f bundle_env \<Rightarrow> bundle_manifest \<Rightarrow> bundle_profile \<Rightarrow> string \<Rightarrow> bundle_error + unit" where
  "validated env bundle profile profile_raw =
     map_err (\<lambda>e. ManifestError (Invalid e))
       (validate_bundle (be_sha256 env) (be_parse_version env) bundle profile profile_raw)"

record verified_archive =
  va_bundle :: bundle_manifest
  va_digest :: sha256_digest
  va_bundle_raw :: string
  va_profile_raw :: string

text \<open>The part of \<open>VerifiedArchive::read\<close> after the entries have been taken out of the map.\<close>

definition verify_files ::
  "'f bundle_env \<Rightarrow> trusted_bundle_key list \<Rightarrow> bool \<Rightarrow> string \<Rightarrow> string \<Rightarrow> string \<Rightarrow> string option \<Rightarrow>
   bundle_error + verified_archive" where
  "verify_files env keys allow_unsigned bundle_raw profile_raw checksums signature =
     and_then (verify_checksums env checksums bundle_raw profile_raw) (\<lambda>_.
     and_then (decode_manifest (be_bundle_serde env) bundle_raw BUNDLE_JSON) (\<lambda>bundle.
     and_then (decode_manifest (be_profile_serde env) profile_raw PROFILE_JSON) (\<lambda>profile.
     and_then (validated env bundle profile profile_raw) (\<lambda>_.
     and_then (if allow_unsigned then Ok ()
       else and_then (ok_or (SignatureError SignatureMissing) signature) (\<lambda>signature.
         verify_signature env bundle checksums signature keys)) (\<lambda>_.
     and_then (ok_or (ManifestError NotCanonical) (be_canonical_bundle env bundle)) (\<lambda>bundle_canonical.
     and_then (ok_or (ManifestError NotCanonical) (be_canonical_profile env profile)) (\<lambda>profile_canonical.
     Ok \<lparr>va_bundle = bundle, va_digest = bundle_digest env bundle_canonical profile_canonical,
         va_bundle_raw = bundle_raw, va_profile_raw = profile_raw\<rparr>)))))))"

definition panic :: "'a option" where
  "panic = None"

text \<open>
  \<open>VerifiedArchive::read\<close> on the bytes of the source. The three \<open>expect\<close>s are panics when the
  entry is missing.
\<close>

definition verified_archive_read ::
  "'f bundle_env \<Rightarrow> (io_step \<Rightarrow> bool) \<Rightarrow> string \<Rightarrow> trusted_bundle_key list \<Rightarrow> bool \<Rightarrow>
   (bundle_error + verified_archive) option" where
  "verified_archive_read env io bytes keys allow_unsigned =
     (if \<not> io ReadArchive then Some (Err (BundleIo ReadArchive))
      else if bytes = [] \<or> MAX_ARCHIVE_BYTES < length bytes then Some (Err (ArchiveError ArchiveSize))
      else case be_unpack env bytes of
        None \<Rightarrow> Some (Err (ArchiveError EntriesUnreadable))
      | Some entries \<Rightarrow>
          (case read_entries entries [] of
             Inl e \<Rightarrow> Some (Err (ArchiveError e))
           | Inr files \<Rightarrow>
               if \<not> ((if allow_unsigned then 3 else 4) \<le> length files \<and> length files \<le> 4)
               then Some (Err (ArchiveError EntrySetWrong))
               else (case (map_of files BUNDLE_JSON, map_of files PROFILE_JSON, map_of files CHECKSUMS) of
                 (Some bundle_raw, Some profile_raw, Some checksums) \<Rightarrow>
                   Some (verify_files env keys allow_unsigned bundle_raw profile_raw checksums
                     (map_of files SIGNATURE))
               | _ \<Rightarrow> panic)))"

section \<open>The catalog\<close>

text \<open>
  \<open>bundles/sha256/<hex>\<close> with its two files, \<open>bundles/catalog/<name>/<version>.json\<close>, the staged
  identity files of each name, and the process-wide counter of staging names.
\<close>

record store =
  st_entries :: "(string, string \<times> string) fmap"
  st_identities :: "(string \<times> string, string) fmap"
  st_staged :: "(string \<times> string) list"
  st_next_staging :: u64

definition read_safe_file :: "(io_step \<Rightarrow> bool) \<Rightarrow> io_step \<Rightarrow> string \<Rightarrow> nat \<Rightarrow> bundle_error + string" where
  "read_safe_file io step contents maximum =
     (if \<not> io step then Err (BundleIo step)
      else if maximum < length contents then Err (ManifestError UnsafeFile)
      else Ok contents)"

definition inspect_by_digest ::
  "'f bundle_env \<Rightarrow> (io_step \<Rightarrow> bool) \<Rightarrow> store \<Rightarrow> sha256_digest \<Rightarrow> bundle_error + bundle_inspection" where
  "inspect_by_digest env io st digest =
     and_then (ok_or (BundleIo ReadEntryBundle) (fmlookup (st_entries st) (digest_hex digest))) (\<lambda>files.
     and_then (read_safe_file io ReadEntryBundle (fst files) MAX_FILE_BYTES) (\<lambda>bundle_bytes.
     and_then (read_safe_file io ReadEntryProfile (snd files) MAX_FILE_BYTES) (\<lambda>profile_bytes.
     and_then (decode_manifest (be_bundle_serde env) bundle_bytes BUNDLE_JSON) (\<lambda>bundle.
     and_then (decode_manifest (be_profile_serde env) profile_bytes PROFILE_JSON) (\<lambda>profile.
     and_then (ok_or (ManifestError NotCanonical) (be_canonical_bundle env bundle)) (\<lambda>canonical_bundle.
     and_then (ok_or (ManifestError NotCanonical) (be_canonical_profile env profile)) (\<lambda>canonical_profile.
     if bundle_digest env canonical_bundle canonical_profile \<noteq> digest
     then Err (ManifestError ContentDigestMismatch)
     else and_then (validated env bundle profile profile_bytes) (\<lambda>_.
       Ok \<lparr>in_installed =
             \<lparr>ib_digest = digest, ib_name = bm_name bundle, ib_version = bm_version bundle,
              ib_runtime_package_digest = br_digest (bm_runtime bundle),
              ib_runtime_package_id = br_package_id (bm_runtime bundle)\<rparr>,
           in_manifest = bundle, in_profile = profile\<rparr>))))))))"

definition read_mapping ::
  "'f bundle_env \<Rightarrow> (io_step \<Rightarrow> bool) \<Rightarrow> string \<Rightarrow> bundle_error + sha256_digest" where
  "read_mapping env io contents =
     and_then (read_safe_file io ReadMapping contents MAX_FILE_BYTES) (\<lambda>bytes.
     decode_manifest (be_mapping_serde env) bytes ''catalog mapping'')"

definition parses_as_u32 :: "string \<Rightarrow> bool" where
  "parses_as_u32 s = (case parse_u64 s of None \<Rightarrow> False | Some w \<Rightarrow> unat w < 2 ^ 32)"

definition staging_prefix :: string where
  "staging_prefix = ''.staging-''"

definition is_safe_identity_staging_name :: "string \<Rightarrow> bool" where
  "is_safe_identity_staging_name name =
     (case strip_prefix staging_prefix name of
        None \<Rightarrow> False
      | Some suffix \<Rightarrow>
          (case split_on (CHR ''-'') suffix of
             [process, sequence] \<Rightarrow> parses_as_u32 process \<and> parse_u64 sequence \<noteq> None
           | _ \<Rightarrow> False))"

definition validate_identity_staging_entries ::
  "(io_step \<Rightarrow> bool) \<Rightarrow> store \<Rightarrow> string \<Rightarrow> bundle_error + unit" where
  "validate_identity_staging_entries io st name =
     (if \<not> io ListIdentity then Err (BundleIo ListIdentity)
      else if list_all (\<lambda>(directory, tmp). directory = name \<longrightarrow> is_safe_identity_staging_name tmp) (st_staged st)
      then Ok () else Err (ManifestError StagingName))"

definition inspect ::
  "'f bundle_env \<Rightarrow> (io_step \<Rightarrow> bool) \<Rightarrow> store \<Rightarrow> string \<Rightarrow> string \<Rightarrow> bundle_error + bundle_inspection" where
  "inspect env io st name version =
     and_then (map_err (\<lambda>e. ManifestError (Invalid e)) (validate_identity (be_parse_version env) name version)) (\<lambda>_.
     and_then (ok_or (BundleNotFound name version) (fmlookup (st_identities st) (name, version))) (\<lambda>contents.
     and_then (read_mapping env io contents) (\<lambda>digest.
     and_then (validate_identity_staging_entries io st name) (\<lambda>_.
     and_then (inspect_by_digest env io st digest) (\<lambda>installed.
     if ib_name (in_installed installed) \<noteq> name \<or> ib_version (in_installed installed) \<noteq> version
     then Err (ManifestError CatalogIdentityMismatch)
     else Ok installed)))))"

section \<open>Importing\<close>

definition staging_name :: "u32 \<Rightarrow> u64 \<Rightarrow> string" where
  "staging_name pid sequence = staging_prefix @ decimal (unat pid) @ CHR ''-'' # decimal (unat sequence)"

definition remove_identity_staging ::
  "(io_step \<Rightarrow> bool) \<Rightarrow> string \<Rightarrow> string \<Rightarrow> store \<Rightarrow> (bundle_error + unit) \<times> store" where
  "remove_identity_staging io directory tmp st =
     (if \<not> is_safe_identity_staging_name tmp then (Err (ManifestError StagingName), st)
      else if \<not> io RemoveIdentityStaging then (Err (BundleIo RemoveIdentityStaging), st)
      else (Ok (), st\<lparr>st_staged := filter (\<lambda>e. e \<noteq> (directory, tmp)) (st_staged st)\<rparr>))"

text \<open>The staged file is removed and the first error is reported; a failed removal is reported instead.\<close>

definition fail_after_removal ::
  "(io_step \<Rightarrow> bool) \<Rightarrow> string \<Rightarrow> string \<Rightarrow> store \<Rightarrow> bundle_error \<Rightarrow> (bundle_error + unit) \<times> store" where
  "fail_after_removal io directory tmp st e =
     (case remove_identity_staging io directory tmp st of
        (Inl e', st') \<Rightarrow> (Err e', st')
      | (Inr _, st') \<Rightarrow> (Err e, st'))"

definition rename_identity ::
  "'f bundle_env \<Rightarrow> (io_step \<Rightarrow> bool) \<Rightarrow> bundle_manifest \<Rightarrow> sha256_digest \<Rightarrow> string \<Rightarrow> string \<Rightarrow> store \<Rightarrow>
   (bundle_error + unit) \<times> store" where
  "rename_identity env io bundle digest bytes temporary st =
     (if \<not> io ActivateIdentity then
        fail_after_removal io (bm_name bundle) temporary st (BundleIo ActivateIdentity)
      else case fmlookup (st_identities st) (bm_name bundle, bm_version bundle) of
        None \<Rightarrow>
          let st' = st\<lparr>st_identities := fmupd (bm_name bundle, bm_version bundle) bytes (st_identities st),
                      st_staged := filter (\<lambda>e. e \<noteq> (bm_name bundle, temporary)) (st_staged st)\<rparr> in
          if \<not> io (IdentityHook AfterRename) then (Err (BundleIo (IdentityHook AfterRename)), st')
          else if \<not> io SyncIdentity then (Err (BundleIo SyncIdentity), st')
          else (Ok (), st')
      | Some contents \<Rightarrow>
          (case read_mapping env io contents of
             Inl e \<Rightarrow> (Err e, st)
           | Inr current \<Rightarrow>
               (case remove_identity_staging io (bm_name bundle) temporary st of
                  (Inl e, st') \<Rightarrow> (Err e, st')
                | (Inr _, st') \<Rightarrow>
                    if current = digest then
                      (if io SyncIdentity then (Ok (), st') else (Err (BundleIo SyncIdentity), st'))
                    else (Err (IdentityConflict (bm_name bundle) (bm_version bundle)), st'))))"

definition activate_identity ::
  "'f bundle_env \<Rightarrow> (io_step \<Rightarrow> bool) \<Rightarrow> u32 \<Rightarrow> bundle_manifest \<Rightarrow> sha256_digest \<Rightarrow> store \<Rightarrow>
   (bundle_error + unit) \<times> store" where
  "activate_identity env io pid bundle digest st =
     (if \<not> io EnsureIdentityDirectory then (Err (BundleIo EnsureIdentityDirectory), st)
      else case be_canonical_mapping env digest of
        None \<Rightarrow> (Err (ManifestError NotCanonical), st)
      | Some bytes \<Rightarrow>
          let temporary = staging_name pid (st_next_staging st);
              staged = st\<lparr>st_next_staging := st_next_staging st + 1,
                          st_staged := (bm_name bundle, temporary) # st_staged st\<rparr> in
          if \<not> io WriteIdentity then
            (Err (BundleIo WriteIdentity), snd (remove_identity_staging io (bm_name bundle) temporary staged))
          else if \<not> io (IdentityHook BeforeRename) then
            fail_after_removal io (bm_name bundle) temporary staged (BundleIo (IdentityHook BeforeRename))
          else rename_identity env io bundle digest bytes temporary staged)"

datatype bundle_import_outcome = Imported | AlreadyPresent

record bundle_import_report =
  rep_digest :: sha256_digest
  rep_name :: string
  rep_version :: string
  rep_outcome :: bundle_import_outcome

text \<open>The staged directory is renamed to its digest; an existing entry is checked instead.\<close>

definition activate_entry ::
  "'f bundle_env \<Rightarrow> (io_step \<Rightarrow> bool) \<Rightarrow> verified_archive \<Rightarrow> store \<Rightarrow> (bundle_error + bundle_import_outcome) \<times> store" where
  "activate_entry env io verified st =
     (let hex = digest_hex (va_digest verified) in
      if \<not> io ActivateEntry then (Err (BundleIo ActivateEntry), st)
      else case fmlookup (st_entries st) hex of
        None \<Rightarrow>
          let st' = st\<lparr>st_entries := fmupd hex (va_bundle_raw verified, va_profile_raw verified) (st_entries st)\<rparr> in
          if \<not> io SyncEntries then (Err (BundleIo SyncEntries), st') else (Ok Imported, st')
      | Some _ \<Rightarrow>
          (case inspect_by_digest env io st (va_digest verified) of
             Inl e \<Rightarrow> (Err e, st)
           | Inr _ \<Rightarrow> if io CleanupStaging then (Ok AlreadyPresent, st) else (Err (BundleIo CleanupStaging), st)))"

definition import_verified ::
  "'f bundle_env \<Rightarrow> (io_step \<Rightarrow> bool) \<Rightarrow> u32 \<Rightarrow> verified_archive \<Rightarrow> store \<Rightarrow>
   (bundle_error + bundle_import_report) \<times> store" where
  "import_verified env io pid verified st =
     (let bundle = va_bundle verified in
      case be_resolve_package env (br_digest (bm_runtime bundle)) of
        None \<Rightarrow> (Err RuntimePackageError, st)
      | Some package_id \<Rightarrow>
          if package_id \<noteq> br_package_id (bm_runtime bundle) then
            (Err (ManifestError (PackageIdMismatch (br_package_id (bm_runtime bundle)) package_id)), st)
          else if \<not> io CreateStaging then
            (Err (BundleIo CreateStaging), st\<lparr>st_next_staging := st_next_staging st + 1\<rparr>)
          else
            let st1 = st\<lparr>st_next_staging := st_next_staging st + 1\<rparr> in
            if \<not> io WriteEntryBundle then (Err (BundleIo WriteEntryBundle), st1)
            else if \<not> io WriteEntryProfile then (Err (BundleIo WriteEntryProfile), st1)
            else if \<not> io SealStaging then (Err (BundleIo SealStaging), st1)
            else (case activate_entry env io verified st1 of
                (Inl e, st2) \<Rightarrow> (Err e, st2)
              | (Inr outcome, st2) \<Rightarrow>
                  (case activate_identity env io pid bundle (va_digest verified) st2 of
                     (Inl e, st3) \<Rightarrow> (Err e, st3)
                   | (Inr _, st3) \<Rightarrow>
                       (Ok \<lparr>rep_digest = va_digest verified, rep_name = bm_name bundle,
                            rep_version = bm_version bundle, rep_outcome = outcome\<rparr>, st3))))"

text \<open>\<open>source_absolute\<close> is \<open>Path::is_absolute\<close> of the source.\<close>

definition import_with_policy ::
  "'f bundle_env \<Rightarrow> (io_step \<Rightarrow> bool) \<Rightarrow> u32 \<Rightarrow> bool \<Rightarrow> string \<Rightarrow> trusted_bundle_key list \<Rightarrow> bool \<Rightarrow> store \<Rightarrow>
   ((bundle_error + bundle_import_report) \<times> store) option" where
  "import_with_policy env io pid source_absolute bytes keys allow_unsigned st =
     (if \<not> source_absolute then Some (Err (ArchiveError SourceNotAbsolute), st)
      else if \<not> allow_unsigned \<and> keys = [] then Some (Err (SignatureError NoTrustedKeys), st)
      else case verified_archive_read env io bytes keys allow_unsigned of
        None \<Rightarrow> panic
      | Some (Inl e) \<Rightarrow> Some (Err e, st)
      | Some (Inr verified) \<Rightarrow> Some (import_verified env io pid verified st))"

definition import_signed ::
  "'f bundle_env \<Rightarrow> (io_step \<Rightarrow> bool) \<Rightarrow> u32 \<Rightarrow> bool \<Rightarrow> string \<Rightarrow> trusted_bundle_key list \<Rightarrow> store \<Rightarrow>
   ((bundle_error + bundle_import_report) \<times> store) option" where
  "import_signed env io pid source_absolute bytes keys st =
     import_with_policy env io pid source_absolute bytes keys False st"

definition import_unsigned ::
  "'f bundle_env \<Rightarrow> (io_step \<Rightarrow> bool) \<Rightarrow> u32 \<Rightarrow> bool \<Rightarrow> string \<Rightarrow> store \<Rightarrow>
   ((bundle_error + bundle_import_report) \<times> store) option" where
  "import_unsigned env io pid source_absolute bytes st =
     import_with_policy env io pid source_absolute bytes [] True st"

section \<open>Immutability\<close>

text \<open>What an installed entry or identity says never changes, and staged names stay readable.\<close>

definition extends :: "store \<Rightarrow> store \<Rightarrow> bool" where
  "extends st st' \<longleftrightarrow>
     (\<forall>k v. fmlookup (st_entries st) k = Some v \<longrightarrow> fmlookup (st_entries st') k = Some v) \<and>
     (\<forall>k v. fmlookup (st_identities st) k = Some v \<longrightarrow> fmlookup (st_identities st') k = Some v)"

definition staged_safe :: "store \<Rightarrow> bool" where
  "staged_safe st \<longleftrightarrow> list_all (\<lambda>(directory, tmp). is_safe_identity_staging_name tmp) (st_staged st)"

lemma extends_refl: "extends st st"
  by (simp add: extends_def)

lemma extends_trans: "extends a b \<Longrightarrow> extends b c \<Longrightarrow> extends a c"
  by (simp add: extends_def)

lemma staging_name_safe: "is_safe_identity_staging_name (staging_name pid sequence)"
proof -
  have dash: "CHR ''-'' \<notin> set (decimal n)" for n
    using decimal_digits [of "CHR ''-''" n] by (auto simp: is_ascii_digit_def byte_def)
  have pid: "parse_u64 (decimal (unat pid)) = Some (ucast pid)"
    using parse_u64_decimal [of "ucast pid :: u64"] by simp
  have "parses_as_u32 (decimal (unat pid))"
    using unsigned_less [of pid, where ?'a = nat] by (simp add: parses_as_u32_def pid)
  moreover have "strip_prefix staging_prefix (staging_name pid sequence) =
      Some (decimal (unat pid) @ CHR ''-'' # decimal (unat sequence))"
    by (simp add: staging_name_def strip_prefix_Some)
  ultimately show ?thesis
    by (simp add: is_safe_identity_staging_name_def split_on_append_sep [OF dash] split_on_absent [OF dash]
        parse_u64_decimal)
qed

lemma remove_identity_staging_kept:
  "extends st (snd (remove_identity_staging io directory tmp st))"
  "staged_safe st \<Longrightarrow> staged_safe (snd (remove_identity_staging io directory tmp st))"
  by (auto simp: remove_identity_staging_def extends_def staged_safe_def list_all_iff)

lemma fail_after_removal_kept:
  "extends st (snd (fail_after_removal io directory tmp st e))"
  "staged_safe st \<Longrightarrow> staged_safe (snd (fail_after_removal io directory tmp st e))"
  using remove_identity_staging_kept [of st io directory tmp]
  by (auto simp: fail_after_removal_def split: prod.splits sum.splits)

lemma extends_new_identity:
  "fmlookup (st_identities st) k = None \<Longrightarrow>
   extends st (st\<lparr>st_identities := fmupd k v (st_identities st), st_staged := xs\<rparr>)"
  by (auto simp: extends_def)

lemma staged_safe_filter: "staged_safe st \<Longrightarrow> staged_safe (st\<lparr>st_identities := m, st_staged := filter P (st_staged st)\<rparr>)"
  by (auto simp: staged_safe_def list_all_iff)

lemma rename_identity_kept:
  "extends st (snd (rename_identity env io bundle digest bytes temporary st))"
  "staged_safe st \<Longrightarrow> staged_safe (snd (rename_identity env io bundle digest bytes temporary st))"
proof -
  obtain r st' where removed: "remove_identity_staging io (bm_name bundle) temporary st = (r, st')"
    by (cases "remove_identity_staging io (bm_name bundle) temporary st")
  have kept: "extends st st'" "staged_safe st \<Longrightarrow> staged_safe st'"
    using remove_identity_staging_kept [of st io "bm_name bundle" temporary] removed by simp_all
  show "extends st (snd (rename_identity env io bundle digest bytes temporary st))"
    by (simp add: rename_identity_def Let_def removed kept(1) extends_refl extends_new_identity
        fail_after_removal_kept(1) split: sum.splits option.splits)
  show "staged_safe st \<Longrightarrow> staged_safe (snd (rename_identity env io bundle digest bytes temporary st))"
    by (simp add: rename_identity_def Let_def removed kept(2) staged_safe_filter
        fail_after_removal_kept(2) split: sum.splits option.splits)
qed

lemma activate_identity_kept:
  "extends st (snd (activate_identity env io pid bundle digest st))"
  "staged_safe st \<Longrightarrow> staged_safe (snd (activate_identity env io pid bundle digest st))"
proof -
  define staged where "staged = st\<lparr>st_next_staging := st_next_staging st + 1,
    st_staged := (bm_name bundle, staging_name pid (st_next_staging st)) # st_staged st\<rparr>"
  have "extends st staged" "staged_safe st \<Longrightarrow> staged_safe staged"
    by (simp_all add: staged_def extends_def staged_safe_def staging_name_safe)
  note kept = extends_trans [OF this(1)] this(2)
  show "extends st (snd (activate_identity env io pid bundle digest st))"
    by (simp add: activate_identity_def Let_def extends_refl kept(1) remove_identity_staging_kept(1)
        fail_after_removal_kept(1) rename_identity_kept(1) flip: staged_def split: option.splits)
  show "staged_safe st \<Longrightarrow> staged_safe (snd (activate_identity env io pid bundle digest st))"
    by (simp add: activate_identity_def Let_def kept(2) remove_identity_staging_kept(2)
        fail_after_removal_kept(2) rename_identity_kept(2) flip: staged_def split: option.splits)
qed

lemma activate_entry_kept:
  "extends st (snd (activate_entry env io verified st))"
  "staged_safe st \<Longrightarrow> staged_safe (snd (activate_entry env io verified st))"
proof -
  have "extends st (st\<lparr>st_entries := fmupd k v (st_entries st)\<rparr>)" if "fmlookup (st_entries st) k = None" for k v
    using that by (auto simp: extends_def)
  then show "extends st (snd (activate_entry env io verified st))"
    by (simp add: activate_entry_def Let_def extends_refl split: option.splits sum.splits)
qed (simp add: activate_entry_def Let_def staged_safe_def split: option.splits sum.splits)

lemma import_verified_kept:
  "extends st (snd (import_verified env io pid verified st))"
  "staged_safe st \<Longrightarrow> staged_safe (snd (import_verified env io pid verified st))"
proof -
  define st1 where "st1 = st\<lparr>st_next_staging := st_next_staging st + 1\<rparr>"
  have one: "extends st st1" "staged_safe st \<Longrightarrow> staged_safe st1"
    by (simp_all add: st1_def extends_def staged_safe_def)
  obtain r2 st2 where two: "activate_entry env io verified st1 = (r2, st2)"
    by (cases "activate_entry env io verified st1")
  obtain r3 st3 where three: "activate_identity env io pid (va_bundle verified) (va_digest verified) st2 = (r3, st3)"
    by (cases "activate_identity env io pid (va_bundle verified) (va_digest verified) st2")
  have "extends st1 st2" "staged_safe st1 \<Longrightarrow> staged_safe st2"
    "extends st2 st3" "staged_safe st2 \<Longrightarrow> staged_safe st3"
    using activate_entry_kept [of st1 env io verified] two
      activate_identity_kept [of st2 env io pid "va_bundle verified" "va_digest verified"] three by simp_all
  with one show "extends st (snd (import_verified env io pid verified st))"
    "staged_safe st \<Longrightarrow> staged_safe (snd (import_verified env io pid verified st))"
    by (auto simp: import_verified_def Let_def two three extends_refl simp flip: st1_def
        intro: extends_trans split: option.splits sum.splits)
qed

section \<open>What an accepted archive is\<close>

definition archive_facts :: "'f bundle_env \<Rightarrow> verified_archive \<Rightarrow> bundle_profile \<Rightarrow> bool" where
  "archive_facts env va profile \<longleftrightarrow>
     decode_manifest (be_bundle_serde env) (va_bundle_raw va) BUNDLE_JSON = Ok (va_bundle va) \<and>
     decode_manifest (be_profile_serde env) (va_profile_raw va) PROFILE_JSON = Ok profile \<and>
     validated env (va_bundle va) profile (va_profile_raw va) = Ok () \<and>
     (\<exists>cb cp. be_canonical_bundle env (va_bundle va) = Some cb \<and> be_canonical_profile env profile = Some cp \<and>
       va_digest va = bundle_digest env cb cp)"

lemma verified_archive_read_Ok:
  assumes "verified_archive_read env io bytes keys basic = Some (Inr va)"
  shows "\<exists>profile. archive_facts env va profile"
    and "\<not> basic \<Longrightarrow> \<exists>signature. verify_signature env (va_bundle va)
      (expected_checksums env (va_bundle_raw va) (va_profile_raw va)) signature keys = Ok ()"
proof -
  obtain bundle_raw profile_raw checksums signature where
    read: "verify_files env keys basic bundle_raw profile_raw checksums signature = Inr va"
    using assms unfolding verified_archive_read_def panic_def by (auto split: if_splits option.splits sum.splits)
  show "\<exists>profile. archive_facts env va profile"
    using read by (auto simp: verify_files_def archive_facts_def result_simps)
  show "\<exists>signature. verify_signature env (va_bundle va)
      (expected_checksums env (va_bundle_raw va) (va_profile_raw va)) signature keys = Ok ()" if "\<not> basic"
    using read that by (auto simp: verify_files_def result_simps verify_checksums_def split: if_splits)
qed

lemma find_SomeD: "find P xs = Some x \<Longrightarrow> x \<in> set xs \<and> P x"
  by (auto simp: find_Some_iff)

lemma decode_manifest_size: "decode_manifest sd bytes name = Inr m \<Longrightarrow> length bytes \<le> MAX_FILE_BYTES"
  by (auto simp: decode_manifest_def split: if_splits)

lemma read_safe_file_Ok: "io step \<Longrightarrow> length bytes \<le> n \<Longrightarrow> read_safe_file io step bytes n = Inr bytes"
  by (simp add: read_safe_file_def)

text \<open>The inspection an accepted archive gives once its files are in place.\<close>

definition inspection_of :: "verified_archive \<Rightarrow> bundle_profile \<Rightarrow> bundle_inspection" where
  "inspection_of va profile =
     \<lparr>in_installed =
        \<lparr>ib_digest = va_digest va, ib_name = bm_name (va_bundle va), ib_version = bm_version (va_bundle va),
         ib_runtime_package_digest = br_digest (bm_runtime (va_bundle va)),
         ib_runtime_package_id = br_package_id (bm_runtime (va_bundle va))\<rparr>,
      in_manifest = va_bundle va, in_profile = profile\<rparr>"

lemma inspect_by_digest_installed:
  assumes "archive_facts env va profile"
    and "fmlookup (st_entries st) (digest_hex (va_digest va)) = Some (va_bundle_raw va, va_profile_raw va)"
    and "\<And>step. io step"
  shows "inspect_by_digest env io st (va_digest va) = Inr (inspection_of va profile)"
proof -
  have "length (va_bundle_raw va) \<le> MAX_FILE_BYTES" "length (va_profile_raw va) \<le> MAX_FILE_BYTES"
    using assms(1) decode_manifest_size by (auto simp: archive_facts_def)
  with assms show ?thesis
    by (auto simp: inspect_by_digest_def archive_facts_def inspection_of_def read_safe_file_Ok)
qed

lemma archive_identity:
  "archive_facts env va profile \<Longrightarrow>
   validate_identity (be_parse_version env) (bm_name (va_bundle va)) (bm_version (va_bundle va)) = Ok ()"
  by (auto simp: archive_facts_def validated_def validate_bundle_def result_simps)

section \<open>What an import leaves behind\<close>

definition mapping_laws :: "'f bundle_env \<Rightarrow> bool" where
  "mapping_laws env \<longleftrightarrow>
     (\<forall>digest bytes. be_canonical_mapping env digest = Some bytes \<longrightarrow>
       decode_manifest (be_mapping_serde env) bytes ''catalog mapping'' = Ok digest)"

lemma rename_identity_Ok:
  assumes "rename_identity env io bundle digest bytes tmp st = (Inr u, st')"
  shows "\<exists>contents. fmlookup (st_identities st') (bm_name bundle, bm_version bundle) = Some contents \<and>
    (contents = bytes \<or> read_mapping env io contents = Inr digest)"
  using assms
  by (auto simp: rename_identity_def Let_def fail_after_removal_def remove_identity_staging_def
      split: if_splits option.splits sum.splits)

lemma activate_identity_Ok:
  assumes "activate_identity env io pid bundle digest st = (Inr u, st')" "mapping_laws env"
  shows "\<exists>contents. fmlookup (st_identities st') (bm_name bundle, bm_version bundle) = Some contents \<and>
    length contents \<le> MAX_FILE_BYTES \<and>
    decode_manifest (be_mapping_serde env) contents ''catalog mapping'' = Inr digest"
proof -
  obtain bytes tmp st1 where b: "be_canonical_mapping env digest = Some bytes"
    and "rename_identity env io bundle digest bytes tmp st1 = (Inr u, st')"
    using assms(1)
    by (auto simp: activate_identity_def Let_def fail_after_removal_def
        split: if_splits option.splits sum.splits prod.splits)
  from rename_identity_Ok [OF this(2)] obtain contents where
    c: "fmlookup (st_identities st') (bm_name bundle, bm_version bundle) = Some contents"
    "contents = bytes \<or> read_mapping env io contents = Inr digest"
    by blast
  then have "decode_manifest (be_mapping_serde env) contents ''catalog mapping'' = Inr digest"
    using b assms(2) by (auto simp: mapping_laws_def read_mapping_def read_safe_file_def result_simps split: if_splits)
  with c(1) decode_manifest_size [OF this] show ?thesis
    by blast
qed

lemma import_verified_Ok:
  assumes "import_verified env io pid va st = (Inr rep, st')"
  obtains st1 st2 u where "activate_entry env io va st1 = (Inr (rep_outcome rep), st2)"
    and "activate_identity env io pid (va_bundle va) (va_digest va) st2 = (Inr u, st')"
    and "rep_digest rep = va_digest va" "rep_name rep = bm_name (va_bundle va)"
    and "rep_version rep = bm_version (va_bundle va)"
  using assms
  by (auto simp: import_verified_def Let_def split: if_splits option.splits sum.splits prod.splits)

lemma activate_entry_Imported:
  "activate_entry env io va st = (Inr Imported, st') \<Longrightarrow>
   fmlookup (st_entries st') (digest_hex (va_digest va)) = Some (va_bundle_raw va, va_profile_raw va)"
  by (auto simp: activate_entry_def Let_def split: if_splits option.splits sum.splits)

lemma rename_identity_existing:
  assumes "rename_identity env io bundle digest bytes tmp st = (Inr u, st')"
    and "fmlookup (st_identities st) (bm_name bundle, bm_version bundle) = Some contents"
    and "read_mapping env io contents = Inr d"
  shows "d = digest"
  using assms
  by (auto simp: rename_identity_def fail_after_removal_def split: if_splits sum.splits prod.splits)

lemma activate_identity_existing:
  assumes "activate_identity env io pid bundle digest st = (Inr u, st')"
    and "fmlookup (st_identities st) (bm_name bundle, bm_version bundle) = Some contents"
    and "read_mapping env io contents = Inr d"
  shows "d = digest"
  using assms rename_identity_existing [of env io "bundle" digest _ _ _ u st' contents d]
  by (auto simp: activate_identity_def Let_def fail_after_removal_def
      split: if_splits option.splits sum.splits prod.splits)

lemma import_verified_existing:
  assumes "import_verified env io pid va st = (Inr rep, st')"
    and "fmlookup (st_identities st) (rep_name rep, rep_version rep) = Some contents"
    and "read_mapping env io contents = Inr d"
  shows "d = rep_digest rep"
proof -
  define st1 where "st1 = st\<lparr>st_next_staging := st_next_staging st + 1\<rparr>"
  obtain outcome st2 u where steps: "activate_entry env io va st1 = (Inr outcome, st2)"
    and act: "activate_identity env io pid (va_bundle va) (va_digest va) st2 = (Inr u, st')"
    and rep: "rep_digest rep = va_digest va" "rep_name rep = bm_name (va_bundle va)"
    "rep_version rep = bm_version (va_bundle va)"
    using assms(1) unfolding st1_def
    by (auto simp: import_verified_def Let_def split: if_splits option.splits sum.splits prod.splits)
  have "extends st1 st2"
    using activate_entry_kept(1) [of st1 env io va] steps by simp
  then have "fmlookup (st_identities st2) (bm_name (va_bundle va), bm_version (va_bundle va)) = Some contents"
    using assms(2) rep by (simp add: extends_def st1_def)
  from activate_identity_existing [OF act this assms(3)] rep(1) show ?thesis
    by simp
qed

lemma import_with_policy_verified:
  assumes "import_with_policy env io pid absolute bytes keys basic st = Some (Inr rep, st')"
  obtains va where "verified_archive_read env io bytes keys basic = Some (Inr va)"
    "import_verified env io pid va st = (Inr rep, st')"
  using assms by (auto simp: import_with_policy_def panic_def split: if_splits option.splits sum.splits)

text \<open>
  C8: an import never changes what the catalog already says, whatever it returns and whichever
  system calls fail: installed entries and identities keep their contents, leftover staging files
  keep names that later reads accept, and an import of an identity that is already there succeeds
  only with the digest that is recorded for it.
\<close>

theorem catalog_immutable:
  assumes "import_with_policy env io pid absolute bytes keys basic st = Some (r, st')"
  shows "extends st st' \<and> (staged_safe st \<longrightarrow> staged_safe st') \<and>
    (\<forall>rep contents d. r = Inr rep \<and> fmlookup (st_identities st) (rep_name rep, rep_version rep) = Some contents \<and>
       read_mapping env io contents = Inr d \<longrightarrow> d = rep_digest rep)"
proof (intro conjI allI impI)
  have r: "st' = st \<or> (\<exists>va. import_verified env io pid va st = (r, st'))"
    using assms by (auto simp: import_with_policy_def panic_def split: if_splits option.splits sum.splits)
  then show "extends st st'"
    using import_verified_kept(1) [of st env io pid] extends_refl by (metis snd_conv)
  show "staged_safe st'" if "staged_safe st"
    using r import_verified_kept(2) [OF that, of env io pid] that by (metis snd_conv)
  fix rep contents d
  assume a: "r = Inr rep \<and> fmlookup (st_identities st) (rep_name rep, rep_version rep) = Some contents \<and>
    read_mapping env io contents = Inr d"
  with assms have imported: "import_with_policy env io pid absolute bytes keys basic st = Some (Inr rep, st')"
    by simp
  obtain va where "import_verified env io pid va st = (Inr rep, st')"
    by (rule import_with_policy_verified [OF imported])
  then show "d = rep_digest rep"
    by (rule import_verified_existing) (use a in auto)
qed

text \<open>
  C28: a Bundle that an import reports as newly installed can be inspected by its name and version
  from then on, as long as the files can be read, and the inspection returns exactly the manifest
  and Profile that were verified in the archive, under the reported digest.
\<close>

theorem import_then_inspect:
  assumes "import_with_policy env io pid absolute bytes keys basic st = Some (Inr rep, st')"
    and "rep_outcome rep = Imported" "staged_safe st" "mapping_laws env" "\<And>step. readable step"
  shows "\<exists>va profile. verified_archive_read env io bytes keys basic = Some (Inr va) \<and>
    archive_facts env va profile \<and> va_digest va = rep_digest rep \<and>
    inspect env readable st' (rep_name rep) (rep_version rep) = Inr (inspection_of va profile)"
proof -
  obtain va where va: "verified_archive_read env io bytes keys basic = Some (Inr va)"
      "import_verified env io pid va st = (Inr rep, st')"
    by (rule import_with_policy_verified [OF assms(1)])
  obtain profile where facts: "archive_facts env va profile"
    using verified_archive_read_Ok(1) [OF va(1)] by blast
  obtain st1 st2 u where steps: "activate_entry env io va st1 = (Inr (rep_outcome rep), st2)"
      "activate_identity env io pid (va_bundle va) (va_digest va) st2 = (Inr u, st')"
    and rep: "rep_digest rep = va_digest va" "rep_name rep = bm_name (va_bundle va)"
      "rep_version rep = bm_version (va_bundle va)"
    by (rule import_verified_Ok [OF va(2)])
  have "extends st2 st'"
    using activate_identity_kept(1) [of st2] steps(2) by (metis snd_conv)
  moreover have "fmlookup (st_entries st2) (digest_hex (va_digest va)) = Some (va_bundle_raw va, va_profile_raw va)"
    using steps(1) assms(2) activate_entry_Imported by metis
  ultimately have "fmlookup (st_entries st') (digest_hex (va_digest va)) = Some (va_bundle_raw va, va_profile_raw va)"
    by (simp add: extends_def)
  note by_digest = inspect_by_digest_installed [OF facts this, of readable, OF assms(5)]
  obtain contents where contents:
      "fmlookup (st_identities st') (bm_name (va_bundle va), bm_version (va_bundle va)) = Some contents"
      "length contents \<le> MAX_FILE_BYTES"
      "decode_manifest (be_mapping_serde env) contents ''catalog mapping'' = Inr (va_digest va)"
    using activate_identity_Ok [OF steps(2) assms(4)] by blast
  have "staged_safe st'"
    using import_verified_kept(2) [OF assms(3), of env io pid va] va(2) by simp
  then have "validate_identity_staging_entries readable st' (rep_name rep) = Inr ()"
    using assms(5) by (auto simp: validate_identity_staging_entries_def staged_safe_def list_all_iff)
  then have "inspect env readable st' (rep_name rep) (rep_version rep) = Inr (inspection_of va profile)"
    using contents by_digest archive_identity [OF facts] assms(5) rep
    by (simp add: inspect_def read_mapping_def read_safe_file_Ok inspection_of_def)
  with va(1) facts rep(1) show ?thesis
    by auto
qed


text \<open>
  The count of entries does not show which are there: an unsigned archive with a signature and
  without its manifest has three allowed entries, and taking the manifest out panics.
\<close>

lemma unsigned_import_panics:
  assumes "io ReadArchive" "bytes \<noteq> []" "length bytes \<le> MAX_ARCHIVE_BYTES"
    and "be_unpack env bytes = Some (map (\<lambda>name. Inr \<lparr>ae_path = name, ae_is_file = True, ae_size = 1,
      ae_content = Some ''x''\<rparr>) [PROFILE_JSON, CHECKSUMS, SIGNATURE])"
  shows "import_unsigned env io pid True bytes st = None"
  using assms
  by (simp add: import_unsigned_def import_with_policy_def verified_archive_read_def file_names
      is_utf8.simps byte_def MAX_FILE_BYTES_def panic_def)

section \<open>An example\<close>

definition example_entry :: "string \<Rightarrow> string \<Rightarrow> unit + archive_entry" where
  "example_entry name content = Inr \<lparr>ae_path = name, ae_is_file = True, ae_size = 1, ae_content = Some content\<rparr>"

definition constant_serde :: "'m \<Rightarrow> (unit, 'm) serde" where
  "constant_serde m =
     \<lparr>sd_finite = (\<lambda>_. True), sd_tokens = (\<lambda>_. Some (RawObject [])), sd_from_value = (\<lambda>_. Some m),
      sd_to_value = (\<lambda>_. None), sd_to_vec = (\<lambda>_. None)\<rparr>"

definition example_checksums :: string where
  "example_checksums = digest_hex example_digest @ ''  '' @ BUNDLE_JSON @ [CHR 0x0A] @
     digest_hex example_digest @ ''  '' @ PROFILE_JSON @ [CHR 0x0A]"

definition example_env :: "unit bundle_env" where
  "example_env =
     \<lparr>be_sha256 = (\<lambda>_. example_digest), be_parse_version = example_version,
      be_unpack = (\<lambda>_. Some [example_entry BUNDLE_JSON ''b'', example_entry PROFILE_JSON ''p'',
        example_entry CHECKSUMS example_checksums, example_entry SIGNATURE ''s'']),
      be_base64 = (\<lambda>_. Some (replicate 64 (CHR ''z''))),
      be_verify = (\<lambda>_ _ _. True),
      be_bundle_serde = constant_serde example_manifest, be_profile_serde = constant_serde example_profile,
      be_mapping_serde = constant_serde example_digest,
      be_canonical_bundle = (\<lambda>_. Some ''b''), be_canonical_profile = (\<lambda>_. Some ''p''),
      be_canonical_mapping = (\<lambda>d. if d = example_digest then Some ''m'' else None),
      be_resolve_package = (\<lambda>_. Some ''org.ffmpeg'')\<rparr>"

definition example_keys :: "trusted_bundle_key list" where
  "example_keys = [\<lparr>tk_id = ''k1'', tk_key = ''public''\<rparr>]"

definition example_store :: store where
  "example_store = \<lparr>st_entries = fmempty, st_identities = fmempty, st_staged = [], st_next_staging = 0\<rparr>"

definition example_archive :: verified_archive where
  "example_archive = \<lparr>va_bundle = example_manifest, va_digest = example_digest,
     va_bundle_raw = ''b'', va_profile_raw = ''p''\<rparr>"

lemma decode_constant: "decode_manifest (constant_serde m) [CHR ''b''] name = Ok m"
    "decode_manifest (constant_serde m) [CHR ''p''] name = Ok m"
    "decode_manifest (constant_serde m) [CHR ''m''] name = Ok m"
  by (simp_all add: decode_manifest_def decode_json_def parse_without_duplicate_keys_def constant_serde_def
      validate_length_def MAX_FRAME_BYTES_def MAX_FILE_BYTES_def is_utf8.simps byte_def)

lemma example_mapping_laws: "mapping_laws example_env"
  by (simp add: mapping_laws_def example_env_def decode_constant)

lemma example_checksums_short: "length example_checksums \<le> MAX_FILE_BYTES"
  by (simp add: example_checksums_def digest_hex_def example_digest_def file_names MAX_FILE_BYTES_def
      hex_byte_def length_concat sum_list_replicate)

lemma example_files: "read_entries
    [example_entry BUNDLE_JSON ''b'', example_entry PROFILE_JSON ''p'',
     example_entry CHECKSUMS example_checksums, example_entry SIGNATURE ''s''] [] =
  Ok [(BUNDLE_JSON, ''b''), (CHECKSUMS, example_checksums), (PROFILE_JSON, ''p''), (SIGNATURE, ''s'')]"
  using example_checksums_short
  by (simp add: example_entry_def file_names is_utf8.simps byte_def MAX_FILE_BYTES_def)

lemma example_read: "verified_archive_read example_env (\<lambda>_. True) ''a'' example_keys False = Some (Inr example_archive)"
proof -
  have "verify_files example_env example_keys False ''b'' ''p'' example_checksums (Some ''s'') = Inr example_archive"
    using example_valid [of "''p''"]
    by (simp add: verify_files_def verify_checksums_def expected_checksums_def example_checksums_def validated_def
        verify_signature_def example_env_def example_keys_def decode_constant example_manifest_def bundle_digest_def
        example_archive_def is_utf8.simps byte_def)
  then show ?thesis
    using example_files
    by (simp add: verified_archive_read_def example_env_def MAX_ARCHIVE_BYTES_def)
      (simp add: file_names example_env_def)
qed

definition example_report :: bundle_import_report where
  "example_report = \<lparr>rep_digest = example_digest, rep_name = ''audio'', rep_version = ''1.0.0'',
     rep_outcome = Imported\<rparr>"

definition example_installed :: store where
  "example_installed = \<lparr>st_entries = fmupd (digest_hex example_digest) (''b'', ''p'') fmempty,
     st_identities = fmupd (''audio'', ''1.0.0'') ''m'' fmempty, st_staged = [], st_next_staging = 2\<rparr>"

lemma example_import:
  "import_with_policy example_env (\<lambda>_. True) 7 True ''a'' example_keys False example_store =
   Some (Inr example_report, example_installed)"
proof -
  have "import_verified example_env (\<lambda>_. True) 7 example_archive example_store = (Inr example_report, example_installed)"
    by (simp add: import_verified_def activate_entry_def activate_identity_def rename_identity_def Let_def
        example_archive_def example_store_def example_env_def example_manifest_def example_report_def
        example_installed_def)
  moreover have "example_keys \<noteq> []"
    by (simp add: example_keys_def)
  ultimately show ?thesis
    by (simp add: import_with_policy_def example_read)
qed

theorem catalog_immutable_witness:
  "import_with_policy example_env (\<lambda>_. True) 7 True ''a'' example_keys False example_store =
     Some (Inr example_report, example_installed) \<and>
   extends example_store example_installed \<and> staged_safe example_installed"
  using example_import catalog_immutable [OF example_import]
  by (simp add: staged_safe_def example_store_def)

theorem import_then_inspect_witness:
  "\<exists>va profile. inspect example_env (\<lambda>_. True) example_installed ''audio'' ''1.0.0'' = Inr (inspection_of va profile)"
proof -
  have "staged_safe example_store" "rep_outcome example_report = Imported"
    by (simp_all add: staged_safe_def example_store_def example_report_def)
  from import_then_inspect [OF example_import this(2) this(1) example_mapping_laws, of "\<lambda>_. True"]
  show ?thesis
    by (auto simp: example_report_def)
qed


end
