(* ===== verification/Profile_Call.thy ===== *)
theory Profile_Call
  imports Bundle_Catalog
begin

text \<open>
  The compiled Capsule of \<open>daemon/src/capsule.rs\<close> and the verification of a Profile call against it,
  \<open>daemon/src/application/capsule/contract.rs\<close>. Nothing here touches files or processes. The outer
  \<open>None\<close> of the verification is the panic of the digest parser. Reasons that embed the Korean text
  of a policy error carry the error itself.
\<close>

section \<open>Compiled Capsules\<close>

datatype capsule_int64_constraint = AllowedValues "i64 list" | Range i64 i64

text \<open>\<open>slice::binary_search\<close> of the standard library: halve until one candidate is left.\<close>

function binary_search_base :: "i64 list \<Rightarrow> i64 \<Rightarrow> nat \<Rightarrow> nat \<Rightarrow> nat" where
  "binary_search_base xs v base n =
     (if 1 < n then
        let half = n div 2; mid = base + half
        in binary_search_base xs v (if v < xs ! mid then base else mid) (n - half)
      else base)"
  by pat_completeness auto
termination
  by (relation "measure (\<lambda>(xs, v, base, n). n)") auto

declare binary_search_base.simps [simp del]

definition binary_search_is_ok :: "i64 list \<Rightarrow> i64 \<Rightarrow> bool" where
  "binary_search_is_ok xs v = (xs \<noteq> [] \<and> xs ! binary_search_base xs v 0 (length xs) = v)"

fun int64_allows :: "capsule_int64_constraint \<Rightarrow> i64 \<Rightarrow> bool" where
  "int64_allows (AllowedValues xs) v = binary_search_is_ok xs v"
| "int64_allows (Range minimum maximum) v = (minimum \<le> v \<and> v \<le> maximum)"

datatype capsule_input_kind =
    LocalInputKind
  | StringKind
  | Int64Kind capsule_int64_constraint
  | BooleanKind

fun schema_name :: "capsule_input_kind \<Rightarrow> string" where
  "schema_name LocalInputKind = ''LOCAL_INPUT''"
| "schema_name StringKind = ''STRING''"
| "schema_name (Int64Kind _) = ''INT64''"
| "schema_name BooleanKind = ''BOOLEAN''"

record capsule_input =
  cn_name :: string
  cn_required :: bool
  cn_kind :: capsule_input_kind

record capsule_runtime_reference =
  cr_package_id :: string
  cr_package_digest :: sha256_digest

record compiled_capsule_profile =
  cf_identity :: profile_identity
  cf_domain_identity :: profile_identity
  cf_digest :: sha256_digest
  cf_inputs :: "capsule_input list"
  cf_arguments :: "bundle_profile_argument list"
  cf_output :: bundle_output
  cf_resource_policy :: bundle_resource_policy
  cf_allowed_overrides :: "string list"

record compiled_capsule =
  cc_identity :: capsule_identity
  cc_catalog_digest :: sha256_digest
  cc_runtime :: capsule_runtime_reference
  cc_profile :: compiled_capsule_profile
  cc_signing_key_id :: string

datatype capsule_contract_problem =
    IdentitiesDiffer
  | InputNotRequired string
  | InputContract string
  | OverrideAllowlist
  | IdentityInvalid identity_error

datatype capsule_error = LegacyBundle bundle_error | InvalidContract capsule_contract_problem

definition capsule_input_try_from :: "bundle_input \<Rightarrow> capsule_contract_problem + capsule_input" where
  "capsule_input_try_from input =
     (if \<not> bi_required input then Err (InputNotRequired (bi_name input))
      else
        let kind =
          (if bi_kind input = ''LOCAL_INPUT'' \<and> bi_allowed_values input = None \<and> bi_minimum input = None \<and>
              bi_maximum input = None then Some LocalInputKind
           else if bi_kind input = ''STRING'' \<and> bi_allowed_values input = None \<and> bi_minimum input = None \<and>
              bi_maximum input = None then Some StringKind
           else if bi_kind input = ''BOOLEAN'' \<and> bi_allowed_values input = None \<and> bi_minimum input = None \<and>
              bi_maximum input = None then Some BooleanKind
           else if bi_kind input = ''INT64'' then
             (case (bi_allowed_values input, bi_minimum input, bi_maximum input) of
                (Some xs, None, None) \<Rightarrow>
                  if 1 \<le> length xs \<and> length xs \<le> 64 \<and> ascending xs then Some (Int64Kind (AllowedValues xs)) else None
              | (None, Some minimum, Some maximum) \<Rightarrow>
                  if minimum \<le> maximum then Some (Int64Kind (Range minimum maximum)) else None
              | _ \<Rightarrow> None)
           else None)
        in case kind of
             None \<Rightarrow> Err (InputContract (bi_name input))
           | Some k \<Rightarrow> Ok \<lparr>cn_name = bi_name input, cn_required = bi_required input, cn_kind = k\<rparr>)"

fun collect_results :: "('a \<Rightarrow> 'e + 'b) \<Rightarrow> 'a list \<Rightarrow> 'e + 'b list" where
  "collect_results f [] = Ok []"
| "collect_results f (x # xs) = and_then (f x) (\<lambda>y. and_then (collect_results f xs) (\<lambda>ys. Ok (y # ys)))"

definition ensure_inspection_consistency ::
  "installed_bundle \<Rightarrow> bundle_manifest \<Rightarrow> bundle_profile \<Rightarrow> capsule_contract_problem + unit" where
  "ensure_inspection_consistency installed manifest profile =
     (if ib_name installed \<noteq> bm_name manifest \<or> ib_version installed \<noteq> bm_version manifest \<or>
         ib_runtime_package_id installed \<noteq> br_package_id (bm_runtime manifest) \<or>
         ib_runtime_package_digest installed \<noteq> br_digest (bm_runtime manifest) \<or>
         bf_name profile \<noteq> bm_name manifest \<or> bf_version profile \<noteq> bm_version manifest
      then Err IdentitiesDiffer else Ok ())"

definition validate_allowed_overrides :: "string list \<Rightarrow> capsule_contract_problem + unit" where
  "validate_allowed_overrides overrides =
     (if unique_overrides {} overrides then Ok () else Err OverrideAllowlist)"

definition from_verified_inspection ::
  "(string \<Rightarrow> semver_version option) \<Rightarrow> bundle_inspection \<Rightarrow> capsule_contract_problem + compiled_capsule" where
  "from_verified_inspection parse inspection =
     (let installed = in_installed inspection; manifest = in_manifest inspection; profile = in_profile inspection in
      and_then (ensure_inspection_consistency installed manifest profile) (\<lambda>_.
      and_then (collect_results capsule_input_try_from (bf_inputs profile)) (\<lambda>inputs.
      and_then (validate_allowed_overrides (bf_allowed_overrides profile)) (\<lambda>_.
      and_then (map_err IdentityInvalid (capsule_identity_new parse (bm_name manifest) (bm_version manifest))) (\<lambda>identity.
      Ok \<lparr>cc_identity = identity, cc_catalog_digest = ib_digest installed,
          cc_runtime = \<lparr>cr_package_id = br_package_id (bm_runtime manifest),
            cr_package_digest = br_digest (bm_runtime manifest)\<rparr>,
          cc_profile =
            \<lparr>cf_identity = \<lparr>pi_name = bf_name profile, pi_version = bf_version profile\<rparr>,
             cf_domain_identity = \<lparr>pi_name = bf_name profile, pi_version = bf_version profile\<rparr>,
             cf_digest = bm_profile_digest manifest, cf_inputs = inputs, cf_arguments = bf_argv profile,
             cf_output = bf_output profile, cf_resource_policy = bf_policy profile,
             cf_allowed_overrides = bf_allowed_overrides profile\<rparr>,
          cc_signing_key_id = bm_signing_key_id manifest\<rparr>)))))"

definition capsule_compile ::
  "'f bundle_env \<Rightarrow> (io_step \<Rightarrow> bool) \<Rightarrow> store \<Rightarrow> string \<Rightarrow> string \<Rightarrow> capsule_error + compiled_capsule" where
  "capsule_compile env io st name version =
     and_then (map_err LegacyBundle (inspect env io st name version)) (\<lambda>inspection.
     map_err InvalidContract (from_verified_inspection (be_parse_version env) inspection))"

section \<open>Verification of a call\<close>

datatype input_value_rejection =
    Int64Constraint
  | StringConstraint
  | ArtifactPathInvalid
  | ArtifactDigestInvalid

datatype contract_reason = Reason string | PolicyReason policy_error

datatype override_reason = NoResourceField | OverrideInvalid policy_error

datatype rejection_reason = FieldNotAllowed string | AboveMaximum resource_maximum_violation

datatype invocation_error =
    InvalidProfileIdentity string
  | CapsuleProfileNotFound string string
  | DuplicateInput string
  | InputSetMismatch "string list" "string list"
  | InputTypeMismatch string string string
  | InputValueRejected string input_value_rejection
  | InvalidResourceOverride override_reason
  | PolicyRejected rejection_reason
  | InvalidCompiledContract contract_reason

definition invalid_contract :: "string \<Rightarrow> invocation_error" where
  "invalid_contract reason = InvalidCompiledContract (Reason reason)"

record verified_invocation =
  vi_capsule :: compiled_capsule
  vi_profile_identity :: profile_identity
  vi_values :: "(string, profile_value) btree_map"
  vi_input_artifacts :: "(string, local_input_artifact) btree_map"
  vi_arguments :: "verified_argument list"
  vi_effective_resources :: resource_budget

definition valid_version_component :: "string \<Rightarrow> bool" where
  "valid_version_component c \<longleftrightarrow>
     c \<noteq> [] \<and> list_all is_ascii_digit c \<and> (c = ''0'' \<or> hd c \<noteq> CHR ''0'')"

definition valid_profile_version :: "string \<Rightarrow> bool" where
  "valid_profile_version value =
     (let components = split_on (CHR ''.'') value in
      list_all valid_version_component (take 3 components) \<and> drop 3 components = [] \<and> length components = 3)"

definition valid_slot_name :: "string \<Rightarrow> bool" where
  "valid_slot_name value \<longleftrightarrow>
     value \<noteq> [] \<and> length value \<le> 64 \<and> is_ascii_lowercase (hd value) \<and>
     list_all (\<lambda>c. is_ascii_lowercase c \<or> is_ascii_digit c \<or> c = CHR ''_'' \<or> c = CHR ''-'') (tl value)"

definition validate_requested_identity :: "profile_identity \<Rightarrow> invocation_error + unit" where
  "validate_requested_identity identity =
     (if \<not> is_valid_capsule_name (pi_name identity) then
        Err (InvalidProfileIdentity ''name must use dot-separated [a-z][a-z0-9-]* segments (maximum 63 bytes)'')
      else if \<not> valid_profile_version (pi_version identity) then
        Err (InvalidProfileIdentity ''version must be strict MAJOR.MINOR.PATCH'')
      else Ok ())"

text \<open>The loop over the declared inputs; it returns the number of local inputs.\<close>

fun check_declared_inputs :: "string set \<Rightarrow> nat \<Rightarrow> capsule_input list \<Rightarrow> invocation_error + nat" where
  "check_declared_inputs names local_inputs [] = Ok local_inputs"
| "check_declared_inputs names local_inputs (input # rest) =
     (if \<not> cn_required input \<or> \<not> valid_slot_name (cn_name input) \<or> cn_name input \<in> names then
        Err (invalid_contract ''Profile inputs must be required, valid, and unique'')
      else check_declared_inputs (insert (cn_name input) names)
        (if cn_kind input = LocalInputKind then local_inputs + 1 else local_inputs) rest)"

definition validate_compiled_structure :: "compiled_capsule \<Rightarrow> invocation_error + unit" where
  "validate_compiled_structure capsule =
     (let profile = cc_profile capsule in
      and_then (require (ci_name (cc_identity capsule) = pi_name (cf_domain_identity profile) \<and>
          ci_version (cc_identity capsule) = pi_version (cf_domain_identity profile))
        (invalid_contract ''Capsule and Profile identities do not match'')) (\<lambda>_.
      and_then (require (cf_inputs profile \<noteq> [] \<and> length (cf_inputs profile) \<le> 32)
        (invalid_contract ''Profile must declare 1..=32 inputs'')) (\<lambda>_.
      and_then (check_declared_inputs {} 0 (cf_inputs profile)) (\<lambda>local_inputs.
      and_then (require (local_inputs = 1)
        (invalid_contract ''Profile must declare exactly one LOCAL_INPUT'')) (\<lambda>_.
      and_then (require (valid_slot_name (bo_name (cf_output profile)))
        (invalid_contract ''Profile output slot is invalid'')) (\<lambda>_.
      and_then (require (cf_arguments profile \<noteq> [] \<and> length (cf_arguments profile) \<le> 128)
        (invalid_contract ''Profile argv must contain 1..=128 nodes'')) (\<lambda>_.
      require (unique_overrides {} (cf_allowed_overrides profile))
        (invalid_contract ''resource override allowlist contains an invalid field''))))))))"

definition collect_inputs ::
  "(string \<times> profile_value) list \<Rightarrow> invocation_error + (string, profile_value) btree_map" where
  "collect_inputs inputs = collect_unique map_of btree_insert DuplicateInput [] inputs"

definition validate_exact_input_set ::
  "capsule_input list \<Rightarrow> (string, profile_value) btree_map \<Rightarrow> invocation_error + unit" where
  "validate_exact_input_set declarations vals =
     (let declared = btree_set (map cn_name declarations);
          supplied = btree_keys vals;
          missing = btree_difference declared supplied;
          unknown = btree_difference supplied declared
      in if missing = [] \<and> unknown = [] then Ok () else Err (InputSetMismatch missing unknown))"

fun validate_input_value ::
  "string \<Rightarrow> capsule_input_kind \<Rightarrow> profile_value \<Rightarrow> (invocation_error + local_input_artifact option) option" where
  "validate_input_value name LocalInputKind (LocalInputValue path digest size_bytes) =
     (case artifact_path_parse path of
        Inl _ \<Rightarrow> Some (Err (InputValueRejected name ArtifactPathInvalid))
      | Inr p \<Rightarrow>
          (case digest_from_str digest of
             None \<Rightarrow> panic
           | Some (Inl _) \<Rightarrow> Some (Err (InputValueRejected name ArtifactDigestInvalid))
           | Some (Inr d) \<Rightarrow> Some (Ok (Some (local_input_artifact_new p d size_bytes)))))"
| "validate_input_value name (Int64Kind constraint) (Int64Value v) =
     Some (if \<not> int64_allows constraint v then Err (InputValueRejected name Int64Constraint) else Ok None)"
| "validate_input_value name StringKind (StringValue v) =
     Some (if \<not> valid_text v then Err (InputValueRejected name StringConstraint) else Ok None)"
| "validate_input_value name BooleanKind (BooleanValue _) = Some (Ok None)"
| "validate_input_value name expected actual =
     Some (Err (InputTypeMismatch name (schema_name expected) (kind_name actual)))"

fun validate_input_values ::
  "capsule_input list \<Rightarrow> (string, profile_value) btree_map \<Rightarrow> (string, local_input_artifact) btree_map \<Rightarrow>
   (invocation_error + (string, local_input_artifact) btree_map) option" where
  "validate_input_values [] vals artifacts = Some (Ok artifacts)"
| "validate_input_values (input # rest) vals artifacts =
     (case map_of vals (cn_name input) of
        None \<Rightarrow> Some (Err (invalid_contract ''exact input set validation lost a declared input''))
      | Some v \<Rightarrow>
          (case validate_input_value (cn_name input) (cn_kind input) v of
             None \<Rightarrow> panic
           | Some (Inl e) \<Rightarrow> Some (Err e)
           | Some (Inr None) \<Rightarrow> validate_input_values rest vals artifacts
           | Some (Inr (Some artifact)) \<Rightarrow>
               validate_input_values rest vals (btree_insert (cn_name input) artifact artifacts)))"

fun argument_kind_matches_declaration :: "input_value_kind \<Rightarrow> capsule_input_kind option \<Rightarrow> bool" where
  "argument_kind_matches_declaration KindString (Some StringKind) = True"
| "argument_kind_matches_declaration KindInt64 (Some (Int64Kind _)) = True"
| "argument_kind_matches_declaration KindBoolean (Some BooleanKind) = True"
| "argument_kind_matches_declaration _ _ = False"

text \<open>\<open>i64::to_string\<close> and \<open>bool::to_string\<close>.\<close>

definition i64_to_string :: "i64 \<Rightarrow> string" where
  "i64_to_string i = (if i < 0 then CHR ''-'' # decimal (nat (- i)) else decimal (nat i))"

definition bool_to_string :: "bool \<Rightarrow> string" where
  "bool_to_string b = (if b then ''true'' else ''false'')"

fun scalar_literal :: "input_value_kind \<Rightarrow> profile_value \<Rightarrow> string option" where
  "scalar_literal KindString (StringValue v) = Some v"
| "scalar_literal KindInt64 (Int64Value v) = Some (i64_to_string v)"
| "scalar_literal KindBoolean (BooleanValue v) = Some (bool_to_string v)"
| "scalar_literal _ _ = None"

text \<open>The declarations are collected into a map, so a later one would replace an earlier one.\<close>

definition declared_kinds :: "capsule_input list \<Rightarrow> (string, capsule_input_kind) btree_map" where
  "declared_kinds inputs = fold (\<lambda>input. btree_insert (cn_name input) (cn_kind input)) inputs []"

fun bind_argument ::
  "compiled_capsule_profile \<Rightarrow> (string, capsule_input_kind) btree_map \<Rightarrow> (string, profile_value) btree_map \<Rightarrow>
   (string, local_input_artifact) btree_map \<Rightarrow> bundle_profile_argument \<Rightarrow> invocation_error + verified_argument" where
  "bind_argument profile declarations vals artifacts (ArgLiteral v) =
     (if \<not> valid_text v then Err (invalid_contract ''argv literal is invalid'') else Ok (Literal v))"
| "bind_argument profile declarations vals artifacts (ArgInputPath slot) =
     (if map_of declarations slot \<noteq> Some LocalInputKind \<or> map_of artifacts slot = None then
        Err (invalid_contract (''argv input path references invalid slot '' @ slot))
      else Ok (InputArtifactPath slot))"
| "bind_argument profile declarations vals artifacts (ArgInputValue kind slot) =
     (if \<not> argument_kind_matches_declaration kind (map_of declarations slot) then
        Err (invalid_contract (''argv scalar kind does not match input '' @ slot))
      else and_then (ok_or (invalid_contract (''argv references missing input '' @ slot)) (map_of vals slot)) (\<lambda>v.
        and_then (ok_or (invalid_contract (''argv scalar value does not match input '' @ slot))
          (scalar_literal kind v)) (\<lambda>literal.
        Ok (Literal literal))))"
| "bind_argument profile declarations vals artifacts (ArgOutputPath slot) =
     (if slot \<noteq> bo_name (cf_output profile) then
        Err (invalid_contract (''argv output path references invalid slot '' @ slot))
      else Ok (OutputArtifactPath slot))"

definition bind_arguments ::
  "compiled_capsule_profile \<Rightarrow> (string, profile_value) btree_map \<Rightarrow> (string, local_input_artifact) btree_map \<Rightarrow>
   invocation_error + verified_argument list" where
  "bind_arguments profile vals artifacts =
     collect_results (bind_argument profile (declared_kinds (cf_inputs profile)) vals artifacts) (cf_arguments profile)"

definition requested_fields :: "profile_resource_overrides \<Rightarrow> (string \<times> bool) list" where
  "requested_fields overrides =
     [(''limits.cpuMax'', ro_cpu_max overrides \<noteq> None),
      (''limits.memoryMaxBytes'', ro_memory_max_bytes overrides \<noteq> None),
      (''limits.pidsMax'', ro_pids_max overrides \<noteq> None),
      (''limits.wallTimeLimitMs'', ro_wall_time_limit_ms overrides \<noteq> None),
      (''output.stdoutTailMaxBytes'', ro_stdout_tail_max_bytes overrides \<noteq> None),
      (''output.stderrTailMaxBytes'', ro_stderr_tail_max_bytes overrides \<noteq> None)]"

definition validate_override_allowlist ::
  "string list \<Rightarrow> profile_resource_overrides \<Rightarrow> invocation_error + unit" where
  "validate_override_allowlist allowed overrides =
     (case find (\<lambda>(field, requested). requested \<and> field \<notin> set allowed) (requested_fields overrides) of
        Some (field, _) \<Rightarrow> Err (PolicyRejected (FieldNotAllowed field))
      | None \<Rightarrow> Ok ())"

definition policy_budget :: "bundle_resource_policy \<Rightarrow> policy_error + resource_budget" where
  "policy_budget policy =
     resource_budget_try_new (wc_quota_micros (wl_cpu_max (bp_limits policy)))
       (wc_period_micros (wl_cpu_max (bp_limits policy))) (wl_memory_max_bytes (bp_limits policy))
       (wl_pids_max (bp_limits policy)) (wl_wall_time_limit_ms (bp_limits policy))
       (wo_stdout_tail_max_bytes (bp_output policy)) (wo_stderr_tail_max_bytes (bp_output policy))"

definition unwrap_or :: "'a \<Rightarrow> 'a option \<Rightarrow> 'a" where
  "unwrap_or d x = (case x of None \<Rightarrow> d | Some v \<Rightarrow> v)"

definition requested_budget ::
  "bundle_resource_policy \<Rightarrow> profile_resource_overrides \<Rightarrow> policy_error + resource_budget" where
  "requested_budget policy overrides =
     resource_budget_try_new
       (case ro_cpu_max overrides of None \<Rightarrow> wc_quota_micros (wl_cpu_max (bp_limits policy)) | Some c \<Rightarrow> cm_quota_micros c)
       (case ro_cpu_max overrides of None \<Rightarrow> wc_period_micros (wl_cpu_max (bp_limits policy)) | Some c \<Rightarrow> cm_period_micros c)
       (unwrap_or (wl_memory_max_bytes (bp_limits policy)) (ro_memory_max_bytes overrides))
       (unwrap_or (wl_pids_max (bp_limits policy)) (ro_pids_max overrides))
       (unwrap_or (wl_wall_time_limit_ms (bp_limits policy)) (ro_wall_time_limit_ms overrides))
       (unwrap_or (wo_stdout_tail_max_bytes (bp_output policy)) (ro_stdout_tail_max_bytes overrides))
       (unwrap_or (wo_stderr_tail_max_bytes (bp_output policy)) (ro_stderr_tail_max_bytes overrides))"

definition resolve_resources ::
  "compiled_capsule_profile \<Rightarrow> profile_resource_overrides option \<Rightarrow> invocation_error + resource_budget" where
  "resolve_resources profile overrides =
     and_then (map_err (\<lambda>e. InvalidCompiledContract (PolicyReason e)) (policy_budget (cf_resource_policy profile))) (\<lambda>maximum.
     case overrides of
       None \<Rightarrow> Ok maximum
     | Some o' \<Rightarrow>
         if overrides_is_empty o' then Err (InvalidResourceOverride NoResourceField)
         else
           and_then (map_err (\<lambda>e. InvalidResourceOverride (OverrideInvalid e))
             (requested_budget (cf_resource_policy profile) o')) (\<lambda>requested.
           and_then (validate_override_allowlist (cf_allowed_overrides profile) o') (\<lambda>_.
           and_then (map_err (\<lambda>v. PolicyRejected (AboveMaximum v)) (validate_within_maximum requested maximum)) (\<lambda>_.
           Ok requested))))"

text \<open>The part of \<open>verify_profile_call\<close> after the exact input set is known.\<close>

definition verify_inputs ::
  "compiled_capsule \<Rightarrow> profile_call \<Rightarrow> (string, profile_value) btree_map \<Rightarrow>
   (invocation_error + verified_invocation) option" where
  "verify_inputs capsule call vals =
     (let profile = cc_profile capsule in
      case validate_input_values (cf_inputs profile) vals [] of
        None \<Rightarrow> panic
      | Some (Inl e) \<Rightarrow> Some (Err e)
      | Some (Inr input_artifacts) \<Rightarrow> Some (
          and_then (bind_arguments profile vals input_artifacts) (\<lambda>arguments.
          and_then (resolve_resources profile (pc_resource_overrides call)) (\<lambda>effective_resources.
          Ok \<lparr>vi_capsule = capsule, vi_profile_identity = pc_identity call, vi_values = vals,
              vi_input_artifacts = input_artifacts, vi_arguments = arguments,
              vi_effective_resources = effective_resources\<rparr>))))"

definition verify_profile_call ::
  "compiled_capsule \<Rightarrow> profile_call \<Rightarrow> (invocation_error + verified_invocation) option" where
  "verify_profile_call capsule call =
     (let identity = pc_identity call; profile = cc_profile capsule in
      case and_then (validate_requested_identity identity) (\<lambda>_. validate_compiled_structure capsule) of
        Inl e \<Rightarrow> Some (Err e)
      | Inr _ \<Rightarrow>
          if pi_name identity \<noteq> ci_name (cc_identity capsule) \<or>
             pi_version identity \<noteq> ci_version (cc_identity capsule) \<or>
             pi_name identity \<noteq> pi_name (cf_domain_identity profile) \<or>
             pi_version identity \<noteq> pi_version (cf_domain_identity profile)
          then Some (Err (CapsuleProfileNotFound (pi_name identity) (pi_version identity)))
          else (case and_then (collect_inputs (pc_inputs call)) (\<lambda>vals.
                       and_then (validate_exact_input_set (cf_inputs profile) vals) (\<lambda>_. Ok vals)) of
              Inl e \<Rightarrow> Some (Err e)
            | Inr vals \<Rightarrow> verify_inputs capsule call vals))"

section \<open>The library search\<close>

lemma ascending_sorted: "ascending xs \<longleftrightarrow> sorted_wrt (<) xs"
proof (induction xs rule: ascending.induct)
  case (1 x y rest)
  then show ?case
    by (auto dest: less_trans)
qed auto

lemma binary_search_base_finds:
  assumes "sorted_wrt (<) xs" "base \<le> i" "i < base + n" "base + n \<le> length xs" "xs ! i = v"
  shows "xs ! binary_search_base xs v base n = v"
  using assms
proof (induction xs v base n rule: binary_search_base.induct)
  case (1 xs v base n)
  show ?case
  proof (cases "1 < n")
    case False
    with "1.prems" have "i = base"
      by simp
    with False "1.prems" show ?thesis
      by (simp add: binary_search_base.simps)
  next
    case True
    define half where "half = n div 2"
    have half: "1 \<le> half" "half < n" "half \<le> n - half"
      using True by (auto simp: half_def)
    have order: "xs ! j \<le> xs ! k" if "j \<le> k" "k < length xs" for j k
      using "1.prems"(1) that by (cases "j = k") (auto simp: sorted_wrt_iff_nth_less less_imp_le)
    have less: "xs ! j < xs ! k" if "j < k" "k < length xs" for j k
      using "1.prems"(1) that by (auto simp: sorted_wrt_iff_nth_less)
    have step: "binary_search_base xs v base n =
        binary_search_base xs v (if v < xs ! (base + half) then base else base + half) (n - half)"
      using True by (simp add: binary_search_base.simps [of xs v base n] half_def Let_def)
    show ?thesis
    proof (cases "v < xs ! (base + half)")
      case True
      then have "i < base + half"
        using order [of "base + half" i] "1.prems" by (cases "i < base + half") auto
      with True half "1.prems" "1.IH" [OF \<open>1 < n\<close> refl refl] show ?thesis
        unfolding step by (simp add: half_def)
    next
      case False
      then have "base + half \<le> i"
        using less [of i "base + half"] "1.prems" half by (cases "base + half \<le> i") auto
      with False half "1.prems" "1.IH" [OF \<open>1 < n\<close> refl refl] show ?thesis
        unfolding step by (simp add: half_def)
    qed
  qed
qed

lemma binary_search_base_bound: "0 < n \<Longrightarrow> binary_search_base xs v base n < base + n"
proof (induction xs v base n rule: binary_search_base.induct)
  case (1 xs v base n)
  show ?case
  proof (cases "1 < n")
    case True
    with "1.IH" [OF True refl refl] show ?thesis
      by (simp add: binary_search_base.simps [of xs v base n] Let_def split: if_splits)
  next
    case False
    with "1.prems" show ?thesis
      by (simp add: binary_search_base.simps)
  qed
qed

lemma binary_search_is_membership:
  assumes "ascending xs"
  shows "binary_search_is_ok xs v \<longleftrightarrow> v \<in> set xs"
proof
  assume "binary_search_is_ok xs v"
  then show "v \<in> set xs"
    using binary_search_base_bound [of "length xs" xs v 0] nth_mem
    by (fastforce simp: binary_search_is_ok_def)
next
  assume "v \<in> set xs"
  then obtain i where "i < length xs" "xs ! i = v"
    by (auto simp: in_set_conv_nth)
  with assms show "binary_search_is_ok xs v"
    using binary_search_base_finds [of xs 0 i "length xs" v]
    by (auto simp: binary_search_is_ok_def ascending_sorted)
qed

section \<open>A validated Bundle compiles\<close>

lemma require_Ok [result_simps]: "require b e = Inr u \<longleftrightarrow> b"
  by (simp add: require_def)

lemma slot_names_agree: "validate_slot s = Inr u \<longleftrightarrow> valid_slot_name s"
  by (cases s) (auto simp: validate_slot_def valid_slot_name_def)

definition declares :: "capsule_input list \<Rightarrow> string \<Rightarrow> string \<Rightarrow> bool" where
  "declares inputs slot kind \<longleftrightarrow> (\<exists>input \<in> set inputs. cn_name input = slot \<and> schema_name (cn_kind input) = kind)"

lemma capsule_input_try_from_Ok:
  assumes "validate_input_schema input = Inr u" "bi_required input"
    "bi_kind input \<in> {''LOCAL_INPUT'', ''STRING'', ''INT64'', ''BOOLEAN''}"
  shows "\<exists>ci. capsule_input_try_from input = Inr ci \<and> cn_name ci = bi_name input \<and> cn_required ci \<and>
    schema_name (cn_kind ci) = bi_kind input"
  using assms
  by (auto simp: validate_input_schema_def capsule_input_try_from_def Let_def split: if_splits option.splits)

lemma schema_name_local: "schema_name k = ''LOCAL_INPUT'' \<longleftrightarrow> k = LocalInputKind"
  by (cases k) auto

lemma validated_inputs_compile:
  assumes "validate_inputs names n inputs = Inr m"
  shows "\<exists>cis. collect_results capsule_input_try_from inputs = Inr cis \<and> check_declared_inputs names n cis = Inr m \<and>
    length cis = length inputs \<and>
    (\<forall>slot kind. list_ex (\<lambda>i. bi_name i = slot \<and> bi_kind i = kind) inputs \<longrightarrow> declares cis slot kind)"
  using assms
proof (induction names n inputs rule: validate_inputs.induct)
  case (2 names n input rest)
  from "2.prems" have p: "valid_slot_name (bi_name input)" "bi_name input \<notin> names" "bi_required input"
      "bi_kind input \<in> {''LOCAL_INPUT'', ''STRING'', ''INT64'', ''BOOLEAN''}" "validate_input_schema input = Inr ()"
      "validate_inputs (insert (bi_name input) names)
         (if bi_kind input = ''LOCAL_INPUT'' then n + 1 else n) rest = Inr m"
    by (auto simp: result_simps slot_names_agree split: if_splits)
  obtain ci where ci: "capsule_input_try_from input = Inr ci" "cn_name ci = bi_name input" "cn_required ci"
      "schema_name (cn_kind ci) = bi_kind input"
    using capsule_input_try_from_Ok [OF p(5,3,4)] by blast
  obtain cis where cis: "collect_results capsule_input_try_from rest = Inr cis"
      "check_declared_inputs (insert (bi_name input) names)
         (if bi_kind input = ''LOCAL_INPUT'' then n + 1 else n) cis = Inr m"
      "length cis = length rest"
      "\<forall>slot kind. list_ex (\<lambda>i. bi_name i = slot \<and> bi_kind i = kind) rest \<longrightarrow> declares cis slot kind"
    using "2.IH" p by (auto simp: slot_names_agree)
  have "(cn_kind ci = LocalInputKind) = (bi_kind input = ''LOCAL_INPUT'')"
    using ci(4) schema_name_local by metis
  then have "check_declared_inputs names n (ci # cis) = Inr m"
    using cis(2) ci p by simp
  moreover have "declares (ci # cis) slot kind"
    if "list_ex (\<lambda>i. bi_name i = slot \<and> bi_kind i = kind) (input # rest)" for slot kind
    using that ci cis(4) by (auto simp: declares_def)
  ultimately show ?case
    using ci(1) cis(1,3) by (intro exI [of _ "ci # cis"]) auto
qed simp

text \<open>What the rest of the verification relies on, beyond the checks it repeats itself.\<close>

fun argument_ok :: "compiled_capsule_profile \<Rightarrow> bundle_profile_argument \<Rightarrow> bool" where
  "argument_ok profile (ArgLiteral v) = valid_text v"
| "argument_ok profile (ArgInputPath slot) = declares (cf_inputs profile) slot ''LOCAL_INPUT''"
| "argument_ok profile (ArgInputValue kind slot) = declares (cf_inputs profile) slot (value_kind_name kind)"
| "argument_ok profile (ArgOutputPath slot) = (slot = bo_name (cf_output profile))"

definition contract_ok :: "compiled_capsule \<Rightarrow> bool" where
  "contract_ok capsule \<longleftrightarrow>
     validate_compiled_structure capsule = Inr () \<and>
     list_all (argument_ok (cc_profile capsule)) (cf_arguments (cc_profile capsule)) \<and>
     is_ok (policy_budget (cf_resource_policy (cc_profile capsule)))"

lemma validate_argvs_Ok:
  "validate_argvs argv inputs out = Inr u \<longleftrightarrow> (\<forall>a \<in> set argv. validate_argv a inputs out = Inr ())"
  by (induction argv) (auto simp: result_simps)

lemma validated_argument_ok:
  assumes "validate_argv a inputs (cf_output profile) = Inr ()"
    and "\<forall>slot kind. list_ex (\<lambda>i. bi_name i = slot \<and> bi_kind i = kind) inputs \<longrightarrow>
      declares (cf_inputs profile) slot kind"
  shows "argument_ok profile a"
  using assms by (cases a) (auto simp: require_input_kind_def split: if_splits)

lemma validated_identity_new:
  assumes "validate_identity parse name version = Inr u"
  shows "capsule_identity_new parse name version = Inr \<lparr>ci_name = name, ci_version = version\<rparr>"
  using assms by (auto simp: validate_identity_def capsule_identity_new_def result_simps split: if_splits)

lemma validate_bundle_facts:
  assumes "validate_bundle sha parse manifest profile raw = Inr u"
  shows "validate_identity parse (bm_name manifest) (bm_version manifest) = Inr ()"
    and "bf_name profile = bm_name manifest" "bf_version profile = bm_version manifest"
    and "validate_profile profile = Inr ()"
  using assms by (auto simp: validate_bundle_def result_simps)

lemma validated_bundle_compiles:
  assumes "validate_bundle sha parse (in_manifest i) (in_profile i) raw = Inr u"
    and "ensure_inspection_consistency (in_installed i) (in_manifest i) (in_profile i) = Inr ()"
  shows "\<exists>capsule. from_verified_inspection parse i = Inr capsule \<and> contract_ok capsule"
proof -
  let ?p = "in_profile i" and ?m = "in_manifest i"
  have id: "validate_identity parse (bm_name ?m) (bm_version ?m) = Inr ()"
    and same: "bf_name ?p = bm_name ?m" "bf_version ?p = bm_version ?m"
    and profile: "validate_profile ?p = Inr ()"
    using validate_bundle_facts [OF assms(1)] by simp_all
  from profile obtain budget where v: "bf_inputs ?p \<noteq> []" "length (bf_inputs ?p) \<le> 32" "validate_inputs {} 0 (bf_inputs ?p) = Inr 1"
      "valid_slot_name (bo_name (bf_output ?p))" "bf_argv ?p \<noteq> []" "length (bf_argv ?p) \<le> 128"
      "\<forall>a \<in> set (bf_argv ?p). validate_argv a (bf_inputs ?p) (bf_output ?p) = Inr ()"
      "unique_overrides {} (bf_allowed_overrides ?p)"
      "resource_budget_from_wire (bp_limits (bf_policy ?p)) (bp_output (bf_policy ?p)) = Inr budget"
    by (auto simp: validate_profile_def result_simps validate_argvs_Ok slot_names_agree)
  obtain cis where cis: "collect_results capsule_input_try_from (bf_inputs ?p) = Inr cis"
      "check_declared_inputs {} 0 cis = Inr 1" "length cis = length (bf_inputs ?p)"
      "\<forall>slot kind. list_ex (\<lambda>i. bi_name i = slot \<and> bi_kind i = kind) (bf_inputs ?p) \<longrightarrow> declares cis slot kind"
    using validated_inputs_compile [OF v(3)] by blast
  obtain capsule where c: "from_verified_inspection parse i = Inr capsule"
    and f: "cc_identity capsule = \<lparr>ci_name = bm_name ?m, ci_version = bm_version ?m\<rparr>"
      "cf_domain_identity (cc_profile capsule) = \<lparr>pi_name = bf_name ?p, pi_version = bf_version ?p\<rparr>"
      "cf_inputs (cc_profile capsule) = cis" "cf_arguments (cc_profile capsule) = bf_argv ?p"
      "cf_output (cc_profile capsule) = bf_output ?p" "cf_resource_policy (cc_profile capsule) = bf_policy ?p"
      "cf_allowed_overrides (cc_profile capsule) = bf_allowed_overrides ?p"
    using assms(2) cis(1) v(8) validated_identity_new [OF id]
    by (auto simp: from_verified_inspection_def Let_def validate_allowed_overrides_def)
  have "validate_compiled_structure capsule = Inr ()"
    using v cis f same by (auto simp: validate_compiled_structure_def Let_def result_simps)
  moreover have "list_all (argument_ok (cc_profile capsule)) (cf_arguments (cc_profile capsule))"
    using v(7) cis(4) f by (auto simp: list_all_iff intro!: validated_argument_ok)
  moreover have "is_ok (policy_budget (cf_resource_policy (cc_profile capsule)))"
    using v(9) f(6) by (simp add: policy_budget_def resource_budget_from_wire_def)
  ultimately show ?thesis
    using c by (auto simp: contract_ok_def)
qed

lemma inspect_validated:
  assumes "inspect env io st name version = Inr i"
  obtains raw where "validate_bundle (be_sha256 env) (be_parse_version env) (in_manifest i) (in_profile i) raw = Inr ()"
    and "ensure_inspection_consistency (in_installed i) (in_manifest i) (in_profile i) = Inr ()"
proof -
  obtain d where "inspect_by_digest env io st d = Inr i"
    using assms by (auto simp: inspect_def result_simps split: if_splits)
  then obtain raw where raw: "validate_bundle (be_sha256 env) (be_parse_version env) (in_manifest i) (in_profile i) raw = Inr ()"
      "in_installed i = \<lparr>ib_digest = d, ib_name = bm_name (in_manifest i), ib_version = bm_version (in_manifest i),
         ib_runtime_package_digest = br_digest (bm_runtime (in_manifest i)),
         ib_runtime_package_id = br_package_id (bm_runtime (in_manifest i))\<rparr>"
    by (auto simp: inspect_by_digest_def validated_def result_simps split: if_splits)
  have "bf_name (in_profile i) = bm_name (in_manifest i)" "bf_version (in_profile i) = bm_version (in_manifest i)"
    using validate_bundle_facts [OF raw(1)] by simp_all
  then have "ensure_inspection_consistency (in_installed i) (in_manifest i) (in_profile i) = Inr ()"
    using raw(2) by (simp add: ensure_inspection_consistency_def)
  with raw(1) show thesis
    by (rule that)
qed

lemma capsule_compile_contract:
  assumes "capsule_compile env io st name version = Inr capsule"
  shows "contract_ok capsule"
proof -
  obtain i where i: "inspect env io st name version = Inr i"
      "from_verified_inspection (be_parse_version env) i = Inr capsule"
    using assms by (auto simp: capsule_compile_def result_simps)
  obtain raw where "validate_bundle (be_sha256 env) (be_parse_version env) (in_manifest i) (in_profile i) raw = Inr ()"
    "ensure_inspection_consistency (in_installed i) (in_manifest i) (in_profile i) = Inr ()"
    by (rule inspect_validated [OF i(1)])
  from validated_bundle_compiles [OF this] i(2) show ?thesis
    by auto
qed

lemma capsule_compile_never_invalid:
  "capsule_compile env io st name version \<noteq> Inl (InvalidContract p)"
proof
  assume "capsule_compile env io st name version = Inl (InvalidContract p)"
  then obtain i where i: "inspect env io st name version = Inr i"
      "from_verified_inspection (be_parse_version env) i = Inl p"
    by (auto simp: capsule_compile_def result_simps)
  obtain raw where "validate_bundle (be_sha256 env) (be_parse_version env) (in_manifest i) (in_profile i) raw = Inr ()"
    "ensure_inspection_consistency (in_installed i) (in_manifest i) (in_profile i) = Inr ()"
    by (rule inspect_validated [OF i(1)])
  from validated_bundle_compiles [OF this] i(2) show False
    by auto
qed

section \<open>Values and arguments\<close>

fun conforms :: "capsule_input_kind \<Rightarrow> profile_value \<Rightarrow> bool" where
  "conforms LocalInputKind (LocalInputValue path digest size_bytes) =
     (is_ok (artifact_path_parse path) \<and> (case digest_from_str digest of Some r \<Rightarrow> is_ok r | None \<Rightarrow> False))"
| "conforms (Int64Kind constraint) (Int64Value v) = int64_allows constraint v"
| "conforms StringKind (StringValue v) = valid_text v"
| "conforms BooleanKind (BooleanValue _) = True"
| "conforms _ _ = False"

lemma validate_input_value_cases:
  obtains (refused) e where "validate_input_value name k v = Some (Inl e)" "\<not> conforms k v"
      "\<And>r. e \<noteq> InvalidCompiledContract r"
  | (accepted) a where "validate_input_value name k v = Some (Inr a)" "conforms k v"
      "a \<noteq> None \<longleftrightarrow> k = LocalInputKind"
proof (cases "(name, k, v)" rule: validate_input_value.cases)
  case (1 name' path digest size_bytes)
  show thesis
  proof (cases "artifact_path_parse path")
    case (Inl e)
    then show thesis
      using 1 refused by simp
  next
    case (Inr p)
    obtain r where "digest_from_str digest = Some r"
      using digest_from_str_total by fastforce
    with 1 Inr show thesis
      using refused accepted by (cases r) auto
  qed
qed (use refused accepted in \<open>auto split: if_splits\<close>)

lemma validate_input_values_cases:
  assumes "\<And>input. input \<in> set inputs \<Longrightarrow> map_of vals (cn_name input) \<noteq> None"
  obtains (refused) e where "validate_input_values inputs vals artifacts = Some (Inl e)"
      "\<not> (\<forall>input \<in> set inputs. \<exists>v. map_of vals (cn_name input) = Some v \<and> conforms (cn_kind input) v)"
      "\<And>r. e \<noteq> InvalidCompiledContract r"
  | (accepted) artifacts' where "validate_input_values inputs vals artifacts = Some (Inr artifacts')"
      "\<forall>input \<in> set inputs. \<exists>v. map_of vals (cn_name input) = Some v \<and> conforms (cn_kind input) v"
      "\<forall>slot. map_of artifacts' slot \<noteq> None \<longleftrightarrow>
         map_of artifacts slot \<noteq> None \<or> (\<exists>input \<in> set inputs. cn_name input = slot \<and> cn_kind input = LocalInputKind)"
  using assms
proof (induction inputs arbitrary: artifacts thesis)
  case (Cons input rest)
  obtain v where v: "map_of vals (cn_name input) = Some v"
    using Cons.prems(3) [of input] by auto
  show thesis
  proof (cases rule: validate_input_value_cases [of "cn_name input" "cn_kind input" v])
    case (refused e)
    then show thesis
      using v by (intro Cons.prems(1) [of e]) auto
  next
    case (accepted a)
    define next_artifacts where "next_artifacts =
      (case a of None \<Rightarrow> artifacts | Some x \<Rightarrow> btree_insert (cn_name input) x artifacts)"
    have step: "validate_input_values (input # rest) vals artifacts = validate_input_values rest vals next_artifacts"
      using v accepted by (simp add: next_artifacts_def split: option.splits)
    have keys: "map_of next_artifacts slot \<noteq> None \<longleftrightarrow>
        map_of artifacts slot \<noteq> None \<or> (cn_name input = slot \<and> cn_kind input = LocalInputKind)" for slot
      using accepted(3) by (auto simp: next_artifacts_def map_of_btree_insert split: option.splits)
    have given: "map_of vals (cn_name x) \<noteq> None" if "x \<in> set rest" for x
      using Cons.prems(3) that by simp
    show thesis
    proof (rule Cons.IH [of next_artifacts])
      fix e
      assume "validate_input_values rest vals next_artifacts = Some (Inl e)"
        "\<not> (\<forall>x \<in> set rest. \<exists>v. map_of vals (cn_name x) = Some v \<and> conforms (cn_kind x) v)"
        "\<And>r. e \<noteq> InvalidCompiledContract r"
      then show thesis
        using step by (intro Cons.prems(1) [of e]) auto
    next
      fix artifacts'
      assume "validate_input_values rest vals next_artifacts = Some (Inr artifacts')"
        "\<forall>x \<in> set rest. \<exists>v. map_of vals (cn_name x) = Some v \<and> conforms (cn_kind x) v"
        "\<forall>slot. map_of artifacts' slot \<noteq> None \<longleftrightarrow>
           map_of next_artifacts slot \<noteq> None \<or> (\<exists>x \<in> set rest. cn_name x = slot \<and> cn_kind x = LocalInputKind)"
      then show thesis
        using step v accepted(2) keys by (intro Cons.prems(2) [of artifacts']) auto
    qed (rule given)
  qed
qed simp

lemma map_of_declared_kinds:
  assumes "distinct (map cn_name inputs)" "input \<in> set inputs"
  shows "map_of (declared_kinds inputs) (cn_name input) = Some (cn_kind input)"
proof -
  have "map_of (fold (\<lambda>x. btree_insert (cn_name x) (cn_kind x)) inputs m) k =
      (case map_of (map (\<lambda>x. (cn_name x, cn_kind x)) inputs) k of None \<Rightarrow> map_of m k | Some v \<Rightarrow> Some v)" for m k
    using assms(1)
  proof (induction inputs arbitrary: m)
    case (Cons x xs)
    then have "map_of (map (\<lambda>x. (cn_name x, cn_kind x)) xs) (cn_name x) = None"
      by (force simp: map_of_eq_None_iff)
    with Cons show ?case
      by (auto simp: map_of_btree_insert split: option.splits)
  qed simp
  moreover have "map_of (map (\<lambda>x. (cn_name x, cn_kind x)) inputs) (cn_name input) = Some (cn_kind input)"
    using assms by (intro map_of_is_SomeI) (auto simp: comp_def)
  ultimately show ?thesis
    by (simp add: declared_kinds_def)
qed

lemma check_declared_inputs_Ok:
  assumes "check_declared_inputs names n inputs = Inr m"
  shows "distinct (map cn_name inputs) \<and> cn_name ` set inputs \<inter> names = {}"
  using assms
  by (induction names n inputs rule: check_declared_inputs.induct) (auto split: if_splits)

lemma collect_results_Ok:
  "(\<exists>ys. collect_results f xs = Inr ys) \<longleftrightarrow> (\<forall>x \<in> set xs. \<exists>y. f x = Inr y)"
  by (induction xs) (auto simp: result_simps)

lemma conforms_scalar:
  "conforms k v \<Longrightarrow> schema_name k = value_kind_name kind \<Longrightarrow>
   argument_kind_matches_declaration kind (Some k) \<and> (\<exists>l. scalar_literal kind v = Some l)"
  by (cases "(k, v)" rule: conforms.cases; cases kind) auto

lemma bind_arguments_Ok:
  assumes "distinct (map cn_name (cf_inputs profile))"
    and "\<forall>input \<in> set (cf_inputs profile). \<exists>v. map_of vals (cn_name input) = Some v \<and> conforms (cn_kind input) v"
    and "\<forall>slot. map_of artifacts slot \<noteq> None \<longleftrightarrow>
       (\<exists>input \<in> set (cf_inputs profile). cn_name input = slot \<and> cn_kind input = LocalInputKind)"
    and "list_all (argument_ok profile) (cf_arguments profile)"
  shows "\<exists>arguments. bind_arguments profile vals artifacts = Inr arguments"
  unfolding bind_arguments_def collect_results_Ok
proof
  fix a
  assume "a \<in> set (cf_arguments profile)"
  with assms(4) have a: "argument_ok profile a"
    by (simp add: list_all_iff)
  show "\<exists>y. bind_argument profile (declared_kinds (cf_inputs profile)) vals artifacts a = Inr y"
  proof (cases a)
    case (ArgInputPath slot)
    then obtain input where "input \<in> set (cf_inputs profile)" "cn_name input = slot" "cn_kind input = LocalInputKind"
      using a by (auto simp: declares_def schema_name_local)
    then show ?thesis
      using ArgInputPath assms(3) map_of_declared_kinds [OF assms(1)] by auto
  next
    case (ArgInputValue kind slot)
    then obtain input v where "input \<in> set (cf_inputs profile)" "cn_name input = slot"
        "schema_name (cn_kind input) = value_kind_name kind" "map_of vals slot = Some v" "conforms (cn_kind input) v"
      using a assms(2) by (fastforce simp: declares_def)
    then show ?thesis
      using ArgInputValue map_of_declared_kinds [OF assms(1)] conforms_scalar by fastforce
  qed (use a in auto)
qed

section \<open>Resources\<close>

definition overrides_ok :: "compiled_capsule_profile \<Rightarrow> profile_resource_overrides option \<Rightarrow> bool" where
  "overrides_ok profile overrides \<longleftrightarrow>
     (case overrides of
        None \<Rightarrow> True
      | Some o' \<Rightarrow> \<not> overrides_is_empty o' \<and>
          (\<forall>(field, requested) \<in> set (requested_fields o'). requested \<longrightarrow> field \<in> set (cf_allowed_overrides profile)) \<and>
          (\<exists>r m. requested_budget (cf_resource_policy profile) o' = Inr r \<and>
            policy_budget (cf_resource_policy profile) = Inr m \<and> budget_le r m))"

lemma validate_override_allowlist_cases:
  obtains (refused) field where "validate_override_allowlist allowed o' = Inl (PolicyRejected (FieldNotAllowed field))"
      "\<not> (\<forall>(field, requested) \<in> set (requested_fields o'). requested \<longrightarrow> field \<in> set allowed)"
  | (accepted) "validate_override_allowlist allowed o' = Inr ()"
      "\<forall>(field, requested) \<in> set (requested_fields o'). requested \<longrightarrow> field \<in> set allowed"
proof (cases "find (\<lambda>(field, requested). requested \<and> field \<notin> set allowed) (requested_fields o')")
  case None
  then have "\<forall>(field, requested) \<in> set (requested_fields o'). requested \<longrightarrow> field \<in> set allowed"
    by (auto simp: find_None_iff)
  moreover have "validate_override_allowlist allowed o' = Inr ()"
    using None by (simp add: validate_override_allowlist_def)
  ultimately show thesis
    by (intro accepted)
next
  case (Some x)
  then show thesis
    using refused find_SomeD [OF Some] by (cases x) (auto simp: validate_override_allowlist_def)
qed

lemma budgets_valid:
  "policy_budget p = Inr m \<Longrightarrow> valid_budget m" "requested_budget p o' = Inr r \<Longrightarrow> valid_budget r"
  unfolding policy_budget_def requested_budget_def by (rule resource_budget_try_new_valid, assumption)+

lemma resolve_resources_cases:
  assumes "is_ok (policy_budget (cf_resource_policy profile))"
  obtains (refused) e where "resolve_resources profile overrides = Inl e" "\<not> overrides_ok profile overrides"
      "\<And>r. e \<noteq> InvalidCompiledContract r"
  | (accepted) r m where "resolve_resources profile overrides = Inr r" "overrides_ok profile overrides"
      "policy_budget (cf_resource_policy profile) = Inr m" "valid_budget r" "budget_le r m"
proof -
  obtain m where m: "policy_budget (cf_resource_policy profile) = Inr m"
    using assms by (auto simp: is_ok_iff)
  note res = resolve_resources_def m overrides_ok_def
  show thesis
  proof (cases overrides)
    case None
    then show thesis
      using m accepted [of m m] budget_le_refl budgets_valid(1) [OF m] by (simp add: res)
  next
    case (Some o')
    show thesis
    proof (cases "overrides_is_empty o'")
      case True
      then show thesis
        using Some refused by (simp add: res)
    next
      case False
      show thesis
      proof (cases "requested_budget (cf_resource_policy profile) o'")
        case (Inl e)
        then show thesis
          using Some False refused by (simp add: res)
      next
        case (Inr r)
        note within = validate_within_maximum_iff [OF budgets_valid(2) [OF Inr] budgets_valid(1) [OF m]]
        show thesis
        proof (cases rule: validate_override_allowlist_cases [of "cf_allowed_overrides profile" o'])
          case (refused field)
          then show thesis
            using Some False Inr that(1) by (simp add: res)
        next
          case accepted
          then show thesis
            using Some False Inr within budgets_valid(2) [OF Inr] that m
            by (cases "validate_within_maximum r m") (auto simp: res)
        qed
      qed
    qed
  qed
qed

section \<open>The verification as a whole\<close>

definition call_acceptable :: "compiled_capsule \<Rightarrow> profile_call \<Rightarrow> bool" where
  "call_acceptable capsule call \<longleftrightarrow>
     is_valid_capsule_name (pi_name (pc_identity call)) \<and> valid_profile_version (pi_version (pc_identity call)) \<and>
     pi_name (pc_identity call) = ci_name (cc_identity capsule) \<and>
     pi_version (pc_identity call) = ci_version (cc_identity capsule) \<and>
     distinct (map fst (pc_inputs call)) \<and>
     fst ` set (pc_inputs call) = cn_name ` set (cf_inputs (cc_profile capsule)) \<and>
     (\<forall>input \<in> set (cf_inputs (cc_profile capsule)).
        \<exists>v. map_of (pc_inputs call) (cn_name input) = Some v \<and> conforms (cn_kind input) v) \<and>
     overrides_ok (cc_profile capsule) (pc_resource_overrides call)"

lemma input_stage_cases:
  obtains (refused) e where "and_then (collect_inputs inputs) (\<lambda>vals.
        and_then (validate_exact_input_set declared vals) (\<lambda>_. Ok vals)) = Inl e"
      "\<not> (distinct (map fst inputs) \<and> fst ` set inputs = cn_name ` set declared)" "\<And>r. e \<noteq> InvalidCompiledContract r"
  | (accepted) vals where "and_then (collect_inputs inputs) (\<lambda>vals.
        and_then (validate_exact_input_set declared vals) (\<lambda>_. Ok vals)) = Inr vals"
      "distinct (map fst inputs)" "fst ` set inputs = cn_name ` set declared" "map_of vals = map_of inputs"
proof (cases "collect_inputs inputs")
  case (Inl e)
  have "e = DuplicateInput k \<longrightarrow> thesis" for k
    using refused [of e] Inl btree.collect_total [of DuplicateInput "[]" inputs]
    by (auto simp: collect_inputs_def)
  moreover have "collect_unique map_of btree_insert DuplicateInput m xs = Inl e \<Longrightarrow> \<exists>k. e = DuplicateInput k"
    for m :: "(string, profile_value) btree_map" and xs
    by (induction xs arbitrary: m) (auto split: if_splits)
  ultimately show thesis
    using Inl by (auto simp: collect_inputs_def)
next
  case (Inr vals)
  note collected = Inr [unfolded collect_inputs_def]
  have d: "distinct (map fst inputs)"
    by (rule btree.collect_OkD(1) [OF collected])
  have keys: "set (btree_keys vals) = fst ` set inputs"
    by (rule btree.keys_collect [OF collected]) (simp add: btree_keys_def)
  have get: "map_of vals = map_of inputs"
    using btree.get_collect [OF collected] by (auto simp: fun_eq_iff split: option.splits)
  show thesis
  proof (cases "fst ` set inputs = cn_name ` set declared")
    case True
    then have "validate_exact_input_set declared vals = Inr ()"
      using keys by (simp add: validate_exact_input_set_def Let_def btree_difference_Nil)
    then show thesis
      by (intro accepted [OF _ d True get]) (simp add: Inr)
  next
    case False
    then have "\<exists>missing unknown. validate_exact_input_set declared vals = Inl (InputSetMismatch missing unknown)"
      using keys by (auto simp: validate_exact_input_set_def Let_def btree_difference_Nil)
    with False Inr show thesis
      using refused by auto
  qed
qed

text \<open>Everything the verification of a call against a sound contract can do.\<close>

lemma verify_inputs_cases:
  assumes ok: "contract_ok capsule"
    and given: "\<forall>input \<in> set (cf_inputs (cc_profile capsule)). map_of vals (cn_name input) \<noteq> None"
  obtains (refused) e where "verify_inputs capsule call vals = Some (Inl e)" "\<And>r. e \<noteq> InvalidCompiledContract r"
      "\<not> ((\<forall>input \<in> set (cf_inputs (cc_profile capsule)).
            \<exists>v. map_of vals (cn_name input) = Some v \<and> conforms (cn_kind input) v) \<and>
          overrides_ok (cc_profile capsule) (pc_resource_overrides call))"
  | (accepted) v m where "verify_inputs capsule call vals = Some (Inr v)"
      "vi_capsule v = capsule" "vi_profile_identity v = pc_identity call" "vi_values v = vals"
      "\<forall>input \<in> set (cf_inputs (cc_profile capsule)).
         \<exists>v. map_of vals (cn_name input) = Some v \<and> conforms (cn_kind input) v"
      "overrides_ok (cc_profile capsule) (pc_resource_overrides call)"
      "fst ` set (vi_input_artifacts v) = cn_name ` {input \<in> set (cf_inputs (cc_profile capsule)). cn_kind input = LocalInputKind}"
      "bind_arguments (cc_profile capsule) vals (vi_input_artifacts v) = Inr (vi_arguments v)"
      "policy_budget (cf_resource_policy (cc_profile capsule)) = Inr m"
      "valid_budget (vi_effective_resources v)" "budget_le (vi_effective_resources v) m"
proof -
  let ?p = "cc_profile capsule"
  have d: "distinct (map cn_name (cf_inputs ?p))"
    and args: "list_all (argument_ok ?p) (cf_arguments ?p)" and policy: "is_ok (policy_budget (cf_resource_policy ?p))"
    using ok by (auto simp: contract_ok_def validate_compiled_structure_def Let_def result_simps
        dest: check_declared_inputs_Ok)
  show thesis
  proof (rule validate_input_values_cases [of "cf_inputs ?p" vals "[]"])
    fix e
    assume "validate_input_values (cf_inputs ?p) vals [] = Some (Inl e)"
      "\<not> (\<forall>input \<in> set (cf_inputs ?p). \<exists>v. map_of vals (cn_name input) = Some v \<and> conforms (cn_kind input) v)"
      "\<And>r. e \<noteq> InvalidCompiledContract r"
    then show thesis
      by (intro refused [of e]) (auto simp: verify_inputs_def)
  next
    fix artifacts
    assume a: "validate_input_values (cf_inputs ?p) vals [] = Some (Inr artifacts)"
      "\<forall>input \<in> set (cf_inputs ?p). \<exists>v. map_of vals (cn_name input) = Some v \<and> conforms (cn_kind input) v"
      "\<forall>slot. map_of artifacts slot \<noteq> None \<longleftrightarrow> map_of [] slot \<noteq> None \<or>
         (\<exists>input \<in> set (cf_inputs ?p). cn_name input = slot \<and> cn_kind input = LocalInputKind)"
    then have keys: "\<forall>slot. map_of artifacts slot \<noteq> None \<longleftrightarrow>
         (\<exists>input \<in> set (cf_inputs ?p). cn_name input = slot \<and> cn_kind input = LocalInputKind)"
      by simp
    obtain arguments where b: "bind_arguments ?p vals artifacts = Inr arguments"
      using bind_arguments_Ok [OF d a(2) keys args] by blast
    have "fst ` set artifacts = {slot. map_of artifacts slot \<noteq> None}"
      by (simp add: map_of_eq_None_iff)
    also have "\<dots> = {slot. \<exists>input \<in> set (cf_inputs ?p). cn_name input = slot \<and> cn_kind input = LocalInputKind}"
      using keys by simp
    also have "\<dots> = cn_name ` {input \<in> set (cf_inputs ?p). cn_kind input = LocalInputKind}"
      by auto
    finally have names: "fst ` set artifacts = cn_name ` {input \<in> set (cf_inputs ?p). cn_kind input = LocalInputKind}" .
    show thesis
      using policy
    proof (cases rule: resolve_resources_cases [where overrides = "pc_resource_overrides call"])
      case (refused e)
      then show thesis
        by (intro that(1) [of e]) (auto simp: verify_inputs_def a(1) b)
    next
      case (accepted r m)
      show thesis
        by (rule that(2) [of "\<lparr>vi_capsule = capsule, vi_profile_identity = pc_identity call, vi_values = vals,
              vi_input_artifacts = artifacts, vi_arguments = arguments, vi_effective_resources = r\<rparr>" m])
          (simp_all add: verify_inputs_def accepted a(1,2) b names)
    qed
  qed (use given in blast)
qed

lemma verify_profile_call_cases:
  assumes ok: "contract_ok capsule"
  obtains (refused) e where "verify_profile_call capsule call = Some (Inl e)" "\<not> call_acceptable capsule call"
      "\<And>r. e \<noteq> InvalidCompiledContract r"
  | (accepted) v vals where "verify_profile_call capsule call = Some (Inr v)" "call_acceptable capsule call"
      "verify_inputs capsule call vals = Some (Inr v)" "map_of vals = map_of (pc_inputs call)"
proof -
  let ?p = "cc_profile capsule" and ?id = "pc_identity call"
  have shape: "validate_compiled_structure capsule = Inr ()"
    using ok by (simp add: contract_ok_def)
  then have same: "ci_name (cc_identity capsule) = pi_name (cf_domain_identity ?p)"
      "ci_version (cc_identity capsule) = pi_version (cf_domain_identity ?p)"
    by (auto simp: validate_compiled_structure_def Let_def result_simps)
  note verify = verify_profile_call_def Let_def shape
  show thesis
  proof (cases "is_valid_capsule_name (pi_name ?id) \<and> valid_profile_version (pi_version ?id) \<and>
      pi_name ?id = ci_name (cc_identity capsule) \<and> pi_version ?id = ci_version (cc_identity capsule)")
    case False
    then have "\<exists>e. verify_profile_call capsule call = Some (Inl e) \<and> (\<forall>r. e \<noteq> InvalidCompiledContract r)"
      using same by (auto simp: verify validate_requested_identity_def)
    moreover have "\<not> call_acceptable capsule call"
      using False by (auto simp: call_acceptable_def)
    ultimately show thesis
      using refused by blast
  next
    case True
    then have v: "validate_requested_identity ?id = Inr ()"
      by (auto simp add: validate_requested_identity_def)
    with True have step: "verify_profile_call capsule call =
        (case and_then (collect_inputs (pc_inputs call)) (\<lambda>vals.
           and_then (validate_exact_input_set (cf_inputs ?p) vals) (\<lambda>_. Ok vals)) of
           Inl e \<Rightarrow> Some (Err e) | Inr vals \<Rightarrow> verify_inputs capsule call vals)"
      using same by (simp add: verify)
    show thesis
    proof (cases rule: input_stage_cases [of "pc_inputs call" "cf_inputs ?p"])
      case (refused e)
      then show thesis
        using that(1) step by (auto simp: call_acceptable_def)
    next
      case stage: (accepted vals)
      then have "\<forall>input \<in> set (cf_inputs ?p). map_of vals (cn_name input) \<noteq> None"
        by (auto simp: map_of_eq_None_iff)
      with ok show thesis
      proof (cases rule: verify_inputs_cases [where call = call and vals = vals])
        case (refused e)
        then show thesis
          using that(1) [of e] step stage by (auto simp: call_acceptable_def)
      next
        case (accepted v m)
        have "call_acceptable capsule call"
          unfolding call_acceptable_def stage(4) [symmetric] using accepted(5,6) stage(2,3) True by blast
        then show thesis
          using that(2) [of v vals] step stage accepted(1) by simp
      qed
    qed
  qed
qed

text \<open>
  C17: a Capsule compiled from the catalog always has a sound contract: compiling never fails for
  a Bundle that could be inspected, and verifying any call against the result never panics and
  never blames the compiled contract.
\<close>

theorem compiled_contract_sound:
  "capsule_compile env io st name version \<noteq> Inl (InvalidContract p) \<and>
   (capsule_compile env io st name version = Inr capsule \<longrightarrow>
      (\<exists>out. verify_profile_call capsule call = Some out \<and> (\<forall>r. out \<noteq> Inl (InvalidCompiledContract r))))"
proof (intro conjI impI)
  show "capsule_compile env io st name version \<noteq> Inl (InvalidContract p)"
    by (rule capsule_compile_never_invalid)
  assume "capsule_compile env io st name version = Inr capsule"
  then have "contract_ok capsule"
    by (rule capsule_compile_contract)
  then show "\<exists>out. verify_profile_call capsule call = Some out \<and> (\<forall>r. out \<noteq> Inl (InvalidCompiledContract r))"
    by (cases rule: verify_profile_call_cases [where call = call]) auto
qed


section \<open>An example\<close>

lemma example_facts: "archive_facts example_env example_archive example_profile"
  using example_valid [of "''p''"]
  by (simp add: archive_facts_def example_archive_def example_env_def decode_constant validated_def bundle_digest_def)

lemma example_inspect:
  "inspect example_env (\<lambda>_. True) example_installed ''audio'' ''1.0.0'' =
     Inr (inspection_of example_archive example_profile)"
proof -
  have "inspect_by_digest example_env (\<lambda>_. True) example_installed (va_digest example_archive) =
      Inr (inspection_of example_archive example_profile)"
    by (rule inspect_by_digest_installed [OF example_facts])
      (simp_all add: example_installed_def example_archive_def)
  moreover have "validate_identity (be_parse_version example_env) ''audio'' ''1.0.0'' = Inr ()"
    using archive_identity [OF example_facts] by (simp add: example_archive_def example_manifest_def)
  moreover have "read_mapping example_env (\<lambda>_. True) ''m'' = Inr (va_digest example_archive)"
    by (simp add: read_mapping_def read_safe_file_Ok MAX_FILE_BYTES_def example_env_def decode_constant
        example_archive_def)
  moreover have "fmlookup (st_identities example_installed) (''audio'', ''1.0.0'') = Some ''m''"
    by (simp add: example_installed_def)
  moreover have "validate_identity_staging_entries (\<lambda>_. True) example_installed ''audio'' = Inr ()"
    by (simp add: validate_identity_staging_entries_def example_installed_def)
  moreover have "ib_name (in_installed (inspection_of example_archive example_profile)) = ''audio''"
      "ib_version (in_installed (inspection_of example_archive example_profile)) = ''1.0.0''"
    by (simp_all add: inspection_of_def example_archive_def example_manifest_def)
  ultimately show ?thesis
    unfolding inspect_def by simp
qed

definition example_capsule :: compiled_capsule where
  "example_capsule =
     \<lparr>cc_identity = \<lparr>ci_name = ''audio'', ci_version = ''1.0.0''\<rparr>, cc_catalog_digest = example_digest,
      cc_runtime = \<lparr>cr_package_id = ''org.ffmpeg'', cr_package_digest = example_digest\<rparr>,
      cc_profile =
        \<lparr>cf_identity = \<lparr>pi_name = ''audio'', pi_version = ''1.0.0''\<rparr>,
         cf_domain_identity = \<lparr>pi_name = ''audio'', pi_version = ''1.0.0''\<rparr>, cf_digest = example_digest,
         cf_inputs = [\<lparr>cn_name = ''source'', cn_required = True, cn_kind = LocalInputKind\<rparr>,
           \<lparr>cn_name = ''rate'', cn_required = True, cn_kind = Int64Kind (AllowedValues [8000, 16000])\<rparr>],
         cf_arguments = bf_argv example_profile, cf_output = bf_output example_profile,
         cf_resource_policy = bf_policy example_profile, cf_allowed_overrides = [''limits.pidsMax'']\<rparr>,
      cc_signing_key_id = ''k1''\<rparr>"

definition example_call :: profile_call where
  "example_call =
     \<lparr>pc_identity = \<lparr>pi_name = ''audio'', pi_version = ''1.0.0''\<rparr>,
      pc_inputs = [(''rate'', Int64Value 16000),
        (''source'', LocalInputValue ''a/b.mp3'' (digest_to_string example_digest) 10)],
      pc_resource_overrides = None\<rparr>"

lemma example_compile:
  "capsule_compile example_env (\<lambda>_. True) example_installed ''audio'' ''1.0.0'' = Inr example_capsule"
proof -
  have "from_verified_inspection example_version (inspection_of example_archive example_profile) = Inr example_capsule"
    by (simp add: from_verified_inspection_def Let_def inspection_of_def example_archive_def example_manifest_def
        ensure_inspection_consistency_def validate_allowed_overrides_def known_override_field_def
        capsule_identity_new_def is_valid_capsule_name_def example_version_def ascii_defs byte_def example_capsule_def
        example_profile_def capsule_input_try_from_def)
  then show ?thesis
    by (simp add: capsule_compile_def example_inspect) (simp add: example_env_def)
qed

lemma example_digest_text: "digest_from_str (digest_to_string example_digest) = Some (Inr example_digest)"
  by (rule digest_from_to_string) (simp add: valid_digest_def example_digest_def)

lemma example_call_acceptable: "call_acceptable example_capsule example_call"
proof -
  have "is_ok (artifact_path_parse ''a/b.mp3'')"
    by (simp add: artifact_path_parse_def MAX_ARTIFACT_PATH_BYTES_def ascii_defs byte_def backslash_char nul_char)
  moreover have "binary_search_is_ok [8000, 16000] 16000"
    by (simp add: binary_search_is_membership)
  ultimately show ?thesis
    by (simp add: call_acceptable_def example_capsule_def example_call_def example_digest_text overrides_ok_def
        is_valid_capsule_name_def valid_profile_version_def valid_version_component_def ascii_defs byte_def insert_commute)
qed

theorem compiled_contract_sound_witness:
  "capsule_compile example_env (\<lambda>_. True) example_installed ''audio'' ''1.0.0'' = Inr example_capsule \<and>
   (\<exists>out. verify_profile_call example_capsule example_call = Some out \<and> (\<forall>r. out \<noteq> Inl (InvalidCompiledContract r)))"
  using example_compile
    compiled_contract_sound [of example_env "\<lambda>_. True" example_installed "''audio''" "''1.0.0''" _ example_capsule example_call]
  by blast


end
