(* ===== verification/Profile_Mapper.thy ===== *)
theory Profile_Mapper
  imports Profile_Call
begin

text \<open>
  The materialization of a verified invocation, \<open>daemon/src/profile_mapper.rs\<close>: staged paths are
  bound to the placeholders of the argument template. Paths and arguments are byte strings.
\<close>

section \<open>Materialization\<close>

datatype artifact_binding_kind = InputBinding | OutputBinding

record artifact_bindings =
  ab_input_paths :: "(string \<times> string) list"
  ab_output_paths :: "(string \<times> string) list"
  ab_working_directory :: string

record materialized_invocation =
  mi_capsule_identity :: capsule_identity
  mi_profile_identity :: profile_identity
  mi_runtime :: capsule_runtime_reference
  mi_argv0 :: string
  mi_arguments :: "string list"
  mi_working_directory :: string
  mi_effective_resources :: resource_budget
  mi_declared_output :: bundle_output

datatype materialization_error =
    DuplicateBinding artifact_binding_kind string
  | BindingSetMismatch "string list" "string list" "string list" "string list"
  | NonAbsoluteBinding artifact_binding_kind string
  | NulBinding artifact_binding_kind string
  | NonAbsoluteWorkingDirectory
  | NulArgv0
  | NulArgument nat
  | NulWorkingDirectory
  | InvalidVerifiedInvocation string

definition is_absolute :: "string \<Rightarrow> bool" where
  "is_absolute path = (case path of [] \<Rightarrow> False | c # _ \<Rightarrow> c = CHR ''/'')"

definition contains_nul :: "string \<Rightarrow> bool" where
  "contains_nul value \<longleftrightarrow> nul \<in> set value"

definition invalid_invocation :: "string \<Rightarrow> materialization_error" where
  "invalid_invocation reason = InvalidVerifiedInvocation reason"

definition collect_bindings ::
  "artifact_binding_kind \<Rightarrow> (string \<times> string) list \<Rightarrow> materialization_error + (string, string) btree_map" where
  "collect_bindings kind bindings = collect_unique map_of btree_insert (DuplicateBinding kind) [] bindings"

definition validate_binding_sets ::
  "verified_invocation \<Rightarrow> (string, string) btree_map \<Rightarrow> (string, string) btree_map \<Rightarrow> materialization_error + unit" where
  "validate_binding_sets invocation input_paths output_paths =
     (let expected_inputs = btree_keys (vi_input_artifacts invocation);
          supplied_inputs = btree_keys input_paths;
          expected_outputs = [bo_name (cf_output (cc_profile (vi_capsule invocation)))];
          supplied_outputs = btree_keys output_paths;
          missing_inputs = btree_difference expected_inputs supplied_inputs;
          unknown_inputs = btree_difference supplied_inputs expected_inputs;
          missing_outputs = btree_difference expected_outputs supplied_outputs;
          unknown_outputs = btree_difference supplied_outputs expected_outputs
      in if missing_inputs = [] \<and> unknown_inputs = [] \<and> missing_outputs = [] \<and> unknown_outputs = [] then Ok ()
         else Err (BindingSetMismatch missing_inputs unknown_inputs missing_outputs unknown_outputs))"

fun validate_absolute_paths ::
  "artifact_binding_kind \<Rightarrow> (string, string) btree_map \<Rightarrow> materialization_error + unit" where
  "validate_absolute_paths kind [] = Ok ()"
| "validate_absolute_paths kind ((slot, path) # rest) =
     (if \<not> is_absolute path then Err (NonAbsoluteBinding kind slot)
      else if contains_nul path then Err (NulBinding kind slot)
      else validate_absolute_paths kind rest)"

fun argument_token ::
  "(string, string) btree_map \<Rightarrow> (string, string) btree_map \<Rightarrow> verified_argument \<Rightarrow> materialization_error + string" where
  "argument_token input_paths output_paths (Literal v) = Ok v"
| "argument_token input_paths output_paths (InputArtifactPath slot) =
     ok_or (invalid_invocation (''missing verified input slot '' @ slot)) (map_of input_paths slot)"
| "argument_token input_paths output_paths (OutputArtifactPath slot) =
     ok_or (invalid_invocation (''missing verified output slot '' @ slot)) (map_of output_paths slot)"

fun materialize_arguments ::
  "(string, string) btree_map \<Rightarrow> (string, string) btree_map \<Rightarrow> nat \<Rightarrow> verified_argument list \<Rightarrow>
   materialization_error + string list" where
  "materialize_arguments input_paths output_paths index [] = Ok []"
| "materialize_arguments input_paths output_paths index (argument # rest) =
     and_then (argument_token input_paths output_paths argument) (\<lambda>token.
       if contains_nul token then Err (NulArgument index)
       else and_then (materialize_arguments input_paths output_paths (Suc index) rest) (\<lambda>tokens.
         Ok (token # tokens)))"

definition materialize_invocation ::
  "verified_invocation \<Rightarrow> artifact_bindings \<Rightarrow> materialization_error + materialized_invocation" where
  "materialize_invocation invocation bindings =
     and_then (collect_bindings InputBinding (ab_input_paths bindings)) (\<lambda>input_paths.
     and_then (collect_bindings OutputBinding (ab_output_paths bindings)) (\<lambda>output_paths.
     and_then (validate_binding_sets invocation input_paths output_paths) (\<lambda>_.
     and_then (validate_absolute_paths InputBinding input_paths) (\<lambda>_.
     and_then (validate_absolute_paths OutputBinding output_paths) (\<lambda>_.
     if \<not> is_absolute (ab_working_directory bindings) then Err NonAbsoluteWorkingDirectory
     else if contains_nul (ab_working_directory bindings) then Err NulWorkingDirectory
     else if contains_nul (pi_name (vi_profile_identity invocation)) then Err NulArgv0
     else and_then (materialize_arguments input_paths output_paths 0 (vi_arguments invocation)) (\<lambda>arguments.
       Ok \<lparr>mi_capsule_identity = cc_identity (vi_capsule invocation),
           mi_profile_identity = vi_profile_identity invocation,
           mi_runtime = cc_runtime (vi_capsule invocation),
           mi_argv0 = pi_name (vi_profile_identity invocation),
           mi_arguments = arguments,
           mi_working_directory = ab_working_directory bindings,
           mi_effective_resources = vi_effective_resources invocation,
           mi_declared_output = cf_output (cc_profile (vi_capsule invocation))\<rparr>))))))"

section \<open>The tokens of a verified template\<close>

text \<open>The token a placeholder stands for, as the mathematical substitution.\<close>

fun bound_token :: "artifact_bindings \<Rightarrow> verified_argument \<Rightarrow> string" where
  "bound_token b (Literal v) = v"
| "bound_token b (InputArtifactPath slot) = the (map_of (ab_input_paths b) slot)"
| "bound_token b (OutputArtifactPath slot) = the (map_of (ab_output_paths b) slot)"

definition path_ok :: "string \<Rightarrow> bool" where
  "path_ok path \<longleftrightarrow> is_absolute path \<and> nul \<notin> set path"

definition bindings_ok :: "verified_invocation \<Rightarrow> artifact_bindings \<Rightarrow> bool" where
  "bindings_ok v b \<longleftrightarrow>
     distinct (map fst (ab_input_paths b)) \<and> distinct (map fst (ab_output_paths b)) \<and>
     fst ` set (ab_input_paths b) = fst ` set (vi_input_artifacts v) \<and>
     fst ` set (ab_output_paths b) = {bo_name (cf_output (cc_profile (vi_capsule v)))} \<and>
     (\<forall>(slot, path) \<in> set (ab_input_paths b) \<union> set (ab_output_paths b). path_ok path) \<and>
     path_ok (ab_working_directory b)"

fun template_ok :: "verified_invocation \<Rightarrow> verified_argument \<Rightarrow> bool" where
  "template_ok v (Literal s) = (nul \<notin> set s)"
| "template_ok v (InputArtifactPath slot) = (slot \<in> fst ` set (vi_input_artifacts v))"
| "template_ok v (OutputArtifactPath slot) = (slot = bo_name (cf_output (cc_profile (vi_capsule v))))"

lemma nul_not_digit: "\<not> is_ascii_digit nul"
  by (simp add: is_ascii_digit_def)

lemma scalar_literal_no_nul:
  assumes "conforms k v" "scalar_literal kind v = Some l"
  shows "nul \<notin> set l"
proof -
  have "nul \<notin> set (decimal n)" for n
    using decimal_digits [of nul n] nul_not_digit by blast
  then have "nul \<notin> set (i64_to_string i)" for i
    by (simp add: i64_to_string_def nul_char)
  moreover have "nul \<notin> set (bool_to_string c)" for c
    by (simp add: bool_to_string_def nul_char)
  moreover have "valid_text s \<Longrightarrow> nul \<notin> set s" for s
    by (simp add: valid_text_def)
  ultimately show ?thesis
    using assms by (cases "(kind, v)" rule: scalar_literal.cases; cases k) auto
qed

lemma declared_kinds_keys: "map_of (declared_kinds inputs) slot \<noteq> None \<Longrightarrow> slot \<in> cn_name ` set inputs"
proof -
  have "map_of (fold (\<lambda>x. btree_insert (cn_name x) (cn_kind x)) inputs m) slot \<noteq> None \<Longrightarrow>
      slot \<in> cn_name ` set inputs \<or> map_of m slot \<noteq> None" for m
    by (induction inputs arbitrary: m) (fastforce simp: map_of_btree_insert split: if_splits)+
  from this [of "[]"] show "map_of (declared_kinds inputs) slot \<noteq> None \<Longrightarrow> slot \<in> cn_name ` set inputs"
    by (simp add: declared_kinds_def)
qed

lemma collect_results_mem:
  "collect_results f xs = Inr ys \<Longrightarrow> y \<in> set ys \<Longrightarrow> \<exists>x \<in> set xs. f x = Inr y"
  by (induction xs arbitrary: ys) (auto simp: result_simps)

lemma kind_matches_declared: "argument_kind_matches_declaration kind d \<Longrightarrow> d \<noteq> None"
  by (cases d) auto

lemma bound_argument_template_ok:
  assumes "bind_argument (cc_profile (vi_capsule v)) (declared_kinds (cf_inputs (cc_profile (vi_capsule v)))) vals
      (vi_input_artifacts v) a = Inr y"
    and "\<forall>input \<in> set (cf_inputs (cc_profile (vi_capsule v))).
      \<exists>w. map_of vals (cn_name input) = Some w \<and> conforms (cn_kind input) w"
  shows "template_ok v y"
proof (cases a)
  case (ArgInputPath slot)
  with assms(1) show ?thesis
    by (force split: if_splits dest: map_of_SomeD)
next
  case (ArgInputValue kind slot)
  with assms(1) obtain w l where w: "argument_kind_matches_declaration kind
        (map_of (declared_kinds (cf_inputs (cc_profile (vi_capsule v)))) slot)"
      "map_of vals slot = Some w" "scalar_literal kind w = Some l" "y = Literal l"
    by (auto simp: result_simps split: if_splits)
  then have "slot \<in> cn_name ` set (cf_inputs (cc_profile (vi_capsule v)))"
    by (intro declared_kinds_keys kind_matches_declared)
  with assms(2) w(2) obtain k where "conforms k w"
    by auto
  with w show ?thesis
    using scalar_literal_no_nul by simp
qed (use assms(1) in \<open>auto simp: valid_text_def split: if_splits\<close>)

lemma valid_name_no_nul: "is_valid_capsule_name name \<Longrightarrow> nul \<notin> set name"
  using valid_name_chars [of name nul] by (auto simp: ascii_defs nul_char byte_def)

lemma verified_template:
  assumes "contract_ok capsule" "verify_profile_call capsule call = Some (Inr v)"
  shows "\<forall>a \<in> set (vi_arguments v). template_ok v a" "nul \<notin> set (pi_name (vi_profile_identity v))"
    "vi_capsule v = capsule"
proof -
  from assms(1) have "(\<forall>a \<in> set (vi_arguments v). template_ok v a) \<and> nul \<notin> set (pi_name (vi_profile_identity v)) \<and>
      vi_capsule v = capsule"
  proof (cases rule: verify_profile_call_cases [where call = call])
    case (refused e)
    with assms(2) show ?thesis by simp
  next
    case (accepted v' vals)
    then have [simp]: "v' = v"
      using assms(2) by simp
    have name: "is_valid_capsule_name (pi_name (pc_identity call))"
      using accepted(2) unfolding call_acceptable_def by blast
    have "\<forall>input \<in> set (cf_inputs (cc_profile capsule)). map_of vals (cn_name input) \<noteq> None"
      using accepted(2) unfolding call_acceptable_def accepted(4) by blast
    with assms(1) show ?thesis
    proof (cases rule: verify_inputs_cases [where call = call and vals = vals])
      case (refused e)
      with accepted(3) show ?thesis by simp
    next
      case verified: (accepted w m)
      then have [simp]: "w = v"
        using accepted(3) by simp
      have "template_ok v a" if "a \<in> set (vi_arguments v)" for a
        using collect_results_mem [OF verified(8) [unfolded bind_arguments_def]] that verified(2,5)
          bound_argument_template_ok [of v vals] by fastforce
      then show ?thesis
        using valid_name_no_nul [OF name] verified(2,3) by simp
    qed
  qed
  then show "\<forall>a \<in> set (vi_arguments v). template_ok v a" "nul \<notin> set (pi_name (vi_profile_identity v))"
    "vi_capsule v = capsule"
    by auto
qed

lemma verified_identity:
  assumes "contract_ok capsule" "verify_profile_call capsule call = Some (Inr v)"
  shows "vi_profile_identity v = pc_identity call"
proof -
  obtain vals where "verify_inputs capsule call vals = Some (Inr v)"
    using verify_profile_call_cases [OF assms(1), of call] assms(2) by (metis option.inject sum.distinct(1) sum.inject(2))
  then show ?thesis
    by (auto simp: verify_inputs_def Let_def panic_def result_simps split: option.splits sum.splits)
qed

lemma verified_artifacts:
  assumes "contract_ok capsule" "verify_profile_call capsule call = Some (Inr v)"
  shows "fst ` set (vi_input_artifacts v) =
    cn_name ` {input \<in> set (cf_inputs (cc_profile capsule)). cn_kind input = LocalInputKind}"
  using assms(1)
proof (cases rule: verify_profile_call_cases [where call = call])
  case (accepted v' vals)
  have "\<forall>input \<in> set (cf_inputs (cc_profile capsule)). map_of vals (cn_name input) \<noteq> None"
    using accepted(2) unfolding call_acceptable_def accepted(4) by blast
  with assms(1) show ?thesis
    by (cases rule: verify_inputs_cases [where call = call and vals = vals]) (use accepted assms(2) in auto)
qed (use assms(2) in simp)

section \<open>Materialization succeeds exactly on complete bindings\<close>

lemma validate_absolute_paths_Ok:
  "validate_absolute_paths kind paths = Inr u \<longleftrightarrow> (\<forall>(slot, path) \<in> set paths. path_ok path)"
  by (induction kind paths rule: validate_absolute_paths.induct) (auto simp: path_ok_def contains_nul_def)

lemma collect_bindings_Ok:
  assumes "collect_bindings kind bs = Inr paths"
  shows "distinct (map fst bs)" "set (btree_keys paths) = fst ` set bs" "map_of paths = map_of bs"
    "(\<forall>(slot, path) \<in> set paths. path_ok path) \<longleftrightarrow> (\<forall>(slot, path) \<in> set bs. path_ok path)"
proof -
  note c = assms [unfolded collect_bindings_def]
  show d: "distinct (map fst bs)"
    by (rule btree.collect_OkD(1) [OF c])
  show "set (btree_keys paths) = fst ` set bs"
    by (rule btree.keys_collect [OF c]) (simp add: btree_keys_def)
  show m: "map_of paths = map_of bs"
    using btree.get_collect [OF c] by (auto simp: fun_eq_iff split: option.splits)
  have "distinct (map fst paths)"
    using btree_collect_wf [OF c] by (simp add: btree_wf_distinct)
  then have "set paths = set bs"
    using m d by (metis map_of_inject_set)
  then show "(\<forall>(slot, path) \<in> set paths. path_ok path) \<longleftrightarrow> (\<forall>(slot, path) \<in> set bs. path_ok path)"
    by simp
qed

lemma collect_bindings_distinct: "distinct (map fst bs) \<Longrightarrow> \<exists>paths. collect_bindings kind bs = Inr paths"
  using btree.collect_total [of "DuplicateBinding kind" "[]" bs] by (simp add: collect_bindings_def)

lemma validate_binding_sets_Ok:
  "validate_binding_sets v ins outs = Inr u \<longleftrightarrow>
     set (btree_keys ins) = fst ` set (vi_input_artifacts v) \<and>
     set (btree_keys outs) = {bo_name (cf_output (cc_profile (vi_capsule v)))}"
  by (auto simp: validate_binding_sets_def Let_def btree_difference_Nil btree_keys_def)

lemma materialize_arguments_bound:
  assumes "\<forall>a \<in> set arguments. template_ok v a"
    and "bindings_ok v b" "map_of ins = map_of (ab_input_paths b)" "map_of outs = map_of (ab_output_paths b)"
  shows "materialize_arguments ins outs n arguments = Inr (map (bound_token b) arguments) \<and>
    (\<forall>a \<in> set arguments. nul \<notin> set (bound_token b a))"
  using assms(1)
proof (induction arguments arbitrary: n)
  case (Cons a rest)
  have "argument_token ins outs a = Inr (bound_token b a) \<and> nul \<notin> set (bound_token b a)"
  proof (cases a)
    case (InputArtifactPath slot)
    then have "slot \<in> fst ` set (ab_input_paths b)"
      using Cons.prems assms(2) by (simp add: bindings_ok_def)
    then obtain path where path: "map_of (ab_input_paths b) slot = Some path"
      by (metis map_of_eq_None_iff not_Some_eq)
    then have "path_ok path"
      using assms(2) map_of_SomeD [OF path] by (auto simp: bindings_ok_def)
    with path show ?thesis
      using InputArtifactPath assms(3) by (simp add: path_ok_def)
  next
    case (OutputArtifactPath slot)
    then have "slot \<in> fst ` set (ab_output_paths b)"
      using Cons.prems assms(2) by (simp add: bindings_ok_def)
    then obtain path where path: "map_of (ab_output_paths b) slot = Some path"
      by (metis map_of_eq_None_iff not_Some_eq)
    then have "path_ok path"
      using assms(2) map_of_SomeD [OF path] by (auto simp: bindings_ok_def)
    with path show ?thesis
      using OutputArtifactPath assms(4) by (simp add: path_ok_def)
  qed (use Cons.prems in auto)
  with Cons show ?case
    by (simp add: contains_nul_def)
qed simp

lemma materialize_needs_bindings:
  assumes "materialize_invocation v b = Inr m"
  shows "bindings_ok v b"
proof -
  obtain ins outs where c: "collect_bindings InputBinding (ab_input_paths b) = Inr ins"
      "collect_bindings OutputBinding (ab_output_paths b) = Inr outs"
    and checks: "validate_binding_sets v ins outs = Inr ()" "validate_absolute_paths InputBinding ins = Inr ()"
      "validate_absolute_paths OutputBinding outs = Inr ()" "path_ok (ab_working_directory b)"
    using assms
    by (auto simp: materialize_invocation_def result_simps path_ok_def contains_nul_def split: if_splits)
  note i = collect_bindings_Ok [OF c(1)] and o' = collect_bindings_Ok [OF c(2)]
  have "(\<forall>(slot, path) \<in> set (ab_input_paths b). path_ok path)" "(\<forall>(slot, path) \<in> set (ab_output_paths b). path_ok path)"
    using checks(2,3) i(4) o'(4) unfolding validate_absolute_paths_Ok by blast+
  with checks(1,4) i(1,2) o'(1,2) show ?thesis
    by (simp add: bindings_ok_def validate_binding_sets_Ok ball_Un)
qed

lemma materialization_facts:
  assumes "capsule_compile env io st name version = Inr capsule"
    and "verify_profile_call capsule call = Some (Inr v)"
  shows "((\<exists>m. materialize_invocation v b = Inr m) \<longleftrightarrow> bindings_ok v b) \<and>
    (\<forall>m. materialize_invocation v b = Inr m \<longrightarrow>
       mi_arguments m = map (bound_token b) (vi_arguments v) \<and> mi_argv0 m = pi_name (pc_identity call) \<and>
       (\<forall>s \<in> set (mi_argv0 m # mi_working_directory m # mi_arguments m). nul \<notin> set s) \<and>
       mi_effective_resources m = vi_effective_resources v \<and> mi_capsule_identity m = cc_identity capsule)"
proof -
  note t = verified_template [OF capsule_compile_contract [OF assms(1)] assms(2)]
  have identity: "vi_profile_identity v = pc_identity call"
    by (rule verified_identity [OF capsule_compile_contract [OF assms(1)] assms(2)])
  show ?thesis
  proof (cases "bindings_ok v b")
    case True
    obtain ins outs where c: "collect_bindings InputBinding (ab_input_paths b) = Inr ins"
        "collect_bindings OutputBinding (ab_output_paths b) = Inr outs"
      using True collect_bindings_distinct by (meson bindings_ok_def)
    note i = collect_bindings_Ok [OF c(1)] and o' = collect_bindings_Ok [OF c(2)]
    have checks: "validate_binding_sets v ins outs = Inr ()" "validate_absolute_paths InputBinding ins = Inr ()"
        "validate_absolute_paths OutputBinding outs = Inr ()" "path_ok (ab_working_directory b)"
      using True i o' by (auto simp: bindings_ok_def validate_binding_sets_Ok validate_absolute_paths_Ok)
    note tokens = materialize_arguments_bound [OF t(1) True i(3) o'(3)]
    show ?thesis
      using c checks tokens [of 0] t identity True
      by (auto simp: materialize_invocation_def path_ok_def contains_nul_def)
  next
    case False
    with materialize_needs_bindings show ?thesis
      by blast
  qed
qed

text \<open>
  C9: an invocation verified against a catalog Capsule materializes exactly when the runtime binds
  every input artifact and the declared output once, by absolute paths without NUL, in an absolute
  working directory; the argument vector is then the template with each placeholder replaced by
  the path bound to its slot, no string handed to the kernel contains NUL, and the resources and
  identities are those of the invocation.
\<close>

theorem materialized_exactly:
  assumes "capsule_compile env io st name version = Inr capsule"
    and "verify_profile_call capsule call = Some (Inr v)"
  shows "((\<exists>m. materialize_invocation v b = Inr m) \<longleftrightarrow> bindings_ok v b) \<and>
    (\<forall>m. materialize_invocation v b = Inr m \<longrightarrow>
       mi_arguments m = map (bound_token b) (vi_arguments v) \<and> mi_argv0 m = pi_name (pc_identity call) \<and>
       (\<forall>s \<in> set (mi_argv0 m # mi_working_directory m # mi_arguments m). nul \<notin> set s) \<and>
       mi_effective_resources m = vi_effective_resources v \<and> mi_capsule_identity m = cc_identity capsule)"
  by (rule materialization_facts [OF assms])

definition example_bindings :: artifact_bindings where
  "example_bindings = \<lparr>ab_input_paths = [(''source'', ''/s/in'')], ab_output_paths = [(''audio'', ''/s/out'')],
     ab_working_directory = ''/s''\<rparr>"

theorem materialized_exactly_witness:
  "\<exists>v m. verify_profile_call example_capsule example_call = Some (Inr v) \<and>
     materialize_invocation v example_bindings = Inr m \<and>
     mi_arguments m = map (bound_token example_bindings) (vi_arguments v)"
proof -
  have c: "contract_ok example_capsule"
    by (rule capsule_compile_contract [OF example_compile])
  obtain v where v: "verify_profile_call example_capsule example_call = Some (Inr v)"
    using verify_profile_call_cases [OF c, of example_call] example_call_acceptable by metis
  have "fst ` set (vi_input_artifacts v) = {''source''}"
    using verified_artifacts [OF c v] by (simp add: example_capsule_def) force
  then have "bindings_ok v example_bindings"
    using verified_template(3) [OF c v]
    by (simp add: bindings_ok_def example_bindings_def path_ok_def is_absolute_def nul_char example_capsule_def
        example_profile_def)
  with materialized_exactly [OF example_compile v, of example_bindings] v show ?thesis
    by blast
qed

end
