(* ===== verification/Runtime_Package.thy ===== *)
theory Runtime_Package
  imports Bundle_Catalog "HOL-Library.Sublist"
begin

text \<open>
  Runtime Packages: the manifest of a package and its validation
  (\<open>daemon/src/runtime_package/manifest.rs\<close>) and the resolved package a Profile runs with
  (\<open>daemon/src/runtime_package/mod.rs\<close>). JSON decoding, the canonical encoder, SHA-256 and the
  semantic-version parser are parameters. An accepted manifest is characterised exactly, and its
  files are shown to be places below the package root of which none is inside another.
\<close>

section \<open>The manifest\<close>

definition MAX_MANIFEST_BYTES :: nat where
  "MAX_MANIFEST_BYTES = 1048576"

definition MAX_EXACT_JSON_INTEGER :: u64 where
  "MAX_EXACT_JSON_INTEGER = 9007199254740991"

record runtime_libc =
  rl_family :: string
  rl_minimum_version :: string

record runtime_platform =
  rf_os :: string
  rf_architecture :: string
  rf_abi :: string
  rf_libc :: runtime_libc

record package_file =
  kf_path :: string
  kf_digest :: sha256_digest
  kf_size_bytes :: u64
  kf_mode :: string

record package_license =
  kl_spdx_id :: string
  kl_path :: string

record package_sbom =
  kb_format :: string
  kb_path :: string

record runtime_package_manifest =
  km_schema_version :: string
  km_id :: string
  km_version :: string
  km_platform :: runtime_platform
  km_entrypoint :: string
  km_library_paths :: "string list"
  km_files :: "package_file list"
  km_licenses :: "package_license list"
  km_sbom :: package_sbom

text \<open>The reasons given in \<open>InvalidManifest\<close>, one constructor per message of the code.\<close>

datatype package_problem =
    EmptyManifest
  | ManifestTooLarge nat
  | JsonInvalid
  | NotExact string
  | PackageVersionNotCanonical
  | ArchitectureUnknown
  | LibcVersionInvalid
  | PackageIdInvalid
  | RelativePathInvalid string
  | DuplicatePath string
  | TooManyLibraryPaths
  | FileCount
  | FilesUnordered
  | FileIsParent string
  | FileModeInvalid
  | FileSizeInexact
  | TotalSizeOverflow
  | EntrypointNotListed
  | EntrypointMode
  | LibraryPathEmpty string
  | TooManyLicenses
  | SpdxIdInvalid
  | LicenseNotListed
  | DuplicateLicense
  | SbomNotListed

definition mode_bits :: "package_file \<Rightarrow> u32 option" where
  "mode_bits file =
     (if kf_mode file = ''0444'' then Some 292 else if kf_mode file = ''0555'' then Some 365 else panic)"

section \<open>Validation\<close>

definition starts_with :: "string \<Rightarrow> string \<Rightarrow> bool" where
  "starts_with p s \<longleftrightarrow> strip_prefix p s \<noteq> None"

definition require_exact :: "string \<Rightarrow> string \<Rightarrow> string \<Rightarrow> package_problem + unit" where
  "require_exact field actual expected = require (actual = expected) (NotExact field)"

definition canonical_relative :: "string \<Rightarrow> bool" where
  "canonical_relative value \<longleftrightarrow>
     \<not> (value = [] \<or> 4096 < length value \<or> hd value = CHR ''/'' \<or> last value = CHR ''/'' \<or>
        backslash \<in> set value \<or> list_ex (\<lambda>c. c = nul \<or> is_ascii_control c) value \<or>
        list_ex (\<lambda>segment. segment = [] \<or> segment = ''.'' \<or> segment = ''..'' \<or> segment = ''.taskcage'')
          (split_on (CHR ''/'') value))"

definition validate_relative_path :: "string \<Rightarrow> string \<Rightarrow> package_problem + unit" where
  "validate_relative_path field value = require (canonical_relative value) (RelativePathInvalid field)"

fun validate_unique_paths :: "string \<Rightarrow> string set \<Rightarrow> string list \<Rightarrow> package_problem + unit" where
  "validate_unique_paths field seen [] = Ok ()"
| "validate_unique_paths field seen (path # rest) =
     and_then (validate_relative_path field path) (\<lambda>_.
     and_then (require (path \<notin> seen) (DuplicatePath field)) (\<lambda>_.
     validate_unique_paths field (insert path seen) rest))"

definition valid_component :: "string \<Rightarrow> bool" where
  "valid_component c \<longleftrightarrow>
     \<not> (c = [] \<or> \<not> list_all is_ascii_digit c \<or> 1 < length c \<and> hd c = CHR ''0'' \<or> \<not> parses_as_u32 c)"

definition validate_component_version :: "string \<Rightarrow> package_problem + unit" where
  "validate_component_version value =
     (let components = split_on (CHR ''.'') value in
      require (2 \<le> length components \<and> length components \<le> 3 \<and> list_all valid_component components)
        LibcVersionInvalid)"

definition validate_package_identity :: "string \<Rightarrow> package_problem + unit" where
  "validate_package_identity value =
     (let segments = split_on (CHR ''.'') value in
      require (value \<noteq> [] \<and> length value \<le> 255 \<and> 2 \<le> length segments \<and>
          list_all (\<lambda>segment. segment \<noteq> [] \<and> first_and_rest is_ascii_lowercase
            (\<lambda>c. is_ascii_lowercase c \<or> is_ascii_digit c \<or> c = CHR ''-'' \<or> c = CHR ''_'') segment) segments)
        PackageIdInvalid)"

definition validate_platform :: "runtime_platform \<Rightarrow> package_problem + unit" where
  "validate_platform platform =
     and_then (require_exact ''platform.os'' (rf_os platform) ''linux'') (\<lambda>_.
     and_then (require (rf_architecture platform \<in> {''x86_64'', ''aarch64''}) ArchitectureUnknown) (\<lambda>_.
     and_then (require_exact ''platform.abi'' (rf_abi platform) ''gnu'') (\<lambda>_.
     and_then (require_exact ''platform.libc.family'' (rl_family (rf_libc platform)) ''glibc'') (\<lambda>_.
     validate_component_version (rl_minimum_version (rf_libc platform))))))"

text \<open>The loop over the files, with the path before and the total size so far.\<close>

fun validate_package_files ::
  "package_file list \<Rightarrow> string option \<Rightarrow> u64 \<Rightarrow> package_file list \<Rightarrow> package_problem + u64" where
  "validate_package_files all previous so_far [] = Ok so_far"
| "validate_package_files all previous so_far (file # rest) =
     and_then (validate_relative_path ''files.path'' (kf_path file)) (\<lambda>_.
     and_then (require (case previous of None \<Rightarrow> True | Some p \<Rightarrow> \<not> kf_path file \<le> p) FilesUnordered) (\<lambda>_.
     and_then (require (\<not> list_ex (\<lambda>candidate. starts_with (kf_path file @ ''/'') (kf_path candidate)) all)
       (FileIsParent (kf_path file))) (\<lambda>_.
     and_then (require (kf_mode file = ''0444'' \<or> kf_mode file = ''0555'') FileModeInvalid) (\<lambda>_.
     and_then (require (kf_size_bytes file \<le> MAX_EXACT_JSON_INTEGER) FileSizeInexact) (\<lambda>_.
     and_then (ok_or TotalSizeOverflow (checked_add so_far (kf_size_bytes file))) (\<lambda>so_far'.
     validate_package_files all (Some (kf_path file)) so_far' rest))))))"

fun validate_library_paths :: "package_file list \<Rightarrow> string list \<Rightarrow> package_problem + unit" where
  "validate_library_paths files [] = Ok ()"
| "validate_library_paths files (library_path # rest) =
     (if list_ex (\<lambda>file. starts_with (library_path @ ''/'') (kf_path file)) files
      then validate_library_paths files rest
      else Err (LibraryPathEmpty library_path))"

definition valid_spdx_id :: "string \<Rightarrow> bool" where
  "valid_spdx_id value \<longleftrightarrow>
     \<not> (value = [] \<or> 128 < length value \<or>
        \<not> list_all (\<lambda>c. is_ascii_alphanumeric c \<or> c = CHR ''.'' \<or> c = CHR ''-'' \<or> c = CHR ''+'') value)"

fun validate_licenses ::
  "string set \<Rightarrow> (string \<times> string) set \<Rightarrow> package_license list \<Rightarrow> package_problem + unit" where
  "validate_licenses file_paths keys [] = Ok ()"
| "validate_licenses file_paths keys (license # rest) =
     and_then (require (valid_spdx_id (kl_spdx_id license)) SpdxIdInvalid) (\<lambda>_.
     and_then (validate_relative_path ''licenses.path'' (kl_path license)) (\<lambda>_.
     and_then (require (kl_path license \<in> file_paths) LicenseNotListed) (\<lambda>_.
     and_then (require ((kl_spdx_id license, kl_path license) \<notin> keys) DuplicateLicense) (\<lambda>_.
     validate_licenses file_paths (insert (kl_spdx_id license, kl_path license) keys) rest))))"

definition validate_entrypoint :: "runtime_package_manifest \<Rightarrow> package_problem + unit" where
  "validate_entrypoint package =
     and_then (ok_or EntrypointNotListed (find (\<lambda>file. kf_path file = km_entrypoint package) (km_files package))) (\<lambda>file.
     require (kf_mode file = ''0555'') EntrypointMode)"

definition validate_package_version ::
  "(string \<Rightarrow> semver_version option) \<Rightarrow> string \<Rightarrow> package_problem + unit" where
  "validate_package_version parse version =
     and_then (ok_or PackageVersionNotCanonical (parse version)) (\<lambda>parsed.
     require (sv_text parsed = version) PackageVersionNotCanonical)"

definition validate_package_manifest ::
  "(string \<Rightarrow> semver_version option) \<Rightarrow> runtime_package_manifest \<Rightarrow> package_problem + unit" where
  "validate_package_manifest parse package =
     (let files = km_files package; file_paths = set (map kf_path files) in
      and_then (require_exact ''schemaVersion'' (km_schema_version package) ''taskcage.runtime-package/v0alpha1'') (\<lambda>_.
      and_then (validate_package_identity (km_id package)) (\<lambda>_.
      and_then (validate_package_version parse (km_version package)) (\<lambda>_.
      and_then (validate_platform (km_platform package)) (\<lambda>_.
      and_then (validate_relative_path ''entrypoint'' (km_entrypoint package)) (\<lambda>_.
      and_then (require (length (km_library_paths package) \<le> 64) TooManyLibraryPaths) (\<lambda>_.
      and_then (validate_unique_paths ''libraryPaths'' {} (km_library_paths package)) (\<lambda>_.
      and_then (require (files \<noteq> [] \<and> length files \<le> 4096) FileCount) (\<lambda>_.
      and_then (validate_package_files files None 0 files) (\<lambda>_.
      and_then (validate_entrypoint package) (\<lambda>_.
      and_then (validate_library_paths files (km_library_paths package)) (\<lambda>_.
      and_then (require (length (km_licenses package) \<le> 256) TooManyLicenses) (\<lambda>_.
      and_then (validate_licenses file_paths {} (km_licenses package)) (\<lambda>_.
      and_then (require_exact ''sbom.format'' (kb_format (km_sbom package)) ''SPDX-JSON-2.3'') (\<lambda>_.
      and_then (validate_relative_path ''sbom.path'' (kb_path (km_sbom package))) (\<lambda>_.
      require (kb_path (km_sbom package) \<in> file_paths) SbomNotListed))))))))))))))))"

record validated_manifest =
  vm_manifest :: runtime_package_manifest
  vm_digest :: sha256_digest
  vm_canonical_json :: string

definition parse_package_manifest ::
  "(string \<Rightarrow> runtime_package_manifest option) \<Rightarrow> (runtime_package_manifest \<Rightarrow> string option) \<Rightarrow>
   (string \<Rightarrow> sha256_digest) \<Rightarrow> (string \<Rightarrow> semver_version option) \<Rightarrow> string \<Rightarrow>
   package_problem + validated_manifest" where
  "parse_package_manifest from_slice canonical sha256 parse source =
     (if source = [] then Err EmptyManifest
      else if MAX_MANIFEST_BYTES < length source then Err (ManifestTooLarge (length source))
      else
        and_then (ok_or JsonInvalid (from_slice source)) (\<lambda>manifest.
        and_then (validate_package_manifest parse manifest) (\<lambda>_.
        and_then (ok_or JsonInvalid (canonical manifest)) (\<lambda>canonical_json.
        Ok \<lparr>vm_manifest = manifest, vm_digest = sha256 canonical_json,
            vm_canonical_json = canonical_json\<rparr>))))"

section \<open>The resolved package\<close>

record resolved_runtime_package =
  rk_digest :: sha256_digest
  rk_manifest :: runtime_package_manifest
  rk_rootfs :: nat
  rk_entrypoint :: nat
  rk_library_paths :: "string list"

text \<open>\<open>std::env::join_paths\<close> refuses a path with the separator in it.\<close>

definition join_paths :: "string list \<Rightarrow> string option" where
  "join_paths paths =
     (if list_ex (\<lambda>p. CHR '':'' \<in> set p) paths then None else Some (join_with (CHR '':'') paths))"

definition dynamic_library_environment ::
  "resolved_runtime_package \<Rightarrow> (string, string) btree_map option" where
  "dynamic_library_environment package =
     (if rk_library_paths package = [] then Some []
      else map_option (\<lambda>v. [(''LD_LIBRARY_PATH'', v)]) (join_paths (rk_library_paths package)))"

section \<open>Paths and their segments\<close>

lemma require_holds [simp]: "require P e = Inr u \<longleftrightarrow> P"
  by (simp add: require_def)

lemma starts_with_iff: "starts_with p s \<longleftrightarrow> (\<exists>r. s = p @ r)"
  by (auto simp: starts_with_def strip_prefix_Some simp flip: not_None_eq)

lemma split_on_append: "split_on c (xs @ c # ys) = split_on c xs @ split_on c ys"
  by (induction xs) (auto split: list.splits)

lemma join_with_append:
  "xs \<noteq> [] \<Longrightarrow> ys \<noteq> [] \<Longrightarrow> join_with c (xs @ ys) = join_with c xs @ c # join_with c ys"
  by (induction c xs rule: join_with.induct) (auto simp: join_with_Cons_neq)

lemma split_prefix_iff:
  "prefix (split_on c p) (split_on c q) \<longleftrightarrow> p = q \<or> (\<exists>r. q = p @ c # r)"
proof
  assume "prefix (split_on c p) (split_on c q)"
  then obtain zs where zs: "split_on c q = split_on c p @ zs"
    by (auto simp: prefix_def)
  then have "q = join_with c (split_on c p @ zs)"
    using join_split_on [of c q] by simp
  then show "p = q \<or> (\<exists>r. q = p @ c # r)"
    by (cases "zs = []") (auto simp: join_with_append join_split_on)
qed (auto simp: split_on_append)

lemma canonical_relative_below:
  assumes "canonical_relative p"
  shows "resolve_below dir p = dir @ split_on (CHR ''/'') p"
    and "\<forall>s \<in> set (split_on (CHR ''/'') p). s \<notin> {[], ''.'', ''..'', ''.taskcage''}"
  using assms by (auto simp: canonical_relative_def list_ex_iff intro!: resolve_below_plain)

section \<open>Accepted manifests\<close>

lemma validate_unique_paths_Ok:
  "validate_unique_paths field seen paths = Inr u \<longleftrightarrow>
   distinct paths \<and> set paths \<inter> seen = {} \<and> list_all canonical_relative paths"
  by (induction paths arbitrary: seen) (auto simp: validate_relative_path_def result_simps)

lemma validate_library_paths_Ok:
  "validate_library_paths files paths = Inr u \<longleftrightarrow>
   (\<forall>p \<in> set paths. \<exists>f \<in> set files. starts_with (p @ ''/'') (kf_path f))"
  by (induction paths) (auto simp: list_ex_iff)

lemma validate_package_files_Ok:
  assumes "validate_package_files all previous so_far files = Inr t"
  shows "\<forall>f \<in> set files. canonical_relative (kf_path f) \<and> (kf_mode f = ''0444'' \<or> kf_mode f = ''0555'') \<and>
      (\<forall>g \<in> set all. \<not> starts_with (kf_path f @ ''/'') (kf_path g))"
    and "\<forall>p. previous = Some p \<longrightarrow> (\<forall>f \<in> set files. p < kf_path f)"
    and "sorted_wrt (<) (map kf_path files)"
    and "unat t = unat so_far + (\<Sum>f\<leftarrow>files. unat (kf_size_bytes f))"
proof -
  have "(\<forall>f \<in> set files. canonical_relative (kf_path f) \<and> (kf_mode f = ''0444'' \<or> kf_mode f = ''0555'') \<and>
      (\<forall>g \<in> set all. \<not> starts_with (kf_path f @ ''/'') (kf_path g))) \<and>
    (\<forall>p. previous = Some p \<longrightarrow> (\<forall>f \<in> set files. p < kf_path f)) \<and>
    sorted_wrt (<) (map kf_path files) \<and>
    unat t = unat so_far + (\<Sum>f\<leftarrow>files. unat (kf_size_bytes f))"
    using assms
  proof (induction files arbitrary: previous so_far)
    case (Cons f fs)
    then obtain s where f: "canonical_relative (kf_path f)" "kf_mode f = ''0444'' \<or> kf_mode f = ''0555''"
        "\<forall>g \<in> set all. \<not> starts_with (kf_path f @ ''/'') (kf_path g)"
        "\<forall>p. previous = Some p \<longrightarrow> p < kf_path f"
        "checked_add so_far (kf_size_bytes f) = Some s"
      and rest: "validate_package_files all (Some (kf_path f)) s fs = Inr t"
      by (auto simp: result_simps validate_relative_path_def list_ex_iff not_le split: option.splits)
    from Cons.IH [OF rest] f show ?case
      using checked_add_Some [OF f(5)] by (auto intro: less_trans)
  qed simp
  then show "\<forall>f \<in> set files. canonical_relative (kf_path f) \<and> (kf_mode f = ''0444'' \<or> kf_mode f = ''0555'') \<and>
      (\<forall>g \<in> set all. \<not> starts_with (kf_path f @ ''/'') (kf_path g))"
    and "\<forall>p. previous = Some p \<longrightarrow> (\<forall>f \<in> set files. p < kf_path f)"
    and "sorted_wrt (<) (map kf_path files)"
    and "unat t = unat so_far + (\<Sum>f\<leftarrow>files. unat (kf_size_bytes f))"
    by blast+
qed

lemma validate_entrypoint_Ok:
  assumes "validate_entrypoint package = Inr u"
  shows "\<exists>f \<in> set (km_files package). kf_path f = km_entrypoint package \<and> kf_mode f = ''0555''"
  using assms by (auto simp: validate_entrypoint_def result_simps find_Some_iff intro: nth_mem)

lemma validate_package_manifest_Ok:
  assumes "validate_package_manifest parse package = Inr u"
  shows "\<exists>t. validate_package_files (km_files package) None 0 (km_files package) = Inr t"
    and "validate_entrypoint package = Inr ()"
    and "validate_unique_paths ''libraryPaths'' {} (km_library_paths package) = Inr ()"
    and "validate_library_paths (km_files package) (km_library_paths package) = Inr ()"
  using assms by (auto simp: validate_package_manifest_def Let_def result_simps)

lemma separate_files:
  assumes "validate_package_files files None 0 files = Inr t" "i < length files" "j < length files" "i \<noteq> j"
  shows "\<not> prefix (resolve_below dir (kf_path (files ! i))) (resolve_below dir (kf_path (files ! j)))"
proof -
  note ok = validate_package_files_Ok [OF assms(1)]
  have "distinct (map kf_path files)"
    using ok(3) strict_sorted_iff by blast
  then have "kf_path (files ! i) \<noteq> kf_path (files ! j)"
    using assms(2-) by (auto simp: distinct_conv_nth)
  moreover have "\<not> (\<exists>r. kf_path (files ! j) = kf_path (files ! i) @ CHR ''/'' # r)"
    using ok(1) assms(2,3) by (fastforce simp: starts_with_iff)
  ultimately show ?thesis
    using ok(1) assms(2,3) by (auto simp: canonical_relative_below(1) split_prefix_iff)
qed

section \<open>Properties\<close>

lemma accepted_package:
  assumes "parse_package_manifest from_slice canonical sha256 parse source = Inr v"
  defines "package \<equiv> vm_manifest v"
  defines "files \<equiv> km_files package"
  shows "\<forall>f \<in> set files. \<exists>segs. resolve_below dir (kf_path f) = dir @ segs \<and> segs \<noteq> [] \<and>
      ''..'' \<notin> set segs \<and> ''.taskcage'' \<notin> set segs \<and> mode_bits f \<noteq> None"
    and "\<forall>i < length files. \<forall>j < length files. i \<noteq> j \<longrightarrow>
      \<not> prefix (resolve_below dir (kf_path (files ! i))) (resolve_below dir (kf_path (files ! j)))"
    and "(\<Sum>f\<leftarrow>files. unat (kf_size_bytes f)) < 2 ^ 64"
    and "\<exists>f \<in> set files. kf_path f = km_entrypoint package \<and> mode_bits f = Some 365"
    and "\<forall>p \<in> set (km_library_paths package). \<exists>f \<in> set files.
      strict_prefix (resolve_below dir p) (resolve_below dir (kf_path f))"
    and "\<exists>json. canonical package = Some json \<and> vm_digest v = sha256 json"
proof -
  have ok: "validate_package_manifest parse package = Inr ()"
    using assms(1) by (auto simp: parse_package_manifest_def package_def result_simps split: if_splits)
  then obtain t where t: "validate_package_files files None 0 files = Inr t"
    unfolding files_def using validate_package_manifest_Ok(1) by blast
  note loop = validate_package_files_Ok [OF t]
  show "\<forall>f \<in> set files. \<exists>segs. resolve_below dir (kf_path f) = dir @ segs \<and> segs \<noteq> [] \<and>
      ''..'' \<notin> set segs \<and> ''.taskcage'' \<notin> set segs \<and> mode_bits f \<noteq> None"
    using loop(1) canonical_relative_below by (fastforce simp: mode_bits_def)
  show "\<forall>i < length files. \<forall>j < length files. i \<noteq> j \<longrightarrow>
      \<not> prefix (resolve_below dir (kf_path (files ! i))) (resolve_below dir (kf_path (files ! j)))"
    using separate_files [OF t] by blast
  show "(\<Sum>f\<leftarrow>files. unat (kf_size_bytes f)) < 2 ^ 64"
    using loop(4) unat_u64_bound [of t] by simp
  show "\<exists>f \<in> set files. kf_path f = km_entrypoint package \<and> mode_bits f = Some 365"
    using validate_entrypoint_Ok [OF validate_package_manifest_Ok(2) [OF ok]]
    by (fastforce simp: mode_bits_def files_def)
  show "\<exists>json. canonical package = Some json \<and> vm_digest v = sha256 json"
    using assms(1) by (auto simp: parse_package_manifest_def package_def result_simps split: if_splits)
  show "\<forall>p \<in> set (km_library_paths package). \<exists>f \<in> set files.
      strict_prefix (resolve_below dir p) (resolve_below dir (kf_path f))"
  proof
    fix p
    assume p: "p \<in> set (km_library_paths package)"
    then have "canonical_relative p"
      using validate_package_manifest_Ok(3) [OF ok] by (auto simp: validate_unique_paths_Ok list_all_iff)
    moreover obtain f r where f: "f \<in> set files" "kf_path f = p @ CHR ''/'' # r"
      using p validate_package_manifest_Ok(4) [OF ok]
      by (auto simp: validate_library_paths_Ok starts_with_iff files_def)
    ultimately show "\<exists>f \<in> set files. strict_prefix (resolve_below dir p) (resolve_below dir (kf_path f))"
      using loop(1) by (intro bexI [OF _ f(1)]) (auto simp: canonical_relative_below(1) split_on_append strict_prefix_def)
  qed
qed

text \<open>C26: the files of an accepted Runtime Package are separate places strictly below the root they
  are unpacked in, never in a reserved directory, none of them inside another; their modes are
  the two read-only modes, the sum of their sizes fits 64 bits, the entrypoint is one of them and
  is executable, every library directory has a file in it, and the digest of the package is the
  digest of its canonical manifest.\<close>

theorem package_files_separate:
  assumes "parse_package_manifest from_slice canonical sha256 parse source = Inr v"
  shows "(\<forall>f \<in> set (km_files (vm_manifest v)). mode_bits f \<noteq> None \<and>
      (\<exists>segs. resolve_below dir (kf_path f) = dir @ segs \<and> segs \<noteq> [] \<and>
         ''..'' \<notin> set segs \<and> ''.taskcage'' \<notin> set segs)) \<and>
    (\<forall>i < length (km_files (vm_manifest v)). \<forall>j < length (km_files (vm_manifest v)). i \<noteq> j \<longrightarrow>
      \<not> prefix (resolve_below dir (kf_path (km_files (vm_manifest v) ! i)))
        (resolve_below dir (kf_path (km_files (vm_manifest v) ! j)))) \<and>
    (\<Sum>f\<leftarrow>km_files (vm_manifest v). unat (kf_size_bytes f)) < 2 ^ 64 \<and>
    (\<exists>f \<in> set (km_files (vm_manifest v)). kf_path f = km_entrypoint (vm_manifest v) \<and> mode_bits f = Some 365) \<and>
    (\<forall>p \<in> set (km_library_paths (vm_manifest v)). \<exists>f \<in> set (km_files (vm_manifest v)).
      strict_prefix (resolve_below dir p) (resolve_below dir (kf_path f))) \<and>
    (\<exists>json. canonical (vm_manifest v) = Some json \<and> vm_digest v = sha256 json)"
proof (intro conjI)
  show "\<forall>f \<in> set (km_files (vm_manifest v)). mode_bits f \<noteq> None \<and>
      (\<exists>segs. resolve_below dir (kf_path f) = dir @ segs \<and> segs \<noteq> [] \<and>
         ''..'' \<notin> set segs \<and> ''.taskcage'' \<notin> set segs)"
    using accepted_package(1) [OF assms] by blast
qed (rule accepted_package [OF assms])+

definition example_package :: runtime_package_manifest where
  "example_package =
     \<lparr>km_schema_version = ''taskcage.runtime-package/v0alpha1'', km_id = ''org.tool'', km_version = ''1.0.0'',
      km_platform = \<lparr>rf_os = ''linux'', rf_architecture = ''x86_64'', rf_abi = ''gnu'',
        rf_libc = \<lparr>rl_family = ''glibc'', rl_minimum_version = ''2.31''\<rparr>\<rparr>,
      km_entrypoint = ''bin/tool'', km_library_paths = [''lib''],
      km_files = [\<lparr>kf_path = ''bin/tool'', kf_digest = example_digest, kf_size_bytes = 7, kf_mode = ''0555''\<rparr>,
        \<lparr>kf_path = ''lib/a.so'', kf_digest = example_digest, kf_size_bytes = 9, kf_mode = ''0444''\<rparr>],
      km_licenses = [\<lparr>kl_spdx_id = ''MIT'', kl_path = ''lib/a.so''\<rparr>],
      km_sbom = \<lparr>kb_format = ''SPDX-JSON-2.3'', kb_path = ''lib/a.so''\<rparr>\<rparr>"

lemma example_paths: "list_all canonical_relative [''bin/tool'', ''lib/a.so'', ''lib'']"
  by (simp add: canonical_relative_def ascii_defs byte_def backslash_char nul_char)

lemma example_components: "valid_component ''2''" "valid_component ''31''"
  by (simp_all add: valid_component_def parses_as_u32_def parse_u64_def ascii_defs byte_def)

lemma example_package_files:
  "validate_package_files (km_files example_package) None 0 (km_files example_package) = Inr 16"
  using example_paths
  by (simp add: example_package_def validate_relative_path_def require_def starts_with_def checked_add_def
      MAX_EXACT_JSON_INTEGER_def less_eq_char_def)

lemma example_package_valid:
  "parse_package_manifest (\<lambda>_. Some example_package) (\<lambda>_. Some ''{}'') (\<lambda>_. example_digest) example_version ''m'' =
     Inr \<lparr>vm_manifest = example_package, vm_digest = example_digest, vm_canonical_json = ''{}''\<rparr>"
proof -
  have "validate_package_manifest example_version example_package = Inr ()"
    unfolding validate_package_manifest_def Let_def example_package_files using example_paths example_components
    by (simp add: example_package_def require_exact_def require_def validate_package_identity_def ascii_defs byte_def
        validate_package_version_def example_version_def validate_platform_def validate_component_version_def
        validate_relative_path_def validate_entrypoint_def starts_with_def valid_spdx_id_def Let_def)
  then show ?thesis
    by (simp add: parse_package_manifest_def MAX_MANIFEST_BYTES_def)
qed

theorem package_files_separate_witness:
  "\<not> prefix (resolve_below [''srv''] (kf_path (km_files example_package ! 0)))
     (resolve_below [''srv''] (kf_path (km_files example_package ! 1)))"
proof -
  have "length (km_files example_package) = 2"
    by (simp add: example_package_def)
  then show ?thesis
    using package_files_separate [OF example_package_valid, of "[''srv'']"] by simp
qed

end
