(* ===== verification/Profile_Registry.thy ===== *)
theory Profile_Registry
  imports Profile_Mapper Runtime_Package Submission
begin

text \<open>
  The resolution of a Profile submission: the resolver chain of
  \<open>daemon/src/application/capsule/registry.rs\<close> and the resolvers of
  \<open>daemon/src/adapters/outbound/capsule_resolvers/\<close>, from the installed catalog and the two
  reference Capsules. What the package caches return and whether a descriptor can be duplicated
  are arguments. An outer \<open>None\<close> is a panic. Messages that embed the text of another error
  carry that error.
\<close>

section \<open>Errors and results\<close>

datatype profile_message =
    Text string
  | PathText artifact_path_error
  | DigestText digest_parse_error
  | BudgetText policy_error
  | OutputText declared_output_error
  | InvocationText invocation_error
  | CatalogText capsule_error

record profile_error =
  pe_code :: use_case_error_code
  pe_message :: profile_message

definition profile_error_new :: "use_case_error_code \<Rightarrow> profile_message \<Rightarrow> profile_error" where
  "profile_error_new code message = \<lparr>pe_code = code, pe_message = message\<rparr>"

definition invalid_input :: "string \<Rightarrow> profile_error" where
  "invalid_input message = profile_error_new InvalidProfileInput (Text message)"

datatype profile_execution =
    InstalledExecution nat "verified_argument list" "(string, string) btree_map"
  | FileCopyExecution
  | FfmpegExecution nat i64 i64 "(string, string) btree_map"

record resolved_profile =
  rv_submission :: profile_submission
  rv_source :: local_input_artifact
  rv_output :: declared_output_artifact
  rv_budget :: resource_budget
  rv_execution :: profile_execution
  rv_output_slot :: string

datatype capsule_resolution = Resolved resolved_profile | NotFound

type_synonym 'a outcome = "(profile_error + 'a) option"

text \<open>The question mark in a function that may also panic.\<close>

definition and_try :: "'a outcome \<Rightarrow> ('a \<Rightarrow> 'b outcome) \<Rightarrow> 'b outcome" where
  "and_try r f = (case r of None \<Rightarrow> None | Some (Inl e) \<Rightarrow> Some (Inl e) | Some (Inr x) \<Rightarrow> f x)"

lemma and_try_simps [simp]:
  "and_try None f = None" "and_try (Some (Inl e)) f = Some (Inl e)" "and_try (Some (Inr x)) f = f x"
  by (simp_all add: and_try_def)

section \<open>Shared parts of the reference resolvers\<close>

definition call_input :: "profile_call \<Rightarrow> string \<Rightarrow> profile_value option" where
  "call_input call name = map_option snd (find (\<lambda>(slot, _). slot = name) (pc_inputs call))"

definition parse_source :: "profile_call \<Rightarrow> local_input_artifact outcome" where
  "parse_source call =
     (case call_input call ''source'' of
        Some (LocalInputValue path digest size_bytes) \<Rightarrow>
          (case artifact_path_parse path of
             Inl e \<Rightarrow> Some (Err (profile_error_new InvalidArtifactPath (PathText e)))
           | Inr p \<Rightarrow>
               (case digest_from_str digest of
                  None \<Rightarrow> panic
                | Some (Inl e) \<Rightarrow> Some (Err (profile_error_new InvalidProfileInput (DigestText e)))
                | Some (Inr d) \<Rightarrow> Some (Ok (local_input_artifact_new p d size_bytes))))
      | Some _ \<Rightarrow> Some (Err (invalid_input ''inputs.source must be LOCAL_INPUT''))
      | None \<Rightarrow> Some (Err (invalid_input ''inputs.source is required'')))"

definition resolve_budget ::
  "resource_budget \<Rightarrow> profile_resource_overrides option \<Rightarrow> profile_error + resource_budget" where
  "resolve_budget dflt overrides =
     (case overrides of
        None \<Rightarrow> Ok dflt
      | Some o' \<Rightarrow>
          if overrides_is_empty o'
          then Err (invalid_input ''resourceOverrides must contain at least one nested field'')
          else
            let resources = rb_resources dflt; output = rb_output dflt in
            map_err (\<lambda>e. profile_error_new InvalidProfileInput (BudgetText e))
              (resource_budget_try_new
                 (case ro_cpu_max o' of None \<Rightarrow> cp_quota_micros (rp_cpu resources) | Some c \<Rightarrow> cm_quota_micros c)
                 (case ro_cpu_max o' of None \<Rightarrow> cp_period_micros (rp_cpu resources) | Some c \<Rightarrow> cm_period_micros c)
                 (unwrap_or (rp_memory_max_bytes resources) (ro_memory_max_bytes o'))
                 (unwrap_or (rp_pids_max resources) (ro_pids_max o'))
                 (unwrap_or (rp_wall_time_limit_ms resources) (ro_wall_time_limit_ms o'))
                 (unwrap_or (ucast (op_stdout_tail_max_bytes output)) (ro_stdout_tail_max_bytes o'))
                 (unwrap_or (ucast (op_stderr_tail_max_bytes output)) (ro_stderr_tail_max_bytes o'))))"

text \<open>\<open>expect\<close> on the output contract of a reference Capsule.\<close>

definition static_output :: "string \<Rightarrow> string \<Rightarrow> u64 \<Rightarrow> declared_output_artifact option" where
  "static_output file_name media_type maximum =
     (case declared_output_new file_name media_type maximum of Inl _ \<Rightarrow> panic | Inr a \<Rightarrow> Some a)"

section \<open>The file-copy Capsule\<close>

definition FILE_COPY :: profile_identity where
  "FILE_COPY = \<lparr>pi_name = ''file-copy'', pi_version = ''1.0.0''\<rparr>"

definition validate_file_copy :: "profile_call \<Rightarrow> profile_error + unit" where
  "validate_file_copy call =
     and_then (case call_input call ''label'' of
         Some (StringValue v) \<Rightarrow>
           if v \<noteq> [] \<and> length v \<le> 128 then Ok () else Err (invalid_input ''inputs.label must contain 1 to 128 bytes'')
       | _ \<Rightarrow> Err (invalid_input ''inputs.label must be STRING'')) (\<lambda>_.
     and_then (case call_input call ''retain_metadata'' of
         Some (BooleanValue _) \<Rightarrow> Ok ()
       | _ \<Rightarrow> Err (invalid_input ''inputs.retain_metadata must be BOOLEAN'')) (\<lambda>_.
     case call_input call ''priority'' of
         Some (Int64Value v) \<Rightarrow>
           if 0 \<le> v \<and> v \<le> 100 then Ok () else Err (invalid_input ''inputs.priority must be INT64 between 0 and 100'')
       | _ \<Rightarrow> Err (invalid_input ''inputs.priority must be INT64'')))"

definition file_copy_resolve ::
  "u64 \<Rightarrow> resource_budget \<Rightarrow> profile_submission \<Rightarrow> capsule_resolution outcome" where
  "file_copy_resolve maximum dflt submission =
     (let call = ps_call submission in
      if pi_name (pc_identity call) \<noteq> pi_name FILE_COPY \<or> pi_version (pc_identity call) \<noteq> pi_version FILE_COPY
      then Some (Ok NotFound)
      else if length (pc_inputs call) \<noteq> 4 then
        Some (Err (invalid_input
          ''file-copy requires exactly source, label, retain_metadata, and priority inputs''))
      else
        and_try (parse_source call) (\<lambda>source.
        and_try (Some (validate_file_copy call)) (\<lambda>_.
        and_try (Some (resolve_budget dflt (pc_resource_overrides call))) (\<lambda>budget.
        case static_output ''result.txt'' ''text/plain'' maximum of
          None \<Rightarrow> None
        | Some out \<Rightarrow> Some (Ok (Resolved
            \<lparr>rv_submission = submission, rv_source = source, rv_output = out, rv_budget = budget,
             rv_execution = FileCopyExecution, rv_output_slot = ''result''\<rparr>))))))"

section \<open>The FFmpeg Capsule\<close>

definition FFMPEG :: profile_identity where
  "FFMPEG = \<lparr>pi_name = ''ffmpeg-audio-to-wav'', pi_version = ''1.0.0''\<rparr>"

definition allowed_int64 :: "profile_call \<Rightarrow> string \<Rightarrow> i64 list \<Rightarrow> string \<Rightarrow> profile_error + i64" where
  "allowed_int64 call slot allowed description =
     (case call_input call slot of
        Some (Int64Value v) \<Rightarrow>
          if v \<in> set allowed then Ok v
          else Err (invalid_input (''inputs.'' @ slot @ '' must be '' @ description))
      | _ \<Rightarrow> Err (invalid_input (''inputs.'' @ slot @ '' must be INT64'')))"

definition validate_ffmpeg_call :: "profile_call \<Rightarrow> (local_input_artifact \<times> i64 \<times> i64) outcome" where
  "validate_ffmpeg_call call =
     (if length (pc_inputs call) \<noteq> 3 then
        Some (Err (invalid_input
          ''ffmpeg-audio-to-wav requires exactly source, sample_rate_hz, and channels inputs''))
      else
        and_try (parse_source call) (\<lambda>source.
        and_try (Some (allowed_int64 call ''sample_rate_hz'' [8000, 16000, 22050, 44100, 48000]
          ''8000, 16000, 22050, 44100, or 48000'')) (\<lambda>sample_rate_hz.
        and_try (Some (allowed_int64 call ''channels'' [1, 2] ''1 or 2'')) (\<lambda>channels.
        Some (Ok (source, sample_rate_hz, channels))))))"

definition validate_ffmpeg_package_contract :: "resolved_runtime_package \<Rightarrow> string + unit" where
  "validate_ffmpeg_package_contract package =
     (let manifest = rk_manifest package in
      if km_id manifest \<noteq> ''org.taskcage.ffmpeg'' then
        Err (''id must be org.taskcage.ffmpeg, actual='' @ km_id manifest)
      else if km_entrypoint manifest \<noteq> ''bin/ffmpeg'' then
        Err (''entrypoint must be bin/ffmpeg, actual='' @ km_entrypoint manifest)
      else Ok ())"

text \<open>
  What a resolver sees of the outside: the catalog and its file system, the two package caches,
  and the duplication of a descriptor. Errors of the caches are their texts.
\<close>

record 'f resolve_env =
  re_bundle :: "'f bundle_env"
  re_io :: "io_step \<Rightarrow> bool"
  re_store :: store
  re_packages :: "sha256_digest \<Rightarrow> string + resolved_runtime_package"
  re_ffmpeg_packages :: "sha256_digest \<Rightarrow> string + resolved_runtime_package"
  re_try_clone :: "nat \<Rightarrow> string + nat"

definition unavailable :: "string \<Rightarrow> string \<Rightarrow> profile_error" where
  "unavailable context' error = profile_error_new EnvironmentUnavailable (Text (context' @ error))"

text \<open>The package part of the FFmpeg resolver: a pinned entrypoint and the library environment.\<close>

definition ffmpeg_package ::
  "'f resolve_env \<Rightarrow> sha256_digest \<Rightarrow> profile_error + nat \<times> (string, string) btree_map" where
  "ffmpeg_package env digest =
     and_then (map_err (unavailable ''registered FFmpeg Runtime Package is unavailable: '')
       (re_ffmpeg_packages env digest)) (\<lambda>package.
     and_then (map_err (unavailable []) (validate_ffmpeg_package_contract package)) (\<lambda>_.
     and_then (map_err (unavailable ''verified FFmpeg entrypoint descriptor could not be pinned: '')
       (re_try_clone env (rk_entrypoint package))) (\<lambda>entrypoint.
     and_then (ok_or (unavailable ''registered FFmpeg Runtime Package library paths are unavailable: '' [])
       (dynamic_library_environment package)) (\<lambda>environment.
     Ok (entrypoint, environment)))))"

definition ffmpeg_resolve ::
  "'f resolve_env \<Rightarrow> u64 \<Rightarrow> resource_budget \<Rightarrow> sha256_digest \<Rightarrow> profile_submission \<Rightarrow> capsule_resolution outcome" where
  "ffmpeg_resolve env maximum dflt digest submission =
     (let call = ps_call submission in
      if pi_name (pc_identity call) \<noteq> pi_name FFMPEG \<or> pi_version (pc_identity call) \<noteq> pi_version FFMPEG
      then Some (Ok NotFound)
      else
        and_try (validate_ffmpeg_call call) (\<lambda>(source, sample_rate_hz, channels).
        and_try (Some (resolve_budget dflt (pc_resource_overrides call))) (\<lambda>budget.
        and_try (Some (ffmpeg_package env digest)) (\<lambda>(entrypoint, environment).
        case static_output ''result.wav'' ''audio/wav'' maximum of
          None \<Rightarrow> None
        | Some out \<Rightarrow> Some (Ok (Resolved
            \<lparr>rv_submission = submission, rv_source = source, rv_output = out, rv_budget = budget,
             rv_execution = FfmpegExecution entrypoint sample_rate_hz channels environment,
             rv_output_slot = ''audio''\<rparr>))))))"

section \<open>Installed Capsules\<close>

fun profile_invocation_error_code :: "invocation_error \<Rightarrow> use_case_error_code" where
  "profile_invocation_error_code (CapsuleProfileNotFound _ _) = ProfileNotFound"
| "profile_invocation_error_code (PolicyRejected _) = LimitExceedsPolicy"
| "profile_invocation_error_code (InvalidCompiledContract _) = EnvironmentUnavailable"
| "profile_invocation_error_code (InputValueRejected _ ArtifactPathInvalid) = InvalidArtifactPath"
| "profile_invocation_error_code _ = InvalidProfileInput"

definition profile_invocation_error :: "invocation_error \<Rightarrow> profile_error" where
  "profile_invocation_error error = profile_error_new (profile_invocation_error_code error) (InvocationText error)"

definition installed_invocation ::
  "'f resolve_env \<Rightarrow> u64 \<Rightarrow> profile_submission \<Rightarrow> verified_invocation \<Rightarrow> local_input_artifact \<Rightarrow>
   profile_error + capsule_resolution" where
  "installed_invocation env maximum submission invocation source =
     (let output_contract = cf_output (cc_profile (vi_capsule invocation)) in
      and_then (map_err (unavailable ''Capsule Runtime Package is unavailable: '')
        (re_packages env (cr_package_digest (cc_runtime (vi_capsule invocation))))) (\<lambda>package.
      and_then (map_err (unavailable ''verified Capsule entrypoint descriptor could not be pinned: '')
        (re_try_clone env (rk_entrypoint package))) (\<lambda>entrypoint.
      and_then (ok_or (unavailable ''Capsule Runtime Package library paths are unavailable: '' [])
        (dynamic_library_environment package)) (\<lambda>environment.
      and_then (map_err (\<lambda>e. profile_error_new InvalidProfileInput (OutputText e))
        (declared_output_new (bo_file_name output_contract) (bo_media_type output_contract)
          (min (bo_maximum_bytes output_contract) maximum))) (\<lambda>out.
      Ok (Resolved
        \<lparr>rv_submission = submission, rv_source = source, rv_output = out,
         rv_budget = vi_effective_resources invocation,
         rv_execution = InstalledExecution entrypoint (vi_arguments invocation) environment,
         rv_output_slot = bo_name output_contract\<rparr>))))))"

definition installed_resolve ::
  "'f resolve_env \<Rightarrow> u64 \<Rightarrow> profile_submission \<Rightarrow> capsule_resolution outcome" where
  "installed_resolve env maximum submission =
     (let call = ps_call submission in
      case capsule_compile (re_bundle env) (re_io env) (re_store env)
          (pi_name (pc_identity call)) (pi_version (pc_identity call)) of
        Inl (LegacyBundle (BundleNotFound _ _)) \<Rightarrow> Some (Ok NotFound)
      | Inl error \<Rightarrow> Some (Err (profile_error_new EnvironmentUnavailable (CatalogText error)))
      | Inr capsule \<Rightarrow>
          (case verify_profile_call capsule call of
             None \<Rightarrow> panic
           | Some (Inl error) \<Rightarrow> Some (Err (profile_invocation_error error))
           | Some (Inr invocation) \<Rightarrow>
               (case vi_input_artifacts invocation of
                  [] \<Rightarrow> panic
                | (_, source) # _ \<Rightarrow> Some (installed_invocation env maximum submission invocation source))))"

section \<open>The chain\<close>

datatype capsule_resolver =
    InstalledCapsules u64
  | FileCopyResolver u64 resource_budget
  | FfmpegResolver u64 resource_budget sha256_digest

fun resolver_resolve ::
  "'f resolve_env \<Rightarrow> capsule_resolver \<Rightarrow> profile_submission \<Rightarrow> capsule_resolution outcome" where
  "resolver_resolve env (InstalledCapsules maximum) = installed_resolve env maximum"
| "resolver_resolve env (FileCopyResolver maximum dflt) = file_copy_resolve maximum dflt"
| "resolver_resolve env (FfmpegResolver maximum dflt digest) = ffmpeg_resolve env maximum dflt digest"

definition validate_profile_identity :: "profile_identity \<Rightarrow> profile_error + unit" where
  "validate_profile_identity profile =
     (if \<not> is_valid_capsule_name (pi_name profile) then
        Err (invalid_input ''profile.name must use dot-separated [a-z][a-z0-9-]* segments (maximum 63 bytes)'')
      else if \<not> list_all valid_version_component (split_on (CHR ''.'') (pi_version profile)) \<or>
          length (split_on (CHR ''.'') (pi_version profile)) \<noteq> 3 then
        Err (invalid_input ''profile.version must be strict MAJOR.MINOR.PATCH'')
      else Ok ())"

fun validate_slot_names :: "(string \<times> profile_value) list \<Rightarrow> profile_error + unit" where
  "validate_slot_names [] = Ok ()"
| "validate_slot_names ((slot, _) # rest) =
     (if valid_slot_name slot then validate_slot_names rest
      else Err (invalid_input ''profile input slot names must match [a-z][a-z0-9_-]{0,63}''))"

definition resolve_submission_checks :: "profile_submission \<Rightarrow> profile_error + unit" where
  "resolve_submission_checks submission =
     and_then (require (valid_uuid (ps_client_request_id submission)) (invalid_input ''clientRequestId must be a UUID'')) (\<lambda>_.
     and_then (validate_profile_identity (pc_identity (ps_call submission))) (\<lambda>_.
     validate_slot_names (pc_inputs (ps_call submission))))"

fun resolve_chain ::
  "('r \<Rightarrow> profile_submission \<Rightarrow> capsule_resolution outcome) \<Rightarrow> 'r list \<Rightarrow> profile_submission \<Rightarrow>
   resolved_profile outcome" where
  "resolve_chain resolve [] submission =
     Some (Err (profile_error_new ProfileNotFound (Text
       (''profile '' @ pi_name (pc_identity (ps_call submission)) @ ''@'' @
        pi_version (pc_identity (ps_call submission)) @ '' is not installed''))))"
| "resolve_chain resolve (resolver # rest) submission =
     and_try (resolve resolver submission) (\<lambda>resolution.
       case resolution of
         Resolved profile \<Rightarrow> Some (Ok profile)
       | NotFound \<Rightarrow> resolve_chain resolve rest submission)"

definition registry_resolve ::
  "'f resolve_env \<Rightarrow> capsule_resolver list \<Rightarrow> profile_submission \<Rightarrow> resolved_profile outcome" where
  "registry_resolve env resolvers submission =
     and_try (Some (resolve_submission_checks submission)) (\<lambda>_.
     resolve_chain (resolver_resolve env) resolvers submission)"

section \<open>The execution plan\<close>

definition ffmpeg_arguments :: "string \<Rightarrow> i64 \<Rightarrow> i64 \<Rightarrow> string \<Rightarrow> string list" where
  "ffmpeg_arguments input sample_rate_hz channels output =
     [''-hide_banner'', ''-loglevel'', ''error'', ''-nostdin'', ''-i'', input, ''-map'', ''0:a:0'', ''-vn'',
      ''-c:a'', ''pcm_s16le'', ''-ar'', i64_to_string sample_rate_hz, ''-ac'', i64_to_string channels, output]"

fun argument_text :: "string \<Rightarrow> string \<Rightarrow> verified_argument \<Rightarrow> string" where
  "argument_text input output (Literal v) = v"
| "argument_text input output (InputArtifactPath _) = input"
| "argument_text input output (OutputArtifactPath _) = output"

fun execution_into_plan ::
  "profile_execution \<Rightarrow> string \<Rightarrow> string \<Rightarrow> string \<Rightarrow> string \<Rightarrow> resource_budget \<Rightarrow> resolved_execution_plan" where
  "execution_into_plan (InstalledExecution entrypoint arguments environment) name input output dir budget =
     plan_from_pinned_entrypoint entrypoint name (map (argument_text input output) arguments) dir environment budget"
| "execution_into_plan FileCopyExecution name input output dir budget =
     plan_from_validated_raw \<lparr>rc_program = ''/usr/bin/cp'', rc_arguments = [input, output],
       rc_working_directory = dir, rc_environment = []\<rparr> budget"
| "execution_into_plan (FfmpegExecution entrypoint sample_rate_hz channels environment) name input output dir budget =
     plan_from_pinned_entrypoint entrypoint ''ffmpeg'' (ffmpeg_arguments input sample_rate_hz channels output)
       dir environment budget"

section \<open>The first owner decides\<close>

text \<open>
  The contract of a resolver: it answers \<open>NotFound\<close> exactly for the identities it does not own.
  A resolver that owns an identity and cannot serve it fails instead of passing it on.
\<close>

locale resolver_chain =
  fixes resolve :: "'r \<Rightarrow> profile_submission \<Rightarrow> capsule_resolution outcome"
    and owns :: "'r \<Rightarrow> profile_identity \<Rightarrow> bool"
  assumes not_found: "resolve r s = Some (Inr NotFound) \<longleftrightarrow> \<not> owns r (pc_identity (ps_call s))"
begin

lemma chain_unowned:
  assumes "\<forall>r \<in> set rs. \<not> owns r (pc_identity (ps_call s))"
  shows "resolve_chain resolve rs s = resolve_chain resolve [] s"
  using assms
proof (induction rs)
  case (Cons r rs)
  then have "resolve r s = Some (Inr NotFound)"
    by (simp add: not_found)
  with Cons show ?case
    by simp
qed simp

lemma chain_first_owner:
  assumes "find (\<lambda>r. owns r (pc_identity (ps_call s))) rs = Some r"
  shows "resolve_chain resolve rs s = None \<longleftrightarrow> resolve r s = None"
    and "resolve_chain resolve rs s = Some (Inl e) \<longleftrightarrow> resolve r s = Some (Inl e)"
    and "resolve_chain resolve rs s = Some (Inr p) \<longleftrightarrow> resolve r s = Some (Inr (Resolved p))"
proof -
  have own: "owns r (pc_identity (ps_call s))"
    using assms by (auto simp: find_Some_iff)
  have "resolve_chain resolve rs s = resolve_chain resolve [r] s"
    using assms
  proof (induction rs)
    case (Cons r' rs)
    show ?case
    proof (cases "owns r' (pc_identity (ps_call s))")
      case True
      with Cons.prems have "r' = r"
        by simp
      moreover from own have "resolve r s \<noteq> Some (Inr NotFound)"
        by (simp add: not_found)
      ultimately show ?thesis
        by (auto simp: and_try_def split: option.splits sum.splits capsule_resolution.splits)
    next
      case False
      then have "resolve r' s = Some (Inr NotFound)"
        by (simp add: not_found)
      with Cons False show ?thesis
        by simp
    qed
  qed simp
  moreover have "resolve r s \<noteq> Some (Inr NotFound)"
    using own by (simp add: not_found)
  ultimately show "resolve_chain resolve rs s = None \<longleftrightarrow> resolve r s = None"
    and "resolve_chain resolve rs s = Some (Inl e) \<longleftrightarrow> resolve r s = Some (Inl e)"
    and "resolve_chain resolve rs s = Some (Inr p) \<longleftrightarrow> resolve r s = Some (Inr (Resolved p))"
    by (auto simp: and_try_def split: option.splits sum.splits capsule_resolution.splits)
qed

end

text \<open>
  What each resolver owns. The catalog owns an identity unless it is a valid one that no Bundle is
  installed under: for an identity it cannot look up it fails.
\<close>

fun resolver_owns :: "'f resolve_env \<Rightarrow> capsule_resolver \<Rightarrow> profile_identity \<Rightarrow> bool" where
  "resolver_owns env (InstalledCapsules _) ident \<longleftrightarrow>
     \<not> (is_ok (validate_identity (be_parse_version (re_bundle env)) (pi_name ident) (pi_version ident)) \<and>
        fmlookup (st_identities (re_store env)) (pi_name ident, pi_version ident) = None)"
| "resolver_owns env (FileCopyResolver _ _) ident \<longleftrightarrow>
     pi_name ident = pi_name FILE_COPY \<and> pi_version ident = pi_version FILE_COPY"
| "resolver_owns env (FfmpegResolver _ _ _) ident \<longleftrightarrow>
     pi_name ident = pi_name FFMPEG \<and> pi_version ident = pi_version FFMPEG"

lemma and_try_NotFound:
  "and_try r f = Some (Inr x) \<longleftrightarrow> (\<exists>y. r = Some (Inr y) \<and> f y = Some (Inr x))"
  by (auto simp: and_try_def split: option.splits sum.splits)

lemma inspect_not_found:
  "(\<exists>n v. inspect env io st name version = Inl (BundleNotFound n v)) \<longleftrightarrow>
   is_ok (validate_identity (be_parse_version env) name version) \<and> fmlookup (st_identities st) (name, version) = None"
  by (auto simp: inspect_def inspect_by_digest_def read_mapping_def read_safe_file_def decode_manifest_def
      validated_def validate_identity_staging_entries_def is_ok_iff result_simps split: if_splits)

lemma installed_not_found:
  "installed_resolve env maximum s = Some (Inr NotFound) \<longleftrightarrow>
   \<not> resolver_owns env (InstalledCapsules maximum) (pc_identity (ps_call s))"
proof -
  let ?id = "pc_identity (ps_call s)"
  have "(\<exists>n v. capsule_compile (re_bundle env) (re_io env) (re_store env) (pi_name ?id) (pi_version ?id) =
      Inl (LegacyBundle (BundleNotFound n v))) \<longleftrightarrow> \<not> resolver_owns env (InstalledCapsules maximum) ?id"
    using inspect_not_found [of "re_bundle env" "re_io env" "re_store env" "pi_name ?id" "pi_version ?id"]
    by (auto simp: capsule_compile_def result_simps)
  moreover have "installed_invocation env maximum s v src \<noteq> Inr NotFound" for v src
    by (auto simp: installed_invocation_def Let_def result_simps)
  ultimately show ?thesis
    by (auto simp: installed_resolve_def Let_def panic_def
        split: sum.splits capsule_error.splits bundle_error.splits option.splits list.splits prod.splits)
qed

interpretation capsules: resolver_chain "resolver_resolve env" "resolver_owns env"
proof
  fix r s
  show "resolver_resolve env r s = Some (Inr NotFound) \<longleftrightarrow> \<not> resolver_owns env r (pc_identity (ps_call s))"
  proof (cases r)
    case (InstalledCapsules m)
    then show ?thesis
      using installed_not_found by simp
  qed (auto simp: file_copy_resolve_def ffmpeg_resolve_def Let_def and_try_NotFound split: option.splits)
qed


section \<open>What is resolved\<close>

definition submission_wf :: "profile_submission \<Rightarrow> bool" where
  "submission_wf s \<longleftrightarrow>
     valid_uuid (ps_client_request_id s) \<and>
     is_valid_capsule_name (pi_name (pc_identity (ps_call s))) \<and>
     valid_profile_version (pi_version (pc_identity (ps_call s))) \<and>
     (\<forall>(slot, _) \<in> set (pc_inputs (ps_call s)). valid_slot_name slot)"

lemma validate_slot_names_Ok:
  "validate_slot_names inputs = Inr u \<longleftrightarrow> (\<forall>(slot, _) \<in> set inputs. valid_slot_name slot)"
  by (induction inputs rule: validate_slot_names.induct) auto

lemma validate_slot_names_Err:
  "validate_slot_names inputs = Inl e \<Longrightarrow> pe_code e = InvalidProfileInput"
  by (induction inputs rule: validate_slot_names.induct)
    (auto simp: invalid_input_def profile_error_new_def split: if_splits)

lemma valid_version_agree:
  "valid_profile_version v \<longleftrightarrow>
     list_all valid_version_component (split_on (CHR ''.'') v) \<and> length (split_on (CHR ''.'') v) = 3"
  by (auto simp: valid_profile_version_def Let_def)

lemma resolve_checks:
  "resolve_submission_checks s = Inr () \<longleftrightarrow> submission_wf s"
  "resolve_submission_checks s = Inl e \<Longrightarrow> pe_code e = InvalidProfileInput"
  by (auto simp: resolve_submission_checks_def submission_wf_def validate_profile_identity_def valid_version_agree
      result_simps validate_slot_names_Ok require_def invalid_input_def profile_error_new_def
      split: if_splits dest: validate_slot_names_Err)

definition resolver_maximum :: "capsule_resolver \<Rightarrow> u64" where
  "resolver_maximum r = (case r of InstalledCapsules m \<Rightarrow> m | FileCopyResolver m _ \<Rightarrow> m | FfmpegResolver m _ _ \<Rightarrow> m)"

fun resolver_ok :: "capsule_resolver \<Rightarrow> bool" where
  "resolver_ok (InstalledCapsules m) \<longleftrightarrow> m \<noteq> 0"
| "resolver_ok (FileCopyResolver m dflt) \<longleftrightarrow> m \<noteq> 0 \<and> valid_budget dflt"
| "resolver_ok (FfmpegResolver m dflt _) \<longleftrightarrow> m \<noteq> 0 \<and> valid_budget dflt"

text \<open>An artifact that is the parsed form of a local input of the call.\<close>

definition input_of :: "profile_call \<Rightarrow> local_input_artifact \<Rightarrow> bool" where
  "input_of call a \<longleftrightarrow> (\<exists>slot path digest size_bytes p d.
     (slot, LocalInputValue path digest size_bytes) \<in> set (pc_inputs call) \<and>
     artifact_path_parse path = Inr p \<and> digest_from_str digest = Some (Inr d) \<and>
     a = local_input_artifact_new p d size_bytes)"

definition output_ok :: "u64 \<Rightarrow> declared_output_artifact \<Rightarrow> bool" where
  "output_ok maximum a \<longleftrightarrow>
     0 < do_maximum_bytes a \<and> do_maximum_bytes a \<le> maximum \<and> do_file_name a \<noteq> [] \<and>
     CHR ''/'' \<notin> set (do_file_name a) \<and> do_file_name a \<noteq> ''.'' \<and> do_file_name a \<noteq> ''..''"

lemma declared_output_ok:
  "declared_output_new f m n = Inr a \<Longrightarrow> n \<le> maximum \<Longrightarrow> output_ok maximum a"
  by (auto simp: declared_output_new_def output_ok_def word_neq_0_conv split: if_splits)

lemma static_outputs:
  "maximum \<noteq> 0 \<Longrightarrow> static_output ''result.txt'' ''text/plain'' maximum =
     Some \<lparr>do_file_name = ''result.txt'', do_media_type = ''text/plain'', do_maximum_bytes = maximum\<rparr>"
  "maximum \<noteq> 0 \<Longrightarrow> static_output ''result.wav'' ''audio/wav'' maximum =
     Some \<lparr>do_file_name = ''result.wav'', do_media_type = ''audio/wav'', do_maximum_bytes = maximum\<rparr>"
  by (simp_all add: static_output_def declared_output_new_def ascii_defs byte_def backslash_char nul_char)

lemma call_input_mem: "call_input call name = Some v \<Longrightarrow> (name, v) \<in> set (pc_inputs call)"
  by (auto simp: call_input_def find_Some_iff in_set_conv_nth)

lemma parse_source_sound:
  "parse_source call \<noteq> None" "parse_source call = Some (Inr a) \<Longrightarrow> input_of call a"
proof -
  show "parse_source call \<noteq> None"
    by (simp add: parse_source_def digest_from_str_total del: not_None_eq split: option.split profile_value.split sum.split)
  assume "parse_source call = Some (Inr a)"
  then obtain path digest size_bytes p d where "call_input call ''source'' = Some (LocalInputValue path digest size_bytes)"
      "artifact_path_parse path = Inr p" "digest_from_str digest = Some (Inr d)" "a = local_input_artifact_new p d size_bytes"
    by (auto simp: parse_source_def panic_def split: option.splits profile_value.splits sum.splits)
  then show "input_of call a"
    unfolding input_of_def using call_input_mem by blast
qed

lemma resolve_budget_valid:
  "valid_budget dflt \<Longrightarrow> resolve_budget dflt overrides = Inr b \<Longrightarrow> valid_budget b"
  by (auto simp: resolve_budget_def Let_def result_simps split: option.splits if_splits
      dest: resource_budget_try_new_valid)

definition profile_ok :: "u64 \<Rightarrow> profile_submission \<Rightarrow> resolved_profile \<Rightarrow> bool" where
  "profile_ok maximum s p \<longleftrightarrow>
     rv_submission p = s \<and> input_of (ps_call s) (rv_source p) \<and> valid_budget (rv_budget p) \<and>
     output_ok maximum (rv_output p)"

lemma and_try_None: "and_try r f = None \<longleftrightarrow> r = None \<or> (\<exists>x. r = Some (Inr x) \<and> f x = None)"
  by (auto simp: and_try_def split: option.splits sum.splits)

lemma and_try_total:

  assumes "r \<noteq> None" "\<And>x. r = Some (Inr x) \<Longrightarrow> f x \<noteq> None"
  shows "and_try r f \<noteq> None"
  using assms by (auto simp: and_try_def split: option.splits sum.splits)

lemma file_copy_total: "maximum \<noteq> 0 \<Longrightarrow> file_copy_resolve maximum dflt s \<noteq> None"
  unfolding file_copy_resolve_def Let_def static_outputs
  by (simp only: split: if_split) (intro conjI impI and_try_total parse_source_sound(1); simp)

lemma file_copy_sound:
  assumes "maximum \<noteq> 0" "valid_budget dflt" "file_copy_resolve maximum dflt s = Some (Inr (Resolved p))"
  shows "profile_ok maximum s p"
proof -
  obtain source budget where "parse_source (ps_call s) = Some (Inr source)"
      "resolve_budget dflt (pc_resource_overrides (ps_call s)) = Inr budget"
      "rv_submission p = s" "rv_source p = source" "rv_budget p = budget"
      "rv_output p = \<lparr>do_file_name = ''result.txt'', do_media_type = ''text/plain'', do_maximum_bytes = maximum\<rparr>"
    using assms(3) unfolding file_copy_resolve_def Let_def static_outputs(1) [OF assms(1)]
    by (auto simp: and_try_NotFound split: if_splits)
  then show ?thesis
    using assms(1) parse_source_sound(2) resolve_budget_valid [OF assms(2)]
    by (simp add: profile_ok_def output_ok_def word_neq_0_conv)
qed

lemma validate_ffmpeg_call_sound:
  "validate_ffmpeg_call call \<noteq> None"
  "validate_ffmpeg_call call = Some (Inr (source, rate, channels)) \<Longrightarrow> parse_source call = Some (Inr source)"
proof -
  show "validate_ffmpeg_call call \<noteq> None"
    unfolding validate_ffmpeg_call_def
    by (simp only: split: if_split) (intro conjI impI and_try_total parse_source_sound(1); simp)
  show "validate_ffmpeg_call call = Some (Inr (source, rate, channels)) \<Longrightarrow> parse_source call = Some (Inr source)"
    by (auto simp: validate_ffmpeg_call_def and_try_NotFound split: if_splits)
qed

lemma ffmpeg_total:
  assumes "maximum \<noteq> 0"
  shows "ffmpeg_resolve env maximum dflt digest s \<noteq> None"
proof
  assume "ffmpeg_resolve env maximum dflt digest s = None"
  then have "validate_ffmpeg_call (ps_call s) = None"
    unfolding ffmpeg_resolve_def Let_def static_outputs(2) [OF assms]
    by (auto simp: and_try_None split: if_splits prod.splits)
  then show False
    using validate_ffmpeg_call_sound(1) by blast
qed

lemma ffmpeg_sound:
  assumes "maximum \<noteq> 0" "valid_budget dflt" "ffmpeg_resolve env maximum dflt digest s = Some (Inr (Resolved p))"
  shows "profile_ok maximum s p"
proof -
  obtain source budget where "parse_source (ps_call s) = Some (Inr source)"
      "resolve_budget dflt (pc_resource_overrides (ps_call s)) = Inr budget"
      "rv_submission p = s" "rv_source p = source" "rv_budget p = budget"
      "rv_output p = \<lparr>do_file_name = ''result.wav'', do_media_type = ''audio/wav'', do_maximum_bytes = maximum\<rparr>"
    using assms(3) validate_ffmpeg_call_sound(2)
    unfolding ffmpeg_resolve_def Let_def static_outputs(2) [OF assms(1)]
    by (auto simp: and_try_NotFound split: if_splits)
  then show ?thesis
    using assms(1) parse_source_sound(2) resolve_budget_valid [OF assms(2)]
    by (simp add: profile_ok_def output_ok_def word_neq_0_conv)
qed

section \<open>Installed Capsules are resolved as verified\<close>

lemma validated_artifacts:
  assumes "validate_input_values inputs vals artifacts = Some (Inr artifacts')"
    and "(slot, a) \<in> set artifacts'"
  shows "(slot, a) \<in> set artifacts \<or> (\<exists>path digest size_bytes p d.
    map_of vals slot = Some (LocalInputValue path digest size_bytes) \<and> artifact_path_parse path = Inr p \<and>
    digest_from_str digest = Some (Inr d) \<and> a = local_input_artifact_new p d size_bytes)"
  using assms
proof (induction inputs arbitrary: artifacts)
  case (Cons input rest)
  obtain v x where v: "map_of vals (cn_name input) = Some v"
      "validate_input_value (cn_name input) (cn_kind input) v = Some (Inr x)"
    and rest: "validate_input_values rest vals
      (case x of None \<Rightarrow> artifacts | Some b \<Rightarrow> btree_insert (cn_name input) b artifacts) = Some (Inr artifacts')"
    using Cons.prems(1) by (auto simp: panic_def split: option.splits sum.splits)
  have x: "\<exists>path digest size_bytes p d. v = LocalInputValue path digest size_bytes \<and> artifact_path_parse path = Inr p \<and>
      digest_from_str digest = Some (Inr d) \<and> b = local_input_artifact_new p d size_bytes" if "x = Some b" for b
    using v(2) that
    by (cases "(cn_name input, cn_kind input, v)" rule: validate_input_value.cases)
      (auto simp: panic_def split: sum.splits option.splits if_splits)
  show ?case
  proof (cases x)
    case None
    then show ?thesis
      using Cons.IH [OF _ Cons.prems(2)] rest by simp
  next
    case (Some b)
    have "set (btree_insert k b m) \<subseteq> insert (k, b) (set m)" for k and m :: "(string, local_input_artifact) btree_map"
      by (induction k b m rule: btree_insert.induct) auto
    then show ?thesis
      using Cons.IH [OF _ Cons.prems(2)] rest Some x [OF Some] v(1) by fastforce
  qed
qed simp

lemma check_declared_count:
  "check_declared_inputs names n inputs = Inr k \<Longrightarrow>
   k = n + length (filter (\<lambda>input. cn_kind input = LocalInputKind) inputs)"
  by (induction names n inputs rule: check_declared_inputs.induct) (auto split: if_splits)

lemma one_local_input:
  assumes "contract_ok capsule" "verify_profile_call capsule call = Some (Inr v)"
  shows "\<exists>slot. fst ` set (vi_input_artifacts v) = {slot}"
proof -
  have "length (filter (\<lambda>input. cn_kind input = LocalInputKind) (cf_inputs (cc_profile capsule))) = 1"
    using assms(1) check_declared_count
    by (fastforce simp: contract_ok_def validate_compiled_structure_def Let_def result_simps)
  then obtain input where "filter (\<lambda>input. cn_kind input = LocalInputKind) (cf_inputs (cc_profile capsule)) = [input]"
    by (auto simp: length_Suc_conv)
  then have "{input \<in> set (cf_inputs (cc_profile capsule)). cn_kind input = LocalInputKind} = {input}"
    by (metis empty_set list.simps(15) set_filter)
  then show ?thesis
    using verified_artifacts [OF assms] by simp
qed

lemma verified_source:
  assumes "contract_ok capsule" "verify_profile_call capsule call = Some (Inr v)" "(slot, a) \<in> set (vi_input_artifacts v)"
  shows "input_of call a"
  using assms(1)
proof (cases rule: verify_profile_call_cases [where call = call])
  case (accepted v' vals)
  then have "validate_input_values (cf_inputs (cc_profile capsule)) vals [] = Some (Inr (vi_input_artifacts v))"
    using assms(2) by (auto simp: verify_inputs_def Let_def panic_def result_simps split: option.splits sum.splits)
  from validated_artifacts [OF this assms(3)] show ?thesis
    unfolding accepted(4) input_of_def using map_of_SomeD by (fastforce simp del: not_None_eq)
qed (use assms(2) in simp)

lemma verified_budget:
  assumes "contract_ok capsule" "verify_profile_call capsule call = Some (Inr v)"
  shows "valid_budget (vi_effective_resources v)"
    and "\<exists>m. policy_budget (cf_resource_policy (cc_profile capsule)) = Inr m \<and> budget_le (vi_effective_resources v) m"
proof -
  have policy: "is_ok (policy_budget (cf_resource_policy (cc_profile capsule)))"
    using assms(1) by (simp add: contract_ok_def)
  obtain vals where "verify_inputs capsule call vals = Some (Inr v)"
    using verify_profile_call_cases [OF assms(1), of call] assms(2) by (metis option.inject sum.distinct(1) sum.inject(2))
  then have r: "resolve_resources (cc_profile capsule) (pc_resource_overrides call) = Inr (vi_effective_resources v)"
    by (auto simp: verify_inputs_def Let_def panic_def result_simps split: option.splits sum.splits)
  from policy have "valid_budget (vi_effective_resources v) \<and>
      (\<exists>m. policy_budget (cf_resource_policy (cc_profile capsule)) = Inr m \<and> budget_le (vi_effective_resources v) m)"
    by (cases rule: resolve_resources_cases [where overrides = "pc_resource_overrides call"]) (use r in auto)
  then show "valid_budget (vi_effective_resources v)"
    and "\<exists>m. policy_budget (cf_resource_policy (cc_profile capsule)) = Inr m \<and> budget_le (vi_effective_resources v) m"
    by blast+
qed

lemma installed_cases:
  obtains (unowned) "installed_resolve env maximum s = Some (Inr NotFound)"
  | (refused) e where "installed_resolve env maximum s = Some (Inl e)"
  | (verified) capsule v slot source where
      "capsule_compile (re_bundle env) (re_io env) (re_store env)
         (pi_name (pc_identity (ps_call s))) (pi_version (pc_identity (ps_call s))) = Inr capsule"
      "verify_profile_call capsule (ps_call s) = Some (Inr v)" "(slot, source) \<in> set (vi_input_artifacts v)"
      "installed_resolve env maximum s = Some (installed_invocation env maximum s v source)"
proof (cases "capsule_compile (re_bundle env) (re_io env) (re_store env)
    (pi_name (pc_identity (ps_call s))) (pi_version (pc_identity (ps_call s)))")
  case (Inl e)
  then have "installed_resolve env maximum s = Some (Inr NotFound) \<or> (\<exists>e. installed_resolve env maximum s = Some (Inl e))"
    by (simp add: installed_resolve_def Let_def split: capsule_error.split bundle_error.split)
  then show thesis
    using that(1,2) by blast
next
  case (Inr capsule)
  then have ok: "contract_ok capsule"
    by (rule capsule_compile_contract)
  then show thesis
  proof (cases rule: verify_profile_call_cases [where call = "ps_call s"])
    case (refused e)
    then show thesis
      using that(2) Inr by (simp add: installed_resolve_def Let_def)
  next
    case (accepted v vals)
    obtain slot where "fst ` set (vi_input_artifacts v) = {slot}"
      using one_local_input [OF ok accepted(1)] by blast
    then obtain name source rest where "vi_input_artifacts v = (name, source) # rest"
      by (cases "vi_input_artifacts v") auto
    with Inr accepted(1) show thesis
      by (intro that(3) [of capsule v name source]) (simp_all add: installed_resolve_def Let_def)
  qed
qed

lemma installed_total: "installed_resolve env maximum s \<noteq> None"
  by (cases rule: installed_cases [of env maximum s]) simp_all

lemma installed_resolvedE:
  assumes "installed_resolve env maximum s = Some (Inr (Resolved p))"
  obtains capsule v slot source package entrypoint environment where
    "capsule_compile (re_bundle env) (re_io env) (re_store env)
       (pi_name (pc_identity (ps_call s))) (pi_version (pc_identity (ps_call s))) = Inr capsule"
    "verify_profile_call capsule (ps_call s) = Some (Inr v)" "(slot, source) \<in> set (vi_input_artifacts v)"
    "re_packages env (cr_package_digest (cc_runtime capsule)) = Inr package"
    "re_try_clone env (rk_entrypoint package) = Inr entrypoint"
    "dynamic_library_environment package = Some environment"
    "rv_submission p = s" "rv_source p = source" "rv_budget p = vi_effective_resources v"
    "rv_execution p = InstalledExecution entrypoint (vi_arguments v) environment"
    "rv_output_slot p = bo_name (cf_output (cc_profile capsule))"
    "output_ok maximum (rv_output p)"
proof (cases rule: installed_cases [of env maximum s])
  case (verified capsule v slot source)
  have same: "vi_capsule v = capsule"
    by (rule verified_template(3) [OF capsule_compile_contract [OF verified(1)] verified(2)])
  have "installed_invocation env maximum s v source = Inr (Resolved p)"
    using assms verified(4) by simp
  then show thesis
    unfolding installed_invocation_def Let_def same
    by (auto simp: result_simps intro!: that [OF verified(1,2,3)] declared_output_ok)
qed (use assms in simp_all)

lemma resolver_total: "resolver_ok r \<Longrightarrow> resolver_resolve env r s \<noteq> None"
  by (cases r) (simp_all add: installed_total file_copy_total ffmpeg_total del: not_None_eq)

lemma resolver_sound:
  assumes "resolver_ok r" "resolver_resolve env r s = Some (Inr (Resolved p))"
  shows "profile_ok (resolver_maximum r) s p"
proof (cases r)
  case (InstalledCapsules m)
  with assms(2) have "installed_resolve env m s = Some (Inr (Resolved p))"
    by simp
  then show ?thesis
    by (rule installed_resolvedE)
      (use InstalledCapsules in \<open>auto simp: profile_ok_def resolver_maximum_def
        dest: capsule_compile_contract verified_source verified_budget(1)\<close>)
qed (use assms in \<open>auto simp: resolver_maximum_def dest: file_copy_sound ffmpeg_sound\<close>)

lemma materialized_directory: "materialize_invocation v b = Inr m \<Longrightarrow> mi_working_directory m = ab_working_directory b"
  by (auto simp: materialize_invocation_def result_simps split: if_splits)

section \<open>Properties\<close>

text \<open>C14: which resolver answers. A malformed submission is refused as invalid input before any resolver
  sees it. Otherwise the first resolver that owns the identity decides, with success or with an
  error, and no later resolver can serve an identity an earlier one owns and refuses; an identity
  no resolver owns is reported as an unknown Profile.\<close>

theorem first_owner_decides:
  "(\<not> submission_wf s \<longrightarrow> (\<exists>e. registry_resolve env rs s = Some (Inl e) \<and> pe_code e = InvalidProfileInput)) \<and>
   (submission_wf s \<longrightarrow>
     (case find (\<lambda>r. resolver_owns env r (pc_identity (ps_call s))) rs of
        None \<Rightarrow> \<exists>e. registry_resolve env rs s = Some (Inl e) \<and> pe_code e = ProfileNotFound
      | Some r \<Rightarrow>
          (\<forall>p. registry_resolve env rs s = Some (Inr p) \<longleftrightarrow> resolver_resolve env r s = Some (Inr (Resolved p))) \<and>
          (\<forall>e. registry_resolve env rs s = Some (Inl e) \<longleftrightarrow> resolver_resolve env r s = Some (Inl e))))"
proof (cases "submission_wf s")
  case False
  then obtain e where "resolve_submission_checks s = Inl e"
    using resolve_checks(1) by (metis old.sum.exhaust old.unit.exhaust)
  then show ?thesis
    using False resolve_checks(2) by (simp add: registry_resolve_def)
next
  case True
  then have "resolve_submission_checks s = Inr ()"
    by (simp add: resolve_checks(1))
  then have reg: "registry_resolve env rs s = resolve_chain (resolver_resolve env) rs s"
    by (simp add: registry_resolve_def)
  show ?thesis
  proof (cases "find (\<lambda>r. resolver_owns env r (pc_identity (ps_call s))) rs")
    case None
    then have "\<forall>r \<in> set rs. \<not> resolver_owns env r (pc_identity (ps_call s))"
      by (simp add: find_None_iff)
    with True None show ?thesis
      by (simp add: reg capsules.chain_unowned profile_error_new_def)
  next
    case (Some r)
    with True show ?thesis
      unfolding reg using capsules.chain_first_owner [OF Some] by simp
  qed
qed

text \<open>C15: resolution never panics when the artifact limit is positive and the default budgets are
  valid, and what it resolves can be staged and run: it carries the submission, its source is a
  local input of the call with its parsed path and digest, its budget is valid, and its output is
  a plain file name with a positive limit within the deployment's.\<close>

theorem resolution_sound:
  assumes "\<forall>r \<in> set rs. resolver_ok r \<and> resolver_maximum r = maximum"
  shows "registry_resolve env rs s \<noteq> None \<and>
    (\<forall>p. registry_resolve env rs s = Some (Inr p) \<longrightarrow> profile_ok maximum s p)"
proof -
  have "resolve_chain (resolver_resolve env) rs s \<noteq> None \<and>
      (\<forall>p. resolve_chain (resolver_resolve env) rs s = Some (Inr p) \<longrightarrow> profile_ok maximum s p)"
  proof (cases "find (\<lambda>r. resolver_owns env r (pc_identity (ps_call s))) rs")
    case None
    then show ?thesis
      by (simp add: find_None_iff capsules.chain_unowned)
  next
    case (Some r)
    then have "r \<in> set rs"
      by (auto simp: find_Some_iff in_set_conv_nth)
    then show ?thesis
      using assms resolver_total [of r env s] resolver_sound [of r env s] capsules.chain_first_owner [OF Some] by auto
  qed
  then show ?thesis
    by (cases "resolve_submission_checks s") (simp_all add: registry_resolve_def del: not_None_eq)
qed

text \<open>C16: the plan of an installed Capsule is the materialization of the verified call. Whatever absolute
  paths the input, the output and the working directory are staged at, the plan runs the pinned
  entrypoint of the package the Capsule names, with exactly the argument vector, the working
  directory and the resources that the Profile mapper computes for these bindings, within the
  Capsule's own resource policy.\<close>

theorem installed_plan_is_materialization:
  assumes "installed_resolve env maximum s = Some (Inr (Resolved p))"
    and "path_ok input" "path_ok output" "path_ok dir"
  shows "\<exists>capsule v slot m package entrypoint maximal.
    capsule_compile (re_bundle env) (re_io env) (re_store env)
      (pi_name (pc_identity (ps_call s))) (pi_version (pc_identity (ps_call s))) = Inr capsule \<and>
    verify_profile_call capsule (ps_call s) = Some (Inr v) \<and>
    materialize_invocation v \<lparr>ab_input_paths = [(slot, input)], ab_output_paths = [(rv_output_slot p, output)],
      ab_working_directory = dir\<rparr> = Inr m \<and>
    re_packages env (cr_package_digest (cc_runtime capsule)) = Inr package \<and>
    re_try_clone env (rk_entrypoint package) = Inr entrypoint \<and>
    execution_into_plan (rv_execution p) (pi_name (pc_identity (ps_call s))) input output dir (rv_budget p) =
      plan_from_pinned_entrypoint entrypoint (mi_argv0 m) (mi_arguments m) (mi_working_directory m)
        (the (dynamic_library_environment package)) (mi_effective_resources m) \<and>
    policy_budget (cf_resource_policy (cc_profile capsule)) = Inr maximal \<and> budget_le (rv_budget p) maximal"
proof -
  obtain capsule v slot source package entrypoint environment where
    c: "capsule_compile (re_bundle env) (re_io env) (re_store env)
       (pi_name (pc_identity (ps_call s))) (pi_version (pc_identity (ps_call s))) = Inr capsule"
    and v: "verify_profile_call capsule (ps_call s) = Some (Inr v)" "(slot, source) \<in> set (vi_input_artifacts v)"
    and k: "re_packages env (cr_package_digest (cc_runtime capsule)) = Inr package"
      "re_try_clone env (rk_entrypoint package) = Inr entrypoint"
      "dynamic_library_environment package = Some environment"
    and p: "rv_budget p = vi_effective_resources v"
      "rv_execution p = InstalledExecution entrypoint (vi_arguments v) environment"
      "rv_output_slot p = bo_name (cf_output (cc_profile capsule))"
    by (rule installed_resolvedE [OF assms(1)])
  note ok = capsule_compile_contract [OF c] and tpl = verified_template [OF capsule_compile_contract [OF c] v(1)]
  define b where "b = \<lparr>ab_input_paths = [(slot, input)], ab_output_paths = [(rv_output_slot p, output)],
    ab_working_directory = dir\<rparr>"
  have slots: "fst ` set (vi_input_artifacts v) = {slot}"
    using one_local_input [OF ok v(1)] image_eqI [of slot fst, OF _ v(2)] by (elim exE) simp
  then have "bindings_ok v b"
    using assms(2-4) tpl(3) p(3) by (simp add: bindings_ok_def b_def)
  then obtain m where m: "materialize_invocation v b = Inr m"
    using conjunct1 [OF materialization_facts [OF c v(1), of b]] by blast
  have args: "mi_arguments m = map (bound_token b) (vi_arguments v)"
      "mi_argv0 m = pi_name (pc_identity (ps_call s))" "mi_effective_resources m = vi_effective_resources v"
    using conjunct2 [OF materialization_facts [OF c v(1), of b], THEN spec, THEN mp, OF m] by simp_all
  have wd: "mi_working_directory m = dir"
    by (rule materialized_directory [OF m, unfolded b_def, simplified])
  have "bound_token b a = argument_text input output a" if "a \<in> set (vi_arguments v)" for a
    using bspec [OF tpl(1) that] by (cases a) (simp_all add: b_def slots tpl(3) p(3))
  then have "map (argument_text input output) (vi_arguments v) = mi_arguments m"
    by (simp add: args(1))
  then have plan: "execution_into_plan (rv_execution p) (pi_name (pc_identity (ps_call s))) input output dir (rv_budget p) =
      plan_from_pinned_entrypoint entrypoint (mi_argv0 m) (mi_arguments m) (mi_working_directory m)
        (the (dynamic_library_environment package)) (mi_effective_resources m)"
    by (simp add: p(1,2) k(3) args(2,3) wd)
  obtain maximal where maximal: "policy_budget (cf_resource_policy (cc_profile capsule)) = Inr maximal"
      "budget_le (rv_budget p) maximal"
    using verified_budget(2) [OF ok v(1)] p(1) by auto
  show ?thesis
    by (intro exI [of _ capsule] exI [of _ v] exI [of _ slot] exI [of _ m] exI [of _ package] exI [of _ entrypoint]
        exI [of _ maximal] conjI c v(1) m [unfolded b_def] k(1,2) plan maximal)
qed

section \<open>An example\<close>

definition example_resolved_package :: resolved_runtime_package where
  "example_resolved_package =
     \<lparr>rk_digest = example_digest, rk_manifest = example_package, rk_rootfs = 7, rk_entrypoint = 8,
      rk_library_paths = [''/c/lib'']\<rparr>"

definition example_resolve_env :: "unit resolve_env" where
  "example_resolve_env =
     \<lparr>re_bundle = example_env, re_io = \<lambda>_. True, re_store = example_installed,
      re_packages = \<lambda>_. Inr example_resolved_package, re_ffmpeg_packages = \<lambda>_. Inl [],
      re_try_clone = \<lambda>d. Inr (d + 1)\<rparr>"

definition example_default_budget :: resource_budget where
  "example_default_budget =
     \<lparr>rb_resources = \<lparr>rp_cpu = \<lparr>cp_quota_micros = 1000, cp_period_micros = 1000\<rparr>, rp_memory_max_bytes = 4096,
        rp_pids_max = 2, rp_wall_time_limit_ms = 1000\<rparr>,
      rb_output = \<lparr>op_stdout_tail_max_bytes = 16, op_stderr_tail_max_bytes = 16\<rparr>\<rparr>"

definition example_submission :: profile_submission where
  "example_submission = \<lparr>ps_client_request_id = ''22222222-2222-4222-8222-222222222222'', ps_call = example_call\<rparr>"

lemma example_submission_wf: "submission_wf example_submission"
proof -
  have "valid_uuid ''22222222-2222-4222-8222-222222222222''"
    by (simp add: valid_uuid_def is_ascii_hexdigit_def is_ascii_digit_def byte_def upt_rec)
  moreover have "is_valid_capsule_name ''audio''" "valid_profile_version ''1.0.0''"
    by (simp_all add: is_valid_capsule_name_def valid_profile_version_def valid_version_component_def ascii_defs byte_def)
  ultimately show ?thesis
    by (simp add: submission_wf_def example_submission_def example_call_def valid_slot_name_def ascii_defs byte_def)
qed

lemma example_resolved:
  "\<exists>p. resolver_resolve example_resolve_env (InstalledCapsules 1000) example_submission = Some (Inr (Resolved p))"
proof -
  have c: "contract_ok example_capsule"
    by (rule capsule_compile_contract [OF example_compile])
  obtain v where v: "verify_profile_call example_capsule example_call = Some (Inr v)"
    using verify_profile_call_cases [OF c, of example_call] example_call_acceptable by metis
  have capsule: "vi_capsule v = example_capsule"
    by (rule verified_template(3) [OF c v])
  obtain slot source rest where a: "vi_input_artifacts v = (slot, source) # rest"
    using one_local_input [OF c v] by (cases "vi_input_artifacts v") auto
  have "\<exists>p. installed_invocation example_resolve_env 1000 example_submission v source = Inr (Resolved p)"
    unfolding installed_invocation_def Let_def capsule
    by (simp add: example_resolve_env_def example_resolved_package_def dynamic_library_environment_def join_paths_def
        example_capsule_def example_profile_def declared_output_new_def ascii_defs byte_def backslash_char nul_char)
  then show ?thesis
    using example_compile v a
    by (simp add: installed_resolve_def example_resolve_env_def example_submission_def example_call_def)
qed

lemma example_owners:
  "find (\<lambda>r. resolver_owns example_resolve_env r (pc_identity (ps_call example_submission)))
     [FileCopyResolver 1000 example_default_budget, InstalledCapsules 1000] = Some (InstalledCapsules 1000)"
  by (simp add: example_submission_def example_call_def FILE_COPY_def example_resolve_env_def example_installed_def)

theorem first_owner_decides_witness:
  "\<exists>p. registry_resolve example_resolve_env [FileCopyResolver 1000 example_default_budget, InstalledCapsules 1000] example_submission = Some (Inr p)"
  using first_owner_decides [of example_submission example_resolve_env "[FileCopyResolver 1000 example_default_budget, InstalledCapsules 1000]"]
    example_submission_wf example_resolved
  unfolding example_owners by simp

theorem resolution_sound_witness:
  "registry_resolve example_resolve_env [FileCopyResolver 1000 example_default_budget, InstalledCapsules 1000]
     example_submission \<noteq> None"
  using resolution_sound [of "[FileCopyResolver 1000 example_default_budget, InstalledCapsules 1000]" 1000
      example_resolve_env example_submission]
  by (simp add: resolver_maximum_def example_default_budget_def valid_budget_def valid_resource_policy_def
      valid_output_policy_def del: not_None_eq)

theorem installed_plan_is_materialization_witness:
  "\<exists>p (m :: materialized_invocation). resolver_resolve example_resolve_env (InstalledCapsules 1000) example_submission = Some (Inr (Resolved p)) \<and>
     execution_into_plan (rv_execution p) ''audio'' ''/s/in'' ''/s/out'' ''/s'' (rv_budget p) =
       plan_from_pinned_entrypoint 9 (mi_argv0 m) (mi_arguments m) (mi_working_directory m)
         [(''LD_LIBRARY_PATH'', ''/c/lib'')] (mi_effective_resources m)"
proof -
  have paths: "path_ok ''/s/in''" "path_ok ''/s/out''" "path_ok ''/s''"
    by (simp_all add: path_ok_def is_absolute_def nul_char)
  obtain p where p: "installed_resolve example_resolve_env 1000 example_submission = Some (Inr (Resolved p))"
    using example_resolved by auto
  obtain package entrypoint d and m :: materialized_invocation where k: "re_packages example_resolve_env d = Inr package"
      "re_try_clone example_resolve_env (rk_entrypoint package) = Inr entrypoint"
      "execution_into_plan (rv_execution p) (pi_name (pc_identity (ps_call example_submission))) ''/s/in'' ''/s/out'' ''/s''
         (rv_budget p) = plan_from_pinned_entrypoint entrypoint (mi_argv0 m) (mi_arguments m) (mi_working_directory m)
           (the (dynamic_library_environment package)) (mi_effective_resources m)"
    using installed_plan_is_materialization [OF p paths] by (elim exE conjE) (rule that; assumption)
  have "package = example_resolved_package" "entrypoint = 9"
    using k(1,2) by (auto simp: example_resolve_env_def example_resolved_package_def)
  with k(3) p show ?thesis
    by (intro exI [of _ p] exI [of _ m]) (simp add: example_submission_def example_call_def
        example_resolved_package_def dynamic_library_environment_def join_paths_def)
qed

end
