(* ===== verification/Spec2Isabelle.thy ===== *)
theory Spec2Isabelle
  imports Policy Artifact_Store Output_Capture Kernel_Events Lifecycle Coordination Profile_Registry
begin

text \<open>
  Taskcage runs commands as bounded tasks: a daemon takes submissions, places each process in a
  control group with verified limits, captures the tail of its output, classifies how it ended and
  keeps the result for a while. Signed Bundles describe commands that callers may run by name
  (Capsules). This development models the parts of the program that decide what happens and
  proves what makes them correct. Paths below are relative to \<open>src\<close>.

  \<^bold>\<open>How the code is rendered.\<close> A Rust \<open>Result\<close> is a sum with \<open>Err\<close> on the left, the \<open>?\<close> operator is
  \<open>and_then\<close>, a panic is the outer \<open>None\<close> of an option. Unsigned integers are words of their width,
  so arithmetic wraps unless the code checks it. A string is its list of bytes. A \<open>HashMap\<close> is a
  finite map with its length, a \<open>BTreeMap\<close> the list of its entries in key order. \<open>Instant\<close> and \<open>Duration\<close>
  are natural numbers of nanoseconds with the limits of the library. Objects shared through \<open>Arc\<close>
  are positions in a list. An operation under a mutex is one function from state to state; an
  asynchronous operation is cut into its segments between awaits, and the segments of all
  operations interleave freely. Packages that are not part of the repository, system calls and the
  clock are arguments; what is assumed of them is written in the theorems as named predicates.

  \<^bold>\<open>Library.\<close> \<open>Prelude\<close> has results, bytes, decimal numbers, maps and time, the fact collections
  \<open>result_simps\<close> and \<open>inv_intros\<close>, and the interface \<open>first_wins\<close> of a value that only its first
  writer sets. \<open>Ordered_Map\<close> has ordered maps and sets and the interface \<open>lookup_map\<close>, on which the
  loops that collect entries and refuse duplicates are verified once.

  \<^bold>\<open>Values.\<close> \<open>Policy\<close> (\<open>core/src/policy/mod.rs\<close>, \<open>daemon/src/resource_budget.rs\<close>,
  \<open>daemon/src/deployment_policy.rs\<close>, parts of the wire types and of the mapper): budgets, their
  validation, and the comparison of CPU shares by 128-bit products, which is the order of the
  rational shares; interface \<open>admission\<close>. \<open>Artifact\<close> (\<open>core/src/artifact\<close>): digests and their
  text form, artifact paths, which stay below their root. \<open>Task\<close> (\<open>core/src/task/mod.rs\<close>): states and
  results. \<open>Capsule\<close> (\<open>core/src/capsule\<close>, \<open>daemon/src/application/mod.rs\<close>): identities and calls.

  \<^bold>\<open>One task.\<close> \<open>Output_Capture\<close> (\<open>linux-runtime/src/executor/capture.rs\<close>, \<open>core/src/output.rs\<close>): the
  ring buffer and the reader loop keep exactly the last bytes, and the text made of them is well
  formed; interface \<open>bounded_tail_spec\<close>. \<open>Kernel_Events\<close> (\<open>linux-runtime/src/cgroup/events.rs\<close>): the
  counter files of the kernel and their differences. \<open>Lifecycle\<close> (\<open>daemon/src/lifecycle.rs\<close>,
  \<open>linux-runtime/src/deadline.rs\<close>, the status decoding of \<open>executor/wait.rs\<close>): the first stop reason
  wins, the classification follows the strongest evidence, a task finishes once.

  \<^bold>\<open>From request to process.\<close> \<open>Submission\<close> (\<open>daemon/src/protocol.rs\<close>, \<open>local_uds/mapper.rs\<close>,
  \<open>daemon/src/execution_plan.rs\<close>, the validation in \<open>application/task/submit.rs\<close>, the command
  preparation in \<open>executor/spawn.rs\<close>): which requests are accepted, and that an accepted one
  prepares the requested command. \<open>Frame_Codec\<close> (\<open>local_uds/codec.rs\<close>): frames come back as they were
  written, duplicate keys are refused at any depth.

  \<^bold>\<open>The daemon.\<close> \<open>Capacity\<close> (\<open>daemon/src/capacity.rs\<close>) and \<open>Fail_Stop\<close> (\<open>daemon/src/fail_stop.rs\<close>): slots and
  the fail-stop coordinator, each with its invariant under every interleaving. \<open>Registry\<close>
  (\<open>daemon/src/adapters/task_registry.rs\<close>, \<open>application/task/ports.rs\<close>, \<open>cancellation.rs\<close>): the records of
  requests and tasks, with a well-formedness invariant and a refinement of the life of a single
  request; \<open>Registry_Frame\<close> says what each operation leaves alone. \<open>Metrics\<close> (\<open>daemon/src/metrics.rs\<close>):
  counters and their text. \<open>Coordination\<close> (the use case of \<open>application/task/submit.rs\<close>,
  \<open>completion.rs\<close>, \<open>adapters/task_service.rs\<close>) composes them into a transition system of submissions
  under way; its invariant gives conservation of slots, that no waiter is forgotten, and that a
  failing daemon drains.

  \<^bold>\<open>Capsules.\<close> \<open>Bundle\<close> and \<open>Bundle_Catalog\<close> (\<open>adapters/outbound/bundle_catalog.rs\<close>): manifest
  validation, the signed archive, import and inspection over a store in which any system call may
  fail; what is installed never changes. \<open>Profile_Call\<close> (\<open>daemon/src/capsule.rs\<close>,
  \<open>application/capsule/contract.rs\<close>): a validated Bundle compiles, its contract is never to blame,
  and a call is accepted exactly when it conforms. \<open>Profile_Mapper\<close> (\<open>daemon/src/profile_mapper.rs\<close>): the
  argument vector is the template with the staged paths. \<open>Runtime_Package\<close>
  (\<open>daemon/src/runtime_package/manifest.rs\<close>, \<open>mod.rs\<close>): the manifest of a package, whose files are
  separate places below its root. \<open>Profile_Registry\<close> (\<open>application/capsule/registry.rs\<close>, \<open>resolver.rs\<close>,
  \<open>adapters/outbound/capsule_resolvers\<close>): the chain of resolvers from the installed catalog to the two
  reference Capsules; the first owner of an identity decides, nothing panics, and the plan of an
  installed Capsule is the materialization of the verified call; interface \<open>resolver_chain\<close>.

  \<^bold>\<open>Artifacts on disk.\<close> \<open>Artifact_Store\<close> (\<open>adapters/outbound/artifact_filesystem.rs\<close>): the store of
  inputs and outputs over a file system in which the environment decides at every call whether it
  fails. A staged input is an exact snapshot, a published output is exactly what the target wrote,
  no operation loses anything that was there before, and a refused output leaves no staging
  directory. The interface \<open>fs_frame\<close> gives the rules by which an action keeps a relation between
  file systems; it is interpreted for one kept entry, for equality and for a vanished tree.

  \<^bold>\<open>Bounds.\<close> No definition uses fuel: loops recurse on their data or on a measure, and the reader
  loops recurse on the finite list of answers of the operating system.

  \<^bold>\<open>Not modelled.\<close> Process creation and the run loop of the executor, control-group directories and
  their recovery, the package cache, the transfer of remote artifacts and the forked import of a
  package are sequences of system calls whose results the models above take as arguments. Sockets, TLS, peer credentials, command line,
  configuration files and process start are input and output. JSON, tar, gzip, base64, Ed25519,
  SHA-256 and version parsing belong to other packages. Texts in Korean are represented by the
  constructors that carry their data.
\<close>

end
